(* ===== verification/Cgn_Prelude.thy ===== *)
theory Cgn_Prelude
  imports Main "HOL-Library.Word" "HOL-Library.Sublist" "HOL-Library.Multiset" "HOL-Library.Monad_Syntax"
begin

text \<open>
  Shared vocabulary of the development: the machine integers of the Rust sources as words,
  the \<open>Result\<close> type as a sum, and the parts of the Rust standard library the components
  use (little-endian serialisation, \<open>slice::chunks\<close>, \<open>div_ceil\<close>, saturating
  arithmetic, \<open>str\<close> prefixes, iteration with a position). The lemmas are declared to the
  simplifier or collected in \<open>rust_std\<close> so that the component proofs stay short.
\<close>

unbundle bit_operations_syntax

named_theorems rust_std "facts on the modelled parts of the Rust standard library"

section \<open>Types\<close>

type_synonym u8 = "8 word"
type_synonym u32 = "32 word"
type_synonym u64 = "64 word"
type_synonym bytes = "u8 list"
type_synonym node_id = string
type_synonym instant = nat
type_synonym duration = nat

text \<open>\<open>Result<T, E>\<close> is \<open>E + T\<close>: \<open>Inl\<close> is \<open>Err\<close>, \<open>Inr\<close> is \<open>Ok\<close>.\<close>

type_synonym ('e, 'a) result = "'e + 'a"

section \<open>Bytes and little-endian words\<close>

definition str_bytes :: "string \<Rightarrow> bytes" where
  "str_bytes s = map of_char s"

lemma of_char_u8_inj: "(of_char c :: u8) = of_char d \<longleftrightarrow> c = d"
proof
  assume eq: "(of_char c :: u8) = of_char d"
  have unat: "unat (of_char x :: u8) = of_char x" for x :: char
  proof -
    have "(of_char x :: u8) = of_nat (of_char x)" by (simp only: of_nat_of_char)
    moreover have "(of_char x :: nat) < 256" by simp
    ultimately show ?thesis by (simp add: unat_of_nat)
  qed
  from eq have "(of_char c :: nat) = of_char d"
    by (metis unat)
  then show "c = d" by (simp add: of_char_eq_iff)
qed simp

lemma inj_of_char_u8: "inj (of_char :: char \<Rightarrow> u8)"
  by (rule injI) (simp add: of_char_u8_inj)

lemma str_bytes_inject [simp]: "str_bytes s = str_bytes t \<longleftrightarrow> s = t"
  unfolding str_bytes_def by (rule inj_map_eq_map [OF inj_of_char_u8])

lemma str_bytes_append [simp]: "str_bytes (s @ t) = str_bytes s @ str_bytes t"
  by (simp add: str_bytes_def)

lemma length_str_bytes [simp]: "length (str_bytes s) = length s"
  by (simp add: str_bytes_def)

definition nul_free :: "string \<Rightarrow> bool" where
  "nul_free s \<longleftrightarrow> CHR 0x00 \<notin> set s"

lemma nul_free_bytes: "nul_free s \<Longrightarrow> (0 :: u8) \<notin> set (str_bytes s)"
proof
  assume nf: "nul_free s" and "(0 :: u8) \<in> set (str_bytes s)"
  then obtain c where c: "c \<in> set s" and "(of_char c :: u8) = 0"
    by (auto simp: str_bytes_def)
  then have "(of_char c :: u8) = of_char (CHR 0x00)" by simp
  then have "c = CHR 0x00" by (simp only: of_char_u8_inj)
  with c nf show False by (simp add: nul_free_def)
qed

text \<open>\<open>u32::to_le_bytes\<close> and \<open>u32::from_le_bytes\<close>.\<close>

definition u32_le :: "u32 \<Rightarrow> bytes" where
  "u32_le w = [ucast w, ucast (drop_bit 8 w), ucast (drop_bit 16 w), ucast (drop_bit 24 w)]"

definition u32_of_le :: "u8 \<Rightarrow> u8 \<Rightarrow> u8 \<Rightarrow> u8 \<Rightarrow> u32" where
  "u32_of_le a b c d = ucast a OR push_bit 8 (ucast b) OR push_bit 16 (ucast c) OR push_bit 24 (ucast d)"

lemma length_u32_le [simp]: "length (u32_le w) = 4"
  by (simp add: u32_le_def)

lemma u32_of_le_le: "u32_of_le (ucast w) (ucast (drop_bit 8 w)) (ucast (drop_bit 16 w)) (ucast (drop_bit 24 w)) = w"
proof (rule bit_word_eqI)
  fix n assume "n < LENGTH(32)"
  then have "n < 32" by simp
  then consider "n < 8" | "8 \<le> n" "n < 16" | "16 \<le> n" "n < 24" | "24 \<le> n" "n < 32"
    by linarith
  then show "bit (u32_of_le (ucast w) (ucast (drop_bit 8 w)) (ucast (drop_bit 16 w))
      (ucast (drop_bit 24 w))) n = bit w n"
    by cases (auto simp: u32_of_le_def bit_or_iff bit_push_bit_iff bit_ucast_iff bit_drop_bit_eq)
qed

lemma u32_le_inject [simp]: "u32_le v = u32_le w \<longleftrightarrow> v = w"
  by (metis (no_types, lifting) u32_le_def u32_of_le_le list.inject)

definition u32s_le :: "u32 list \<Rightarrow> bytes" where
  "u32s_le ws = concat (map u32_le ws)"

lemma length_u32s_le [simp]: "length (u32s_le ws) = 4 * length ws"
  by (induction ws) (auto simp: u32s_le_def)

lemma u32s_le_simps [simp]:
  "u32s_le [] = []" "u32s_le (w # ws) = u32_le w @ u32s_le ws"
  by (simp_all add: u32s_le_def)

lemma u32s_le_append [simp]: "u32s_le (vs @ ws) = u32s_le vs @ u32s_le ws"
  by (simp add: u32s_le_def)

lemma u32_le_not_Nil [simp]: "u32_le w \<noteq> []"
  by (simp add: u32_le_def)

lemma u32s_le_inject [simp]: "u32s_le vs = u32s_le ws \<longleftrightarrow> vs = ws"
proof (induction vs arbitrary: ws)
  case Nil
  then show ?case by (cases ws) auto
next
  case (Cons v vs)
  then show ?case by (cases ws) auto
qed

section \<open>Lists\<close>

text \<open>\<open>slice::chunks\<close>: pieces of \<open>n\<close> elements, the last one possibly shorter.\<close>

function chunks :: "nat \<Rightarrow> 'a list \<Rightarrow> 'a list list" where
  "chunks n xs = (if n = 0 \<or> xs = [] then [] else take n xs # chunks n (drop n xs))"
  by pat_completeness auto
termination
  by (relation "measure (\<lambda>(n, xs). length xs)") auto

declare chunks.simps [simp del]

lemma chunks_Nil [simp]: "chunks n [] = []"
  by (simp add: chunks.simps)

lemma chunks_step: "0 < n \<Longrightarrow> xs \<noteq> [] \<Longrightarrow> chunks n xs = take n xs # chunks n (drop n xs)"
  by (simp add: chunks.simps)

lemma chunks_eq_Nil [simp]: "0 < n \<Longrightarrow> chunks n xs = [] \<longleftrightarrow> xs = []"
  by (cases "xs = []") (simp_all add: chunks_step [of n xs])

text \<open>\<open>usize::div_ceil\<close>.\<close>

definition div_ceil :: "nat \<Rightarrow> nat \<Rightarrow> nat" where
  "div_ceil a b = (if a mod b = 0 then a div b else a div b + 1)"

lemma div_ceil_least:
  assumes b: "0 < b"
  shows "div_ceil a b \<le> k \<longleftrightarrow> a \<le> k * b"
proof (cases "a mod b = 0")
  case True
  then obtain q where "a = b * q" by (auto simp: mod_eq_0_iff_dvd)
  with b show ?thesis by (simp add: div_ceil_def mult.commute)
next
  case False
  have a: "a = a div b * b + a mod b" by simp
  have r: "0 < a mod b" "a mod b < b" using False b by simp_all
  have "a div b + 1 \<le> k \<longleftrightarrow> a \<le> k * b"
  proof
    assume "a div b + 1 \<le> k"
    then have "(a div b + 1) * b \<le> k * b" by (rule mult_le_mono1)
    then have "a div b * b + b \<le> k * b" by (simp only: add_mult_distrib mult_1)
    with a r show "a \<le> k * b" by linarith
  next
    assume "a \<le> k * b"
    with a r have "a div b * b < k * b" by linarith
    then show "a div b + 1 \<le> k" using b by simp
  qed
  with False show ?thesis by (simp add: div_ceil_def)
qed

lemma div_ceil_zero [simp]: "div_ceil 0 b = 0"
  by (simp add: div_ceil_def)

lemma div_ceil_mult [simp]: "0 < b \<Longrightarrow> div_ceil (k * b) b = k"
  using div_ceil_least [of b "k * b" k] div_ceil_least [of b "k * b" "div_ceil (k * b) b"]
  by (simp add: antisym)

lemma div_ceil_step: "0 < b \<Longrightarrow> 0 < a \<Longrightarrow> div_ceil a b = Suc (div_ceil (a - b) b)"
proof (rule antisym)
  assume b: "0 < b" and a: "0 < a"
  show "div_ceil a b \<le> Suc (div_ceil (a - b) b)"
    using div_ceil_least [OF b, of "a - b" "div_ceil (a - b) b"]
      div_ceil_least [OF b, of a "Suc (div_ceil (a - b) b)"] by simp
  obtain k where k: "div_ceil a b = Suc k"
    using div_ceil_least [OF b, of a 0] a by (cases "div_ceil a b") auto
  with div_ceil_least [OF b, of a "Suc k"] have "a - b \<le> k * b" by simp
  with div_ceil_least [OF b, of "a - b" k] k
  show "Suc (div_ceil (a - b) b) \<le> div_ceil a b" by simp
qed

lemma length_chunks: "0 < n \<Longrightarrow> length (chunks n xs) = div_ceil (length xs) n"
proof (induction n xs rule: chunks.induct)
  case (1 n xs)
  then show ?case by (cases "xs = []") (simp_all add: chunks_step [of n xs] div_ceil_step)
qed

lemma take_chunks: "0 < n \<Longrightarrow> take k (chunks n xs) = chunks n (take (k * n) xs)"
proof (induction n xs arbitrary: k rule: chunks.induct)
  case (1 n xs)
  show ?case
  proof (cases "xs = [] \<or> k = 0")
    case True
    then show ?thesis by auto
  next
    case False
    then obtain k' where k: "k = Suc k'" by (cases k) auto
    from False "1.prems" "1.IH" [of k'] have "take k' (chunks n (drop n xs)) = chunks n (take (k' * n) (drop n xs))"
      by auto
    moreover have "take (k * n) xs \<noteq> []" using False "1.prems" by simp
    ultimately show ?thesis using False "1.prems" k
      by (simp add: chunks_step [of n xs] chunks_step [of n "take (n + k' * n) xs"] drop_take)
  qed
qed

lemma concat_chunks [simp]: "0 < n \<Longrightarrow> concat (chunks n xs) = xs"
proof (induction n xs rule: chunks.induct)
  case (1 n xs)
  then show ?case by (cases "xs = []") (simp_all add: chunks_step [of n xs])
qed

lemma chunks_inject: "0 < n \<Longrightarrow> chunks n xs = chunks n ys \<longleftrightarrow> xs = ys"
  by (metis concat_chunks)

lemma take_chunks_inject:
  "0 < n \<Longrightarrow> take k (chunks n xs) = take k (chunks n ys) \<longleftrightarrow> take (k * n) xs = take (k * n) ys"
  by (simp add: take_chunks chunks_inject)

text \<open>Two strings cut at the same number of separators are the same string.\<close>

lemma append_sep_inject:
  assumes "xs @ a # us = ys @ a # vs" and "count_list xs a = count_list ys a"
  shows "xs = ys \<and> us = vs"
  using assms
proof (induction xs arbitrary: ys)
  case Nil
  then show ?case by (cases ys) auto
next
  case (Cons x xs)
  then show ?case by (cases ys) (auto split: if_splits)
qed

lemma chunks_full: "0 < n \<Longrightarrow> n dvd length xs \<Longrightarrow> c \<in> set (chunks n xs) \<Longrightarrow> length c = n"
proof (induction n xs rule: chunks.induct)
  case (1 n xs)
  show ?case
  proof (cases "xs = []")
    case False
    with "1.prems" have le: "n \<le> length xs" by (auto dest: dvd_imp_le)
    with "1.prems" have "n dvd length (drop n xs)" by (simp add: dvd_diff_nat)
    with "1.IH" "1.prems" False le show ?thesis by (auto simp: chunks_step [of n xs])
  qed (use "1.prems" in simp)
qed

section \<open>Vectors and iterators\<close>

text \<open>\<open>iter().position(..)\<close> and \<open>Vec::remove\<close>.\<close>

fun position :: "('a \<Rightarrow> bool) \<Rightarrow> 'a list \<Rightarrow> nat option" where
  "position P [] = None"
| "position P (x # xs) = (if P x then Some 0 else map_option Suc (position P xs))"

definition remove_at :: "nat \<Rightarrow> 'a list \<Rightarrow> 'a list" where
  "remove_at i xs = take i xs @ drop (Suc i) xs"

text \<open>\<open>Iterator::max_by_key\<close> returns the last of several maxima.\<close>

fun max_by_key :: "('a \<Rightarrow> 'b :: linorder) \<Rightarrow> 'a list \<Rightarrow> 'a option" where
  "max_by_key f [] = None"
| "max_by_key f (x # xs) =
     (case max_by_key f xs of None \<Rightarrow> Some x | Some y \<Rightarrow> if f x \<le> f y then Some y else Some x)"

lemma position_Some: "position P xs = Some i \<Longrightarrow> i < length xs \<and> P (xs ! i) \<and> (\<forall>j<i. \<not> P (xs ! j))"
proof (induction xs arbitrary: i)
  case (Cons x xs)
  then show ?case by (cases i) (auto simp: less_Suc_eq_0_disj split: if_splits)
qed simp

lemma position_None: "position P xs = None \<longleftrightarrow> (\<forall>x \<in> set xs. \<not> P x)"
  by (induction xs) auto

lemma length_remove_at [simp]: "i < length xs \<Longrightarrow> length (remove_at i xs) = length xs - 1"
  by (simp add: remove_at_def)

lemma mset_remove_at: "i < length xs \<Longrightarrow> mset xs = add_mset (xs ! i) (mset (remove_at i xs))"
  unfolding remove_at_def by (subst id_take_nth_drop) auto

lemma set_remove_at: "i < length xs \<Longrightarrow> set xs = insert (xs ! i) (set (remove_at i xs))"
  by (metis mset_remove_at set_mset_add_mset_insert set_mset_mset)

lemma map_remove_at: "map f (remove_at i xs) = remove_at i (map f xs)"
  by (simp add: remove_at_def take_map drop_map)

lemma distinct_remove_at:
  "distinct xs \<Longrightarrow> i < length xs \<Longrightarrow> distinct (remove_at i xs) \<and> xs ! i \<notin> set (remove_at i xs)"
  by (metis distinct.simps(2) mset.simps(2) mset_eq_imp_distinct_iff mset_remove_at)

lemma max_by_key_None [simp]: "max_by_key f xs = None \<longleftrightarrow> xs = []"
  by (cases xs) (auto split: option.splits)

lemma max_by_key_Some:
  "max_by_key f xs = Some m \<Longrightarrow> m \<in> set xs \<and> (\<forall>x \<in> set xs. f x \<le> f m)"
proof (induction xs arbitrary: m)
  case (Cons x xs)
  then show ?case by (auto split: option.splits if_splits)
qed simp

end
