(* ===== verification/Cgn_Hash.thy ===== *)
theory Cgn_Hash
  imports Cgn_Prelude
begin

text \<open>
  Prefix hashing (\<open>cgn-core/src/hash.rs\<close>). BLAKE3 is a third-party crate, so the hash is
  the parameter \<open>blake3\<close> of every definition; the results that need it assume that it
  returns 32 bytes, does not collide on the messages at hand and never returns the all-zero
  digest that stands for ``no parent''. A digest \<open>[u8; 32]\<close> is a byte list.
\<close>

definition TOKENS_PER_CHUNK :: nat where
  "TOKENS_PER_CHUNK = 32"

definition hash_chunk :: "(bytes \<Rightarrow> bytes) \<Rightarrow> string \<Rightarrow> u32 list \<Rightarrow> bytes" where
  "hash_chunk blake3 model tokens =
     blake3 (str_bytes ''cognitora.v1'' @ [0] @ str_bytes model @ [0] @ u32s_le tokens)"

text \<open>The bytes fed to the hasher for one sequence-chained chunk.\<close>

definition seq_msg :: "string \<Rightarrow> bytes \<Rightarrow> u32 list \<Rightarrow> bytes" where
  "seq_msg model parent tokens =
     str_bytes ''cognitora.seq.v1'' @ [0] @ str_bytes model @ [0] @ parent @ u32s_le tokens"

definition hash_seq_chunk :: "(bytes \<Rightarrow> bytes) \<Rightarrow> string \<Rightarrow> bytes \<Rightarrow> u32 list \<Rightarrow> bytes" where
  "hash_seq_chunk blake3 model parent tokens = blake3 (seq_msg model parent tokens)"

definition hash_chunks :: "(bytes \<Rightarrow> bytes) \<Rightarrow> string \<Rightarrow> u32 list \<Rightarrow> bytes list" where
  "hash_chunks blake3 model tokens =
     (if tokens = [] then []
      else map (hash_chunk blake3 model) (chunks TOKENS_PER_CHUNK tokens))"

text \<open>The loop of \<open>hash_seq_chunks\<close>: \<open>parent\<close> is the loop variable.\<close>

fun hash_seq_loop :: "(bytes \<Rightarrow> bytes) \<Rightarrow> string \<Rightarrow> bytes \<Rightarrow> u32 list list \<Rightarrow> bytes list" where
  "hash_seq_loop blake3 model parent [] = []"
| "hash_seq_loop blake3 model parent (chunk # rest) =
     (let d = hash_seq_chunk blake3 model parent chunk
      in d # hash_seq_loop blake3 model d rest)"

definition zero_digest :: bytes where
  "zero_digest = replicate 32 0"

definition hash_seq_chunks :: "(bytes \<Rightarrow> bytes) \<Rightarrow> string \<Rightarrow> u32 list \<Rightarrow> bytes list" where
  "hash_seq_chunks blake3 model tokens =
     (if tokens = [] then []
      else hash_seq_loop blake3 model zero_digest (chunks TOKENS_PER_CHUNK tokens))"

definition HEX :: string where
  "HEX = ''0123456789abcdef''"

definition hex_byte :: "u8 \<Rightarrow> string" where
  "hex_byte b = [HEX ! unat (drop_bit 4 b), HEX ! unat (b AND 15)]"

definition short :: "bytes \<Rightarrow> string" where
  "short digest = concat (map hex_byte (take 8 digest))"

section \<open>Shape of the digest lists\<close>

lemma length_hash_seq_loop [simp]: "length (hash_seq_loop H m p cs) = length cs"
  by (induction cs arbitrary: p) (auto simp: Let_def)

lemma length_hash_seq_chunks:
  "length (hash_seq_chunks H m tokens) = div_ceil (length tokens) TOKENS_PER_CHUNK"
  by (auto simp: hash_seq_chunks_def length_chunks TOKENS_PER_CHUNK_def)

lemma length_hash_chunks:
  "length (hash_chunks H m tokens) = div_ceil (length tokens) TOKENS_PER_CHUNK"
  by (auto simp: hash_chunks_def length_chunks TOKENS_PER_CHUNK_def)

lemma take_hash_seq_loop: "take k (hash_seq_loop H m p cs) = hash_seq_loop H m p (take k cs)"
proof (induction cs arbitrary: k p)
  case (Cons c cs)
  then show ?case by (cases k) (auto simp: Let_def)
qed simp

lemma hash_seq_chunks_loop:
  "hash_seq_chunks H m tokens = hash_seq_loop H m zero_digest (chunks TOKENS_PER_CHUNK tokens)"
  by (auto simp: hash_seq_chunks_def)

text \<open>Extending a prompt never changes the digests of the chunks it already had.\<close>

lemma take_hash_seq_chunks:
  "take k (hash_seq_chunks H m tokens) = hash_seq_chunks H m (take (k * TOKENS_PER_CHUNK) tokens)"
  by (simp add: hash_seq_chunks_loop take_hash_seq_loop take_chunks TOKENS_PER_CHUNK_def)

section \<open>Chained digests identify prefixes\<close>

text \<open>The digest of a chain is a fold; the messages it hashes are collected alongside.\<close>

definition chain_digest :: "(bytes \<Rightarrow> bytes) \<Rightarrow> string \<Rightarrow> bytes \<Rightarrow> u32 list list \<Rightarrow> bytes" where
  "chain_digest H m p cs = foldl (hash_seq_chunk H m) p cs"

fun chain_msgs :: "(bytes \<Rightarrow> bytes) \<Rightarrow> string \<Rightarrow> bytes \<Rightarrow> u32 list list \<Rightarrow> bytes list" where
  "chain_msgs H m p [] = []"
| "chain_msgs H m p (c # cs) = seq_msg m p c # chain_msgs H m (hash_seq_chunk H m p c) cs"

definition seq_msgs :: "(bytes \<Rightarrow> bytes) \<Rightarrow> string \<Rightarrow> u32 list \<Rightarrow> bytes list" where
  "seq_msgs H m tokens = chain_msgs H m zero_digest (chunks TOKENS_PER_CHUNK tokens)"

definition good_hash_on :: "(bytes \<Rightarrow> bytes) \<Rightarrow> bytes set \<Rightarrow> bool" where
  "good_hash_on H M \<longleftrightarrow> inj_on H M \<and> (\<forall>x \<in> M. length (H x) = 32 \<and> H x \<noteq> zero_digest)"

lemma hash_seq_loop_nth:
  "i < length cs \<Longrightarrow> hash_seq_loop H m p cs ! i = chain_digest H m p (take (Suc i) cs)"
proof (induction cs arbitrary: i p)
  case (Cons c cs)
  then show ?case by (cases i) (auto simp: Let_def chain_digest_def)
qed simp

lemma chain_digest_snoc [simp]:
  "chain_digest H m p (cs @ [c]) = H (seq_msg m (chain_digest H m p cs) c)"
  by (simp add: chain_digest_def hash_seq_chunk_def)

lemma chain_msgs_snoc [simp]:
  "chain_msgs H m p (cs @ [c]) = chain_msgs H m p cs @ [seq_msg m (chain_digest H m p cs) c]"
  by (induction cs arbitrary: p) (auto simp: chain_digest_def)

lemma chain_msgs_take: "set (chain_msgs H m p (take k cs)) \<subseteq> set (chain_msgs H m p cs)"
proof (induction cs arbitrary: k p)
  case (Cons c cs)
  then show ?case by (cases k) fastforce+
qed simp

lemma good_hash_on_subset: "good_hash_on H M \<Longrightarrow> N \<subseteq> M \<Longrightarrow> good_hash_on H N"
  by (auto simp: good_hash_on_def intro: inj_on_subset)

lemma length_chain_digest:
  "good_hash_on H (set (chain_msgs H m zero_digest cs)) \<Longrightarrow> length (chain_digest H m zero_digest cs) = 32"
  by (cases cs rule: rev_cases) (auto simp: chain_digest_def zero_digest_def good_hash_on_def hash_seq_chunk_def)

lemma seq_msg_inject:
  assumes "seq_msg s p c = seq_msg t q d" and "length p = length q"
    and "count_list (str_bytes s) 0 = count_list (str_bytes t) 0"
  shows "s = t \<and> p = q \<and> c = d"
proof -
  from assms(1) have "str_bytes s @ 0 # (p @ u32s_le c) = str_bytes t @ 0 # (q @ u32s_le d)"
    by (simp add: seq_msg_def)
  from append_sep_inject [OF this assms(3)] assms(2) show ?thesis by simp
qed

lemma chain_digest_inject:
  assumes "good_hash_on H (set (chain_msgs H s zero_digest cs) \<union> set (chain_msgs H t zero_digest ds))"
    and "count_list (str_bytes s) 0 = count_list (str_bytes t) 0"
    and "chain_digest H s zero_digest cs = chain_digest H t zero_digest ds" and "cs \<noteq> []"
  shows "s = t \<and> cs = ds"
  using assms
proof (induction cs arbitrary: ds rule: rev_induct)
  case (snoc c cs)
  note good = snoc.prems(1)
  let ?p = "chain_digest H s zero_digest cs"
  have "H (seq_msg s ?p c) \<noteq> zero_digest"
    using good by (auto simp: good_hash_on_def)
  with snoc.prems(3) have "ds \<noteq> []" by (auto simp: chain_digest_def hash_seq_chunk_def)
  then obtain ds' d where ds: "ds = ds' @ [d]" by (cases ds rule: rev_cases) auto
  let ?q = "chain_digest H t zero_digest ds'"
  have eq: "H (seq_msg s ?p c) = H (seq_msg t ?q d)" using snoc.prems(3) ds by simp
  have sub: "good_hash_on H (set (chain_msgs H s zero_digest cs) \<union> set (chain_msgs H t zero_digest ds'))"
    using good ds by (auto elim: good_hash_on_subset)
  then have len: "length ?p = 32" "length ?q = 32"
    by (auto intro!: length_chain_digest elim: good_hash_on_subset)
  have inj: "inj_on H (set (chain_msgs H s zero_digest (cs @ [c])) \<union> set (chain_msgs H t zero_digest ds))"
    using good by (simp add: good_hash_on_def)
  have "seq_msg s ?p c = seq_msg t ?q d"
    by (rule inj_onD [OF inj eq]) (simp_all add: ds)
  with len snoc.prems(2) have st: "s = t" and pq: "?p = ?q" and cd: "c = d"
    by (auto dest: seq_msg_inject)
  show ?case
  proof (cases "cs = []")
    case True
    have "ds' = []"
    proof (rule ccontr)
      assume "ds' \<noteq> []"
      then obtain e es where "ds' = es @ [e]" by (cases ds' rule: rev_cases) auto
      with sub have "?q \<noteq> zero_digest" by (auto simp: good_hash_on_def)
      with pq True show False by (simp add: chain_digest_def)
    qed
    with True st cd ds show ?thesis by simp
  next
    case False
    from snoc.IH [OF sub snoc.prems(2) pq False] cd ds show ?thesis by simp
  qed
qed simp

section \<open>Hex rendering\<close>

lemma unat_lt2p_u8: "unat (b :: u8) < 256"
  using unsigned_less [where w = b and 'a = nat] by simp

lemma unat_low_nibble: "unat (b AND 15 :: u8) = unat b mod 16"
proof -
  have "b AND 15 = take_bit 4 b" by (simp add: take_bit_eq_mask mask_eq_exp_minus_1)
  then show ?thesis by (simp only: unsigned_take_bit_eq) (simp add: take_bit_eq_mod)
qed

lemma unat_high_nibble: "unat (drop_bit 4 b :: u8) = unat b div 16"
  by (simp only: unsigned_drop_bit_eq) (simp add: drop_bit_eq_div take_bit_eq_mod unat_lt2p_u8)

lemma HEX_nth_inject: "i < 16 \<Longrightarrow> j < 16 \<Longrightarrow> HEX ! i = HEX ! j \<longleftrightarrow> i = j"
  by (rule nth_eq_iff_index_eq) (simp_all add: HEX_def)

lemma hex_byte_inject [simp]: "hex_byte a = hex_byte b \<longleftrightarrow> a = b"
proof
  assume eq: "hex_byte a = hex_byte b"
  have "unat x div 16 < 16" for x :: u8
    using unat_lt2p_u8 [of x] by simp
  with eq have "unat a div 16 = unat b div 16" and "unat a mod 16 = unat b mod 16"
    by (simp_all add: hex_byte_def HEX_nth_inject unat_low_nibble unat_high_nibble)
  then have "unat a = unat b" by (metis mult_div_mod_eq)
  then show "a = b" by (simp add: word_unat_eq_iff)
qed simp

lemma length_hex_byte [simp]: "length (hex_byte b) = 2"
  by (simp add: hex_byte_def)

lemma length_hex_bytes: "length (concat (map hex_byte bs)) = 2 * length bs"
  by (induction bs) auto

lemma hex_bytes_inject: "concat (map hex_byte as) = concat (map hex_byte bs) \<longleftrightarrow> as = bs"
proof (induction as arbitrary: bs)
  case Nil
  then show ?case by (cases bs) (auto simp: hex_byte_def)
next
  case (Cons a as)
  show ?case
  proof (cases bs)
    case Nil
    then show ?thesis by (simp add: hex_byte_def)
  next
    case (Cons b bs')
    with Cons.IH [of bs'] show ?thesis by simp
  qed
qed

lemma short_eq_iff: "short d = short e \<longleftrightarrow> take 8 d = take 8 e"
  by (simp add: short_def hex_bytes_inject)

lemma length_short: "length d = 32 \<Longrightarrow> length (short d) = 16"
  by (simp add: short_def length_hex_bytes)

section \<open>Digest lists\<close>

lemma seq_digest_iff:
  assumes good: "good_hash_on H (set (seq_msgs H s xs) \<union> set (seq_msgs H t ys))"
    and salt: "count_list (str_bytes s) 0 = count_list (str_bytes t) 0"
    and i: "i < length (hash_seq_chunks H s xs)" and j: "j < length (hash_seq_chunks H t ys)"
  shows "hash_seq_chunks H s xs ! i = hash_seq_chunks H t ys ! j \<longleftrightarrow>
    s = t \<and> i = j \<and> take (Suc i * TOKENS_PER_CHUNK) xs = take (Suc i * TOKENS_PER_CHUNK) ys"
proof -
  have n: "0 < TOKENS_PER_CHUNK" by (simp add: TOKENS_PER_CHUNK_def)
  let ?cs = "take (Suc i) (chunks TOKENS_PER_CHUNK xs)" and ?ds = "take (Suc j) (chunks TOKENS_PER_CHUNK ys)"
  have i': "i < length (chunks TOKENS_PER_CHUNK xs)" and j': "j < length (chunks TOKENS_PER_CHUNK ys)"
    using i j by (simp_all add: hash_seq_chunks_loop)
  have ne: "?cs \<noteq> []" using i' by auto
  have "hash_seq_chunks H s xs ! i = hash_seq_chunks H t ys ! j \<longleftrightarrow>
      chain_digest H s zero_digest ?cs = chain_digest H t zero_digest ?ds"
    using i' j' by (simp add: hash_seq_chunks_loop hash_seq_loop_nth)
  also have "\<dots> \<longleftrightarrow> s = t \<and> ?cs = ?ds"
  proof
    assume "chain_digest H s zero_digest ?cs = chain_digest H t zero_digest ?ds"
    moreover have "good_hash_on H (set (chain_msgs H s zero_digest ?cs) \<union> set (chain_msgs H t zero_digest ?ds))"
      by (rule good_hash_on_subset [OF good]) (use chain_msgs_take in \<open>fastforce simp: seq_msgs_def\<close>)
    ultimately show "s = t \<and> ?cs = ?ds"
      using ne by (intro chain_digest_inject salt)
  qed simp
  also have "?cs = ?ds \<longleftrightarrow> i = j \<and> take (Suc i * TOKENS_PER_CHUNK) xs = take (Suc i * TOKENS_PER_CHUNK) ys"
  proof (cases "i = j")
    case True
    then show ?thesis by (simp only: take_chunks_inject [OF n] simp_thms)
  next
    case False
    have "length ?cs = Suc i" "length ?ds = Suc j" using i' j' by simp_all
    with False show ?thesis by (metis Suc_inject)
  qed
  finally show ?thesis .
qed

section \<open>Properties\<close>

text \<open>C3: the digest that \<open>hash_seq_chunks\<close> gives chunk \<open>i\<close> identifies the
  salt and the whole prefix up to and including that chunk: two digests, of any two prompts under
  any two salts with the same number of NUL bytes, agree exactly when the salts, the positions and
  the token prefixes agree.\<close>

theorem digest_identifies_prefix:
  assumes good: "good_hash_on H (set (seq_msgs H s xs) \<union> set (seq_msgs H t ys))"
    and salt: "count_list (str_bytes s) 0 = count_list (str_bytes t) 0"
    and i: "i < length (hash_seq_chunks H s xs)" and j: "j < length (hash_seq_chunks H t ys)"
  shows "hash_seq_chunks H s xs ! i = hash_seq_chunks H t ys ! j \<longleftrightarrow>
    s = t \<and> i = j \<and> take (Suc i * TOKENS_PER_CHUNK) xs = take (Suc i * TOKENS_PER_CHUNK) ys"
  by (rule seq_digest_iff [OF assms])

definition toy_hash :: "bytes \<Rightarrow> bytes" where
  "toy_hash bs = take 32 (rev bs @ replicate 32 1)"

theorem digest_identifies_prefix_witness:
  "hash_seq_chunks toy_hash ''m'' (replicate 33 7) ! 1 \<noteq> hash_seq_chunks toy_hash ''m'' (replicate 32 7 @ [8]) ! 1
   \<and> hash_seq_chunks toy_hash ''m'' (replicate 33 7) ! 0 = hash_seq_chunks toy_hash ''m'' (replicate 32 7 @ [8]) ! 0"
proof -
  let ?xs = "replicate 33 7 :: u32 list" and ?ys = "replicate 32 7 @ [8] :: u32 list"
  have good: "good_hash_on toy_hash (set (seq_msgs toy_hash ''m'' ?xs) \<union> set (seq_msgs toy_hash ''m'' ?ys))"
    unfolding good_hash_on_def inj_on_def by code_simp
  have len: "length (hash_seq_chunks toy_hash ''m'' ?xs) = 2" "length (hash_seq_chunks toy_hash ''m'' ?ys) = 2"
    by code_simp+
  have "take (Suc 1 * TOKENS_PER_CHUNK) ?xs \<noteq> take (Suc 1 * TOKENS_PER_CHUNK) ?ys"
    "take (Suc 0 * TOKENS_PER_CHUNK) ?xs = take (Suc 0 * TOKENS_PER_CHUNK) ?ys"
    by code_simp+
  then show ?thesis
    using digest_identifies_prefix [OF good refl, of 1 1] digest_identifies_prefix [OF good refl, of 0 0]
    by (simp add: len del: mult_Suc)
qed

text \<open>extending a prompt never changes the digests of the chunks it already had, so the
  first \<open>k\<close> digests of a prompt are the digests of its first \<open>32 k\<close> tokens; and
  there is one digest per chunk, the last partial one included.\<close>

lemma hash_seq_chunks_stable:
  "take k (hash_seq_chunks H m tokens) = hash_seq_chunks H m (take (k * TOKENS_PER_CHUNK) tokens)
   \<and> length (hash_seq_chunks H m tokens) = div_ceil (length tokens) TOKENS_PER_CHUNK"
  by (simp add: take_hash_seq_chunks length_hash_seq_chunks)

end
