(* ===== verification/Cgn_PrefixIndex.thy ===== *)
theory Cgn_PrefixIndex
  imports Cgn_Hash
begin

text \<open>
  The router's prefix index (\<open>cgn-core/src/prefix.rs\<close>). The concurrent map is a finite
  map from digests to entry lists and each method is one atomic update; \<open>Instant::now()\<close>
  is the argument \<open>now\<close>. The abstract view of an index is the partial map \<open>claim\<close>
  from (digest, node) to the instant of the last confirmation; the locale \<open>claim_store\<close>
  states what each operation does to that view, and the index is shown to implement it.
\<close>

record PrefixNode =
  pn_node_id :: node_id
  pn_last_seen :: instant

record PrefixIndex =
  pi_inner :: "bytes \<rightharpoonup> PrefixNode list"
  pi_ttl :: duration

definition prefix_new :: "duration \<Rightarrow> PrefixIndex" where
  "prefix_new ttl = \<lparr> pi_inner = Map.empty, pi_ttl = ttl \<rparr>"

text \<open>\<open>iter_mut().find(..)\<close> and the assignment, or the push at the end.\<close>

fun touch :: "instant \<Rightarrow> node_id \<Rightarrow> PrefixNode list \<Rightarrow> PrefixNode list" where
  "touch now nid [] = [\<lparr> pn_node_id = nid, pn_last_seen = now \<rparr>]"
| "touch now nid (e # v) =
     (if pn_node_id e = nid then e\<lparr> pn_last_seen := now \<rparr> # v else e # touch now nid v)"

definition entries :: "PrefixIndex \<Rightarrow> bytes \<Rightarrow> PrefixNode list" where
  "entries idx d = (case pi_inner idx d of None \<Rightarrow> [] | Some v \<Rightarrow> v)"

definition prefix_insert :: "instant \<Rightarrow> bytes \<Rightarrow> node_id \<Rightarrow> PrefixIndex \<Rightarrow> PrefixIndex" where
  "prefix_insert now digest nid idx =
     idx\<lparr> pi_inner := (pi_inner idx)(digest \<mapsto> touch now nid (entries idx digest)) \<rparr>"

fun insert_many :: "instant \<Rightarrow> bytes list \<Rightarrow> node_id \<Rightarrow> PrefixIndex \<Rightarrow> PrefixIndex" where
  "insert_many now [] nid idx = idx"
| "insert_many now (d # ds) nid idx = insert_many now ds nid (prefix_insert now d nid idx)"

text \<open>\<open>remove_if\<close> on one key, and \<open>retain\<close> over the whole map.\<close>

definition drop_empty :: "'v list option \<Rightarrow> 'v list option" where
  "drop_empty o1 = (case o1 of Some [] \<Rightarrow> None | _ \<Rightarrow> o1)"

definition forget_claim :: "bytes \<Rightarrow> node_id \<Rightarrow> PrefixIndex \<Rightarrow> PrefixIndex" where
  "forget_claim digest nid idx =
     (let m = (pi_inner idx)
                (digest := map_option (filter (\<lambda>n. pn_node_id n \<noteq> nid)) (pi_inner idx digest))
      in idx\<lparr> pi_inner := m(digest := drop_empty (m digest)) \<rparr>)"

definition retain_nodes :: "(PrefixNode \<Rightarrow> bool) \<Rightarrow> PrefixIndex \<Rightarrow> PrefixIndex" where
  "retain_nodes keep idx =
     (let m = (\<lambda>d. map_option (filter keep) (pi_inner idx d))
      in idx\<lparr> pi_inner := (\<lambda>d. drop_empty (m d)) \<rparr>)"

definition forget_node :: "node_id \<Rightarrow> PrefixIndex \<Rightarrow> PrefixIndex" where
  "forget_node nid idx = retain_nodes (\<lambda>n. pn_node_id n \<noteq> nid) idx"

definition forget_node_stale :: "instant \<Rightarrow> node_id \<Rightarrow> duration \<Rightarrow> PrefixIndex \<Rightarrow> PrefixIndex" where
  "forget_node_stale now nid older_than idx =
     retain_nodes (\<lambda>n. pn_node_id n \<noteq> nid \<or> now - pn_last_seen n < older_than) idx"

definition prefix_gc :: "instant \<Rightarrow> PrefixIndex \<Rightarrow> PrefixIndex" where
  "prefix_gc now idx = retain_nodes (\<lambda>n. now - pn_last_seen n < pi_ttl idx) idx"

definition prefix_lookup :: "instant \<Rightarrow> PrefixIndex \<Rightarrow> bytes \<Rightarrow> node_id list" where
  "prefix_lookup now idx digest =
     (case pi_inner idx digest of
        None \<Rightarrow> []
      | Some g \<Rightarrow> map pn_node_id (filter (\<lambda>n. now - pn_last_seen n < pi_ttl idx) g))"

definition bump_count :: "PrefixNode \<Rightarrow> (node_id \<rightharpoonup> nat) \<Rightarrow> (node_id \<rightharpoonup> nat)" where
  "bump_count n out =
     out(pn_node_id n \<mapsto> (case out (pn_node_id n) of None \<Rightarrow> 0 | Some c \<Rightarrow> c) + 1)"

fun overlap_loop :: "instant \<Rightarrow> PrefixIndex \<Rightarrow> bytes list \<Rightarrow> (node_id \<rightharpoonup> nat) \<Rightarrow> (node_id \<rightharpoonup> nat)" where
  "overlap_loop now idx [] out = out"
| "overlap_loop now idx (d # ds) out =
     overlap_loop now idx ds
       (case pi_inner idx d of
          None \<Rightarrow> out
        | Some g \<Rightarrow> fold (\<lambda>n out. if now - pn_last_seen n < pi_ttl idx then bump_count n out else out) g out)"

definition overlap :: "instant \<Rightarrow> PrefixIndex \<Rightarrow> bytes list \<Rightarrow> (node_id \<rightharpoonup> nat)" where
  "overlap now idx digests = overlap_loop now idx digests Map.empty"

text \<open>\<open>for n in active { out.insert(n, k) }\<close>.\<close>

definition insert_all :: "node_id set \<Rightarrow> nat \<Rightarrow> (node_id \<rightharpoonup> nat) \<Rightarrow> (node_id \<rightharpoonup> nat)" where
  "insert_all active k out = (\<lambda>n. if n \<in> active then Some k else out n)"

fun lpo_walk :: "instant \<Rightarrow> PrefixIndex \<Rightarrow> nat \<Rightarrow> bytes list \<Rightarrow> node_id set \<Rightarrow> (node_id \<rightharpoonup> nat) \<Rightarrow> (node_id \<rightharpoonup> nat)" where
  "lpo_walk now idx i [] active out = out"
| "lpo_walk now idx i (d # ds) active out =
     (if active = {} then out
      else let holders = set (prefix_lookup now idx d);
               active' = {n \<in> active. n \<in> holders}
           in lpo_walk now idx (i + 1) ds active' (insert_all active' (i + 1) out))"

definition longest_prefix_overlap :: "instant \<Rightarrow> PrefixIndex \<Rightarrow> bytes list \<Rightarrow> (node_id \<rightharpoonup> nat)" where
  "longest_prefix_overlap now idx digests =
     (case digests of
        [] \<Rightarrow> Map.empty
      | d0 # rest \<Rightarrow>
          (case pi_inner idx d0 of
             None \<Rightarrow> Map.empty
           | Some first \<Rightarrow>
               let active = set (map pn_node_id (filter (\<lambda>n. now - pn_last_seen n < pi_ttl idx) first))
               in lpo_walk now idx 1 rest active (insert_all active 1 Map.empty)))"

definition prefix_len :: "PrefixIndex \<Rightarrow> nat" where
  "prefix_len idx = card (dom (pi_inner idx))"

definition prefix_is_empty :: "PrefixIndex \<Rightarrow> bool" where
  "prefix_is_empty idx \<longleftrightarrow> pi_inner idx = Map.empty"

section \<open>Invariant and abstract view\<close>

definition index_wf :: "PrefixIndex \<Rightarrow> bool" where
  "index_wf idx \<longleftrightarrow> finite (dom (pi_inner idx)) \<and>
     (\<forall>d v. pi_inner idx d = Some v \<longrightarrow> v \<noteq> [] \<and> distinct (map pn_node_id v))"

fun seen_at :: "node_id \<Rightarrow> PrefixNode list \<Rightarrow> instant option" where
  "seen_at nid [] = None"
| "seen_at nid (e # v) = (if pn_node_id e = nid then Some (pn_last_seen e) else seen_at nid v)"

definition claim :: "PrefixIndex \<Rightarrow> bytes \<times> node_id \<rightharpoonup> instant" where
  "claim idx = (\<lambda>(d, nid). seen_at nid (entries idx d))"

definition live :: "instant \<Rightarrow> PrefixIndex \<Rightarrow> bytes \<Rightarrow> node_id \<Rightarrow> bool" where
  "live now idx d nid \<longleftrightarrow> (case claim idx (d, nid) of None \<Rightarrow> False | Some t \<Rightarrow> now - t < pi_ttl idx)"

lemma seen_at_None: "seen_at nid v = None \<longleftrightarrow> nid \<notin> pn_node_id ` set v"
  by (induction v) auto

lemma seen_at_touch: "seen_at n (touch now nid v) = (if n = nid then Some now else seen_at n v)"
  by (induction v) auto

lemma node_ids_touch:
  "map pn_node_id (touch now nid v) =
     (if nid \<in> pn_node_id ` set v then map pn_node_id v else map pn_node_id v @ [nid])"
  by (induction v) auto

lemma touch_not_Nil [simp]: "touch now nid v \<noteq> []"
  by (cases v) auto

lemma seen_at_filter:
  "distinct (map pn_node_id v) \<Longrightarrow>
   seen_at n (filter keep v) =
     (case seen_at n v of None \<Rightarrow> None
      | Some t \<Rightarrow> if keep \<lparr> pn_node_id = n, pn_last_seen = t \<rparr> then Some t else None)"
proof (induction v)
  case (Cons e v)
  show ?case
  proof (cases "pn_node_id e = n")
    case True
    with Cons.prems have "seen_at n v = None" by (simp add: seen_at_None)
    with True Cons show ?thesis by (cases e) auto
  next
    case False
    with Cons show ?thesis by simp
  qed
qed simp

lemma distinct_map_filter_ids: "distinct (map f v) \<Longrightarrow> distinct (map f (filter keep v))"
  by (induction v) auto

lemma drop_empty_simps [simp]:
  "drop_empty None = None" "drop_empty (Some []) = None" "drop_empty (Some (e # v)) = Some (e # v)"
  by (simp_all add: drop_empty_def)

lemma drop_empty_SomeD: "drop_empty o1 = Some v \<Longrightarrow> o1 = Some v \<and> v \<noteq> []"
  by (auto simp: drop_empty_def split: option.splits list.splits)

lemma entries_drop_empty: "(case drop_empty o1 of None \<Rightarrow> [] | Some v \<Rightarrow> v) = (case o1 of None \<Rightarrow> [] | Some v \<Rightarrow> v)"
  by (auto simp: drop_empty_def split: option.splits list.splits)

lemma ttl_preserved [simp]:
  "pi_ttl (prefix_insert now d nid idx) = pi_ttl idx"
  "pi_ttl (forget_claim d nid idx) = pi_ttl idx"
  "pi_ttl (retain_nodes keep idx) = pi_ttl idx"
  "pi_ttl (forget_node nid idx) = pi_ttl idx"
  "pi_ttl (forget_node_stale now nid old idx) = pi_ttl idx"
  "pi_ttl (prefix_gc now idx) = pi_ttl idx"
  by (simp_all add: prefix_insert_def forget_claim_def retain_nodes_def forget_node_def
      forget_node_stale_def prefix_gc_def Let_def)

lemma entries_distinct: "index_wf idx \<Longrightarrow> distinct (map pn_node_id (entries idx d))"
  by (auto simp: index_wf_def entries_def split: option.splits)

lemma entries_retain [simp]: "entries (retain_nodes keep idx) d = filter keep (entries idx d)"
  by (simp add: entries_def retain_nodes_def Let_def entries_drop_empty) (simp split: option.splits)

lemma entries_insert [simp]:
  "entries (prefix_insert now d nid idx) d' = (if d' = d then touch now nid (entries idx d) else entries idx d')"
  by (simp add: entries_def prefix_insert_def)

lemma entries_forget_claim [simp]:
  "entries (forget_claim d nid idx) d' =
     (if d' = d then filter (\<lambda>n. pn_node_id n \<noteq> nid) (entries idx d) else entries idx d')"
  by (simp add: entries_def forget_claim_def Let_def entries_drop_empty) (simp split: option.splits)

lemma index_wf_new: "index_wf (prefix_new ttl)"
  by (simp add: index_wf_def prefix_new_def)

lemma index_wf_insert: "index_wf idx \<Longrightarrow> index_wf (prefix_insert now d nid idx)"
  using entries_distinct [of idx d]
  by (auto simp: index_wf_def prefix_insert_def node_ids_touch split: if_splits)

lemma index_wf_forget_claim: "index_wf idx \<Longrightarrow> index_wf (forget_claim d nid idx)"
  unfolding index_wf_def forget_claim_def Let_def
  by (auto dest!: drop_empty_SomeD intro: distinct_map_filter_ids split: if_splits
      elim!: rev_finite_subset [OF _ subsetI])

lemma index_wf_retain:
  assumes "index_wf idx"
  shows "index_wf (retain_nodes keep idx)"
proof -
  have "dom (pi_inner (retain_nodes keep idx)) \<subseteq> dom (pi_inner idx)"
    by (auto simp: retain_nodes_def Let_def dest!: drop_empty_SomeD)
  then show ?thesis using assms
    by (auto simp: index_wf_def retain_nodes_def Let_def dest!: drop_empty_SomeD
        intro: distinct_map_filter_ids finite_subset)
qed


section \<open>What the index promises\<close>

text \<open>
  The interface the router relies on: an index is, up to its invariant, a partial map from
  (digest, node) to the instant of the last confirmation, and every operation is a pointwise
  update of that map.
\<close>

locale claim_store =
  fixes ok :: "'i \<Rightarrow> bool"
    and view :: "'i \<Rightarrow> (bytes \<times> node_id) \<rightharpoonup> instant"
    and ins :: "instant \<Rightarrow> bytes \<Rightarrow> node_id \<Rightarrow> 'i \<Rightarrow> 'i"
    and del :: "bytes \<Rightarrow> node_id \<Rightarrow> 'i \<Rightarrow> 'i"
    and del_node :: "node_id \<Rightarrow> 'i \<Rightarrow> 'i"
    and del_stale :: "instant \<Rightarrow> node_id \<Rightarrow> duration \<Rightarrow> 'i \<Rightarrow> 'i"
  assumes ins_ok: "ok i \<Longrightarrow> ok (ins now d n i)"
    and ins_view: "ok i \<Longrightarrow> view (ins now d n i) = (view i)((d, n) \<mapsto> now)"
    and del_ok: "ok i \<Longrightarrow> ok (del d n i)"
    and del_view: "ok i \<Longrightarrow> view (del d n i) = (view i)((d, n) := None)"
    and del_node_ok: "ok i \<Longrightarrow> ok (del_node n i)"
    and del_node_view: "ok i \<Longrightarrow> view (del_node n i) = (\<lambda>(d, n'). if n' = n then None else view i (d, n'))"
    and del_stale_ok: "ok i \<Longrightarrow> ok (del_stale now n old i)"
    and del_stale_view: "ok i \<Longrightarrow> view (del_stale now n old i) =
          (\<lambda>(d, n'). case view i (d, n') of None \<Rightarrow> None
             | Some t \<Rightarrow> if n' \<noteq> n \<or> now - t < old then Some t else None)"
begin

definition ins_all :: "instant \<Rightarrow> bytes list \<Rightarrow> node_id \<Rightarrow> 'i \<Rightarrow> 'i" where
  "ins_all now ds n i = fold (\<lambda>d. ins now d n) ds i"

lemma ins_all_ok: "ok i \<Longrightarrow> ok (ins_all now ds n i)"
  unfolding ins_all_def by (induction ds arbitrary: i) (auto intro: ins_ok)

lemma ins_all_view:
  "ok i \<Longrightarrow> view (ins_all now ds n i) (d, n') =
     (if n' = n \<and> d \<in> set ds then Some now else view i (d, n'))"
  unfolding ins_all_def by (induction ds arbitrary: i) (auto simp: ins_ok ins_view)

text \<open>Confirming a chain and then reporting an eviction keeps exactly the other claims.\<close>

lemma del_ins_all_view:
  "ok i \<Longrightarrow> view (del d0 n (ins_all now ds n i)) (d, n') =
     (if n' = n \<and> d = d0 then None
      else if n' = n \<and> d \<in> set ds then Some now else view i (d, n'))"
  by (auto simp: del_view ins_all_ok ins_all_view)

text \<open>A cache-epoch bump handled by \<open>del_stale\<close> spares what was confirmed just now.\<close>

lemma del_stale_fresh:
  "ok i \<Longrightarrow> 0 < old \<Longrightarrow> d \<in> set ds \<Longrightarrow> view (del_stale now n old (ins_all now ds n i)) (d, n) = Some now"
  by (simp add: del_stale_view ins_all_ok ins_all_view)

end

lemma claim_retain:
  "index_wf idx \<Longrightarrow> claim (retain_nodes keep idx) (d, n) =
     (case claim idx (d, n) of None \<Rightarrow> None
      | Some t \<Rightarrow> if keep \<lparr> pn_node_id = n, pn_last_seen = t \<rparr> then Some t else None)"
  by (simp add: claim_def seen_at_filter entries_distinct)

lemma claim_insert: "claim (prefix_insert now d n idx) = (claim idx)((d, n) \<mapsto> now)"
  by (auto simp: claim_def seen_at_touch)

lemma claim_forget_claim:
  "index_wf idx \<Longrightarrow> claim (forget_claim d n idx) = (claim idx)((d, n) := None)"
  by (rule ext) (simp add: claim_def seen_at_filter entries_distinct split: option.splits prod.splits if_splits)

interpretation pidx: claim_store index_wf claim prefix_insert forget_claim forget_node forget_node_stale
proof
  fix i :: PrefixIndex and now d n old
  assume wf: "index_wf i"
  show "index_wf (prefix_insert now d n i)" by (rule index_wf_insert [OF wf])
  show "claim (prefix_insert now d n i) = (claim i)((d, n) \<mapsto> now)" by (rule claim_insert)
  show "index_wf (forget_claim d n i)" by (rule index_wf_forget_claim [OF wf])
  show "claim (forget_claim d n i) = (claim i)((d, n) := None)" by (rule claim_forget_claim [OF wf])
  show "index_wf (forget_node n i)" "index_wf (forget_node_stale now n old i)"
    using wf by (simp_all add: forget_node_def forget_node_stale_def index_wf_retain)
  show "claim (forget_node n i) = (\<lambda>(d, n'). if n' = n then None else claim i (d, n'))"
    using wf by (auto simp: forget_node_def claim_retain split: option.splits)
  show "claim (forget_node_stale now n old i) =
          (\<lambda>(d, n'). case claim i (d, n') of None \<Rightarrow> None
             | Some t \<Rightarrow> if n' \<noteq> n \<or> now - t < old then Some t else None)"
    using wf by (auto simp: forget_node_stale_def claim_retain split: option.splits)
qed

lemma insert_many_ins_all: "insert_many now ds n idx = pidx.ins_all now ds n idx"
  unfolding pidx.ins_all_def by (induction ds arbitrary: idx) auto

lemma index_wf_insert_many: "index_wf idx \<Longrightarrow> index_wf (insert_many now ds n idx)"
  by (simp add: insert_many_ins_all pidx.ins_all_ok)

lemma ttl_insert_many [simp]: "pi_ttl (insert_many now ds n idx) = pi_ttl idx"
  by (induction ds arbitrary: idx) auto

section \<open>Lookups\<close>

lemma set_lookup:
  assumes "index_wf idx"
  shows "nid \<in> set (prefix_lookup now idx d) \<longleftrightarrow> live now idx d nid"
proof -
  have lk: "prefix_lookup now idx d = map pn_node_id (filter (\<lambda>n. now - pn_last_seen n < pi_ttl idx) (entries idx d))"
    by (simp add: prefix_lookup_def entries_def split: option.splits)
  have "nid \<in> set (prefix_lookup now idx d) \<longleftrightarrow>
      seen_at nid (filter (\<lambda>n. now - pn_last_seen n < pi_ttl idx) (entries idx d)) \<noteq> None"
    unfolding seen_at_None by (auto simp: lk)
  then show ?thesis
    using entries_distinct [OF assms, of d]
    by (auto simp: seen_at_filter live_def claim_def split: option.splits)
qed

lemma claim_new [simp]: "claim (prefix_new ttl) = Map.empty"
  by (rule ext) (auto simp: claim_def entries_def prefix_new_def)

lemma live_new [simp]: "\<not> live now (prefix_new ttl) d n"
  by (simp add: live_def claim_def entries_def prefix_new_def)

lemma distinct_lookup: "index_wf idx \<Longrightarrow> distinct (prefix_lookup now idx d)"
  by (auto simp: index_wf_def prefix_lookup_def distinct_map_filter_ids split: option.splits)

lemma live_insert_many:
  "index_wf idx \<Longrightarrow> live now (insert_many t ds n idx) d n' \<longleftrightarrow>
     (if n' = n \<and> d \<in> set ds then now - t < pi_ttl idx else live now idx d n')"
  using pidx.ins_all_view [of idx t ds n d n']
  by (simp add: live_def flip: insert_many_ins_all split: option.splits)

text \<open>Collecting garbage is invisible to every reader, now and later.\<close>

lemma live_gc:
  assumes "index_wf idx" and "now \<le> later"
  shows "live later (prefix_gc now idx) d n \<longleftrightarrow> live later idx d n"
  using assms by (auto simp: live_def prefix_gc_def claim_retain split: option.splits)

section \<open>Longest cached prefix\<close>

lemma lpo_walk_spec:
  assumes "\<forall>n \<in> active. out n = Some i"
  shows "lpo_walk now idx i ds active out n =
     (if n \<in> active
      then Some (i + length (takeWhile (\<lambda>d. n \<in> set (prefix_lookup now idx d)) ds)) else out n)"
  using assms
proof (induction now idx i ds active out rule: lpo_walk.induct)
  case (2 now idx i d ds active out)
  show ?case
  proof (cases "active = {}")
    case False
    let ?act = "{n \<in> active. n \<in> set (prefix_lookup now idx d)}"
    have "lpo_walk now idx (i + 1) ds ?act (insert_all ?act (i + 1) out) n =
        (if n \<in> ?act
         then Some (i + 1 + length (takeWhile (\<lambda>d. n \<in> set (prefix_lookup now idx d)) ds))
         else insert_all ?act (i + 1) out n)"
      by (rule "2.IH" [OF False refl refl]) (simp add: insert_all_def)
    with False "2.prems" show ?thesis by (auto simp: insert_all_def Let_def)
  qed simp
qed simp

lemma lpo_lookup:
  "longest_prefix_overlap now idx ds n =
     (let k = length (takeWhile (\<lambda>d. n \<in> set (prefix_lookup now idx d)) ds)
      in if k = 0 then None else Some k)"
proof (cases ds)
  case (Cons d0 rest)
  show ?thesis
  proof (cases "pi_inner idx d0")
    case None
    with Cons show ?thesis by (simp add: longest_prefix_overlap_def prefix_lookup_def)
  next
    case (Some v)
    let ?act = "set (prefix_lookup now idx d0)"
    have "longest_prefix_overlap now idx ds n = lpo_walk now idx 1 rest ?act (insert_all ?act 1 Map.empty) n"
      using Some Cons by (simp add: longest_prefix_overlap_def prefix_lookup_def Let_def)
    also have "\<dots> = (if n \<in> ?act
        then Some (1 + length (takeWhile (\<lambda>d. n \<in> set (prefix_lookup now idx d)) rest))
        else insert_all ?act 1 Map.empty n)"
      by (rule lpo_walk_spec) (simp add: insert_all_def)
    finally show ?thesis using Cons by (simp add: insert_all_def)
  qed
qed (simp add: longest_prefix_overlap_def)

lemma lpo_spec:
  "index_wf idx \<Longrightarrow> longest_prefix_overlap now idx ds n =
     (let k = length (takeWhile (\<lambda>d. live now idx d n) ds) in if k = 0 then None else Some k)"
  by (simp add: lpo_lookup set_lookup)

section \<open>Content overlap\<close>

lemma bump_fold:
  "fold (\<lambda>n out. if P n then bump_count n out else out) g out nid =
     (let k = length (filter (\<lambda>n. P n \<and> pn_node_id n = nid) g)
      in if k = 0 then out nid else Some ((case out nid of None \<Rightarrow> 0 | Some c \<Rightarrow> c) + k))"
proof (induction g arbitrary: out)
  case (Cons e g)
  then show ?case by (auto simp: bump_count_def Let_def split: option.splits)
qed simp

lemma filter_one:
  "distinct (map f g) \<Longrightarrow> length (filter (\<lambda>x. P x \<and> f x = y) g) = (if y \<in> f ` {x \<in> set g. P x} then 1 else 0)"
proof (induction g)
  case (Cons e g)
  then have notin: "f e \<notin> f ` set g" by simp
  have "filter (\<lambda>x. P x \<and> f x = f e) g = []"
  proof (rule filter_False, rule)
    fix x assume "x \<in> set g"
    then have "f x \<in> f ` set g" by (rule imageI)
    with notin show "\<not> (P x \<and> f x = f e)" by auto
  qed
  with Cons show ?case by auto
qed simp

lemma overlap_loop_spec:
  assumes "index_wf idx"
  shows "overlap_loop now idx ds out n =
     (let k = length (filter (\<lambda>d. live now idx d n) ds)
      in if k = 0 then out n else Some ((case out n of None \<Rightarrow> 0 | Some c \<Rightarrow> c) + k))"
proof (induction ds arbitrary: out)
  case (Cons d ds)
  let ?out = "case pi_inner idx d of None \<Rightarrow> out
     | Some g \<Rightarrow> fold (\<lambda>n out. if now - pn_last_seen n < pi_ttl idx then bump_count n out else out) g out"
  have "?out n = (if n \<in> set (prefix_lookup now idx d)
      then Some ((case out n of None \<Rightarrow> 0 | Some c \<Rightarrow> c) + 1) else out n)"
  proof (cases "pi_inner idx d")
    case (Some g)
    with assms have "distinct (map pn_node_id g)" by (auto simp: index_wf_def)
    from filter_one [OF this] Some show ?thesis
      by (auto simp: prefix_lookup_def bump_fold Let_def)
  qed (simp add: prefix_lookup_def)
  then show ?case using Cons.IH [of ?out] set_lookup [OF assms]
    by (simp add: Let_def)
qed simp

lemma overlap_spec:
  "index_wf idx \<Longrightarrow> overlap now idx ds n =
     (let k = length (filter (\<lambda>d. live now idx d n) ds) in if k = 0 then None else Some k)"
  by (simp add: overlap_def overlap_loop_spec)

lemma prefix_is_empty_len: "index_wf idx \<Longrightarrow> prefix_is_empty idx \<longleftrightarrow> prefix_len idx = 0"
  by (simp add: prefix_is_empty_def prefix_len_def index_wf_def)

section \<open>Properties\<close>

text \<open>C4: for a well-formed index, \<open>longest_prefix_overlap\<close> maps each node to the
  number of leading digests it holds an unexpired claim for, without a gap, and has no entry for
  a node that does not hold the first one.\<close>

theorem longest_prefix_overlap_correct:
  assumes "index_wf idx"
  shows "longest_prefix_overlap now idx ds n =
    (let k = length (takeWhile (\<lambda>d. live now idx d n) ds) in if k = 0 then None else Some k)"
  by (rule lpo_spec [OF assms])

theorem longest_prefix_overlap_correct_witness:
  "longest_prefix_overlap 5 (insert_many 0 [[1], [2], [4]] ''a'' (prefix_new 10)) [[1], [2], [3], [4]] ''a'' = Some 2"
  using longest_prefix_overlap_correct [OF index_wf_insert_many [OF index_wf_new],
      of 5 0 "[[1], [2], [4]]" "''a''" 10 "[[1], [2], [3], [4]]" "''a''"]
  by (simp add: live_insert_many index_wf_new prefix_new_def [THEN arg_cong [of _ _ pi_ttl]] del: insert_many.simps)

text \<open>C5: every mutating operation of the index is the stated pointwise update of the claim map
  from (digest, node) to the last confirmation, and keeps the index well-formed: entry lists stay
  non-empty and name a node at most once.\<close>

theorem prefix_index_refines_claims:
  assumes "index_wf idx"
  shows "(index_wf (prefix_insert now d n idx) \<and> claim (prefix_insert now d n idx) = (claim idx)((d, n) \<mapsto> now))
    \<and> (index_wf (forget_claim d n idx) \<and> claim (forget_claim d n idx) = (claim idx)((d, n) := None))
    \<and> (index_wf (forget_node n idx) \<and>
         claim (forget_node n idx) = (\<lambda>(d', n'). if n' = n then None else claim idx (d', n')))
    \<and> (index_wf (forget_node_stale now n old idx) \<and>
         claim (forget_node_stale now n old idx) = (\<lambda>(d', n').
           case claim idx (d', n') of None \<Rightarrow> None
           | Some t \<Rightarrow> if n' \<noteq> n \<or> now - t < old then Some t else None))
    \<and> (index_wf (prefix_gc now idx) \<and>
         claim (prefix_gc now idx) = (\<lambda>(d', n').
           case claim idx (d', n') of None \<Rightarrow> None | Some t \<Rightarrow> if now - t < pi_ttl idx then Some t else None))"
proof -
  have "claim (prefix_gc now idx) = (\<lambda>(d', n').
      case claim idx (d', n') of None \<Rightarrow> None | Some t \<Rightarrow> if now - t < pi_ttl idx then Some t else None)"
    using assms by (auto simp: prefix_gc_def claim_retain split: option.splits)
  moreover have "index_wf (prefix_gc now idx)" using assms by (simp add: prefix_gc_def index_wf_retain)
  ultimately show ?thesis
    using pidx.ins_ok pidx.ins_view pidx.del_ok pidx.del_view pidx.del_node_ok pidx.del_node_view
      pidx.del_stale_ok pidx.del_stale_view assms by presburger
qed

theorem prefix_index_refines_claims_witness:
  "claim (forget_node_stale 9 ''a'' 5 (prefix_insert 1 [7] ''a'' (prefix_new 10))) ([7], ''a'') = None"
  using prefix_index_refines_claims [OF index_wf_insert [OF index_wf_new [of 10]], of 9 _ "''a''" 1 "[7]" "''a''" 5]
  by (simp add: claim_insert)

text \<open>C8: garbage collection is invisible: at the time it runs and at any later time a lookup,
  the content overlap and the longest-prefix overlap give the same answer as without it.\<close>

theorem prefix_gc_invisible:
  assumes "index_wf idx" and "now \<le> later"
  shows "set (prefix_lookup later (prefix_gc now idx) d) = set (prefix_lookup later idx d)
    \<and> overlap later (prefix_gc now idx) ds = overlap later idx ds
    \<and> longest_prefix_overlap later (prefix_gc now idx) ds = longest_prefix_overlap later idx ds"
proof -
  have wf: "index_wf (prefix_gc now idx)"
    using assms(1) by (simp add: prefix_gc_def index_wf_retain)
  show ?thesis
    by (auto simp: set_lookup wf assms live_gc overlap_spec lpo_spec fun_eq_iff)
qed

theorem prefix_gc_invisible_witness:
  "overlap 8 (prefix_gc 6 (insert_many 0 [[1], [2]] ''a'' (prefix_new 10))) [[1], [3], [2]] ''a'' = Some 2"
  using prefix_gc_invisible [OF index_wf_insert_many [OF index_wf_new], of 6 8 0 "[[1], [2]]" "''a''" 10
      "[1]" "[[1], [3], [2]]"]
  by (simp add: overlap_spec index_wf_insert_many index_wf_new live_insert_many
      prefix_new_def [THEN arg_cong [of _ _ pi_ttl]] del: insert_many.simps)

end
