(* ===== verification/Cgn_KvPool.thy ===== *)
theory Cgn_KvPool
  imports Cgn_Prelude
begin

text \<open>
  KV accounting of the inference engine (\<open>cgn-infer/src/kv/mod.rs\<close>): the block-hash chain
  with the prefix cache of the sequential engine, and the paged block pool of the
  continuous-batching scheduler. The pool's contract is the locale \<open>block_pool\<close>, which
  the scheduler's proofs use through its interpretation on \<open>reserve\<close> and
  \<open>release\<close>.
\<close>

section \<open>Block hashes and the prefix cache\<close>

definition BLOCK_TOKENS :: nat where
  "BLOCK_TOKENS = 16"

definition block_msg :: "bytes option \<Rightarrow> u32 list \<Rightarrow> bytes" where
  "block_msg parent tokens = (case parent of None \<Rightarrow> [] | Some p \<Rightarrow> p) @ u32s_le tokens"

definition hash_block :: "(bytes \<Rightarrow> bytes) \<Rightarrow> bytes option \<Rightarrow> u32 list \<Rightarrow> bytes" where
  "hash_block blake3 parent tokens = blake3 (block_msg parent tokens)"

text \<open>\<open>chunks_exact\<close>: the whole pieces only.\<close>

definition chunks_exact :: "nat \<Rightarrow> 'a list \<Rightarrow> 'a list list" where
  "chunks_exact n xs = chunks n (take (length xs div n * n) xs)"

fun block_hash_loop :: "(bytes \<Rightarrow> bytes) \<Rightarrow> bytes option \<Rightarrow> u32 list list \<Rightarrow> bytes list" where
  "block_hash_loop blake3 parent [] = []"
| "block_hash_loop blake3 parent (chunk # rest) =
     (let h = hash_block blake3 parent chunk in h # block_hash_loop blake3 (Some h) rest)"

definition block_hashes :: "(bytes \<Rightarrow> bytes) \<Rightarrow> u32 list \<Rightarrow> bytes list" where
  "block_hashes blake3 tokens = block_hash_loop blake3 None (chunks_exact BLOCK_TOKENS tokens)"

record PrefixCache =
  pc_resident :: "bytes \<rightharpoonup> nat"
  pc_cached_tokens :: nat

record PrefixMatch =
  pm_tokens :: nat
  pm_blocks :: nat

definition prefix_cache_new :: PrefixCache where
  "prefix_cache_new = \<lparr> pc_resident = Map.empty, pc_cached_tokens = 0 \<rparr>"

fun match_loop :: "(bytes \<rightharpoonup> nat) \<Rightarrow> nat \<Rightarrow> bytes list \<Rightarrow> nat" where
  "match_loop resident i [] = i"
| "match_loop resident i (h # hs) =
     (if resident h = Some (i + 1) then match_loop resident (i + 1) hs else i)"

definition match_prefix :: "(bytes \<Rightarrow> bytes) \<Rightarrow> PrefixCache \<Rightarrow> u32 list \<Rightarrow> PrefixMatch" where
  "match_prefix blake3 c prompt =
     (let blocks = match_loop (pc_resident c) 0 (block_hashes blake3 prompt)
      in \<lparr> pm_tokens = blocks * BLOCK_TOKENS, pm_blocks = blocks \<rparr>)"

fun record_loop :: "nat \<Rightarrow> bytes list \<Rightarrow> (bytes \<rightharpoonup> nat) \<Rightarrow> (bytes \<rightharpoonup> nat)" where
  "record_loop i [] resident = resident"
| "record_loop i (h # hs) resident = record_loop (i + 1) hs (resident(h \<mapsto> i + 1))"

definition record_tokens :: "(bytes \<Rightarrow> bytes) \<Rightarrow> u32 list \<Rightarrow> PrefixCache \<Rightarrow> PrefixCache" where
  "record_tokens blake3 tokens c =
     \<lparr> pc_resident = record_loop 0 (block_hashes blake3 tokens) Map.empty,
       pc_cached_tokens = length tokens \<rparr>"

definition prefix_cache_clear :: "PrefixCache \<Rightarrow> PrefixCache" where
  "prefix_cache_clear c = c\<lparr> pc_resident := Map.empty, pc_cached_tokens := 0 \<rparr>"

section \<open>The block pool\<close>

text \<open>Sequence ids are a \<open>u64\<close> counter that starts at 1 and is never reused; it is a
  natural number here (a wrap needs \<open>2 ^ 64\<close> requests).\<close>

type_synonym seq_id = nat

record KvPool =
  total_blocks :: nat
  used_blocks :: nat
  held :: "seq_id \<rightharpoonup> nat"

definition kvpool_new :: "nat \<Rightarrow> KvPool" where
  "kvpool_new n = \<lparr> total_blocks = n, used_blocks = 0, held = Map.empty \<rparr>"

definition blocks_for :: "nat \<Rightarrow> nat" where
  "blocks_for tokens = div_ceil tokens BLOCK_TOKENS"

definition free_blocks :: "KvPool \<Rightarrow> nat" where
  "free_blocks p = total_blocks p - used_blocks p"

definition held_by :: "KvPool \<Rightarrow> seq_id \<Rightarrow> nat" where
  "held_by p seq = (case held p seq of None \<Rightarrow> 0 | Some b \<Rightarrow> b)"

definition reserve :: "seq_id \<Rightarrow> nat \<Rightarrow> KvPool \<Rightarrow> bool \<times> KvPool" where
  "reserve seq tokens p =
     (let want = blocks_for tokens; have = held_by p seq
      in if want \<le> have then (True, p)
         else let extra = want - have
              in if extra > free_blocks p then (False, p)
                 else (True, p\<lparr> used_blocks := used_blocks p + extra,
                                held := (held p)(seq \<mapsto> want) \<rparr>))"

definition release :: "seq_id \<Rightarrow> KvPool \<Rightarrow> KvPool" where
  "release seq p =
     (case held p seq of
        None \<Rightarrow> p
      | Some blocks \<Rightarrow> p\<lparr> held := (held p)(seq := None), used_blocks := used_blocks p - blocks \<rparr>)"

definition held_sum :: "KvPool \<Rightarrow> nat" where
  "held_sum p = (\<Sum>s \<in> dom (held p). the (held p s))"

definition pool_ok :: "KvPool \<Rightarrow> bool" where
  "pool_ok p \<longleftrightarrow> finite (dom (held p)) \<and> used_blocks p = held_sum p \<and> used_blocks p \<le> total_blocks p"

section \<open>The pool's contract\<close>

text \<open>
  What the scheduler relies on. \<open>has\<close> is the number of blocks a sequence holds; no
  operation on one sequence changes another one's share.
\<close>

locale block_pool =
  fixes ok :: "'p \<Rightarrow> bool" and total :: "'p \<Rightarrow> nat" and free :: "'p \<Rightarrow> nat"
    and has :: "'p \<Rightarrow> 'k \<Rightarrow> nat" and need :: "nat \<Rightarrow> nat"
    and grow :: "'k \<Rightarrow> nat \<Rightarrow> 'p \<Rightarrow> bool \<times> 'p" and give_back :: "'k \<Rightarrow> 'p \<Rightarrow> 'p"
  assumes grow_ok: "ok p \<Longrightarrow> ok (snd (grow s n p))"
    and grow_total: "total (snd (grow s n p)) = total p"
    and grow_yes: "ok p \<Longrightarrow> fst (grow s n p) \<longleftrightarrow> need n \<le> has p s + free p"
    and grow_has: "ok p \<Longrightarrow> fst (grow s n p) \<Longrightarrow> has (snd (grow s n p)) s = max (need n) (has p s)"
    and grow_other: "s' \<noteq> s \<Longrightarrow> has (snd (grow s n p)) s' = has p s'"
    and grow_no: "\<not> fst (grow s n p) \<Longrightarrow> snd (grow s n p) = p"
    and give_back_ok: "ok p \<Longrightarrow> ok (give_back s p)"
    and give_back_total: "total (give_back s p) = total p"
    and give_back_has: "has (give_back s p) s = 0"
    and give_back_other: "s' \<noteq> s \<Longrightarrow> has (give_back s p) s' = has p s'"
    and give_back_free: "ok p \<Longrightarrow> free (give_back s p) = free p + has p s"
    and share_le: "ok p \<Longrightarrow> has p s + free p \<le> total p"
    and all_free: "ok p \<Longrightarrow> (\<And>s'. has p s' = 0) \<Longrightarrow> free p = total p"
begin

lemma grow_covers: "ok p \<Longrightarrow> fst (grow s n p) \<Longrightarrow> need n \<le> has (snd (grow s n p)) s"
  by (simp add: grow_has)

lemma give_back_twice: "ok p \<Longrightarrow> free (give_back s (give_back s p)) = free (give_back s p)"
  by (simp add: give_back_free give_back_ok give_back_has)

text \<open>Evicting one holder makes room for another by exactly the blocks it held.\<close>

lemma grow_after_give_back:
  "ok p \<Longrightarrow> v \<noteq> s \<Longrightarrow> fst (grow s n (give_back v p)) \<longleftrightarrow> need n \<le> has p s + free p + has p v"
  by (simp add: grow_yes give_back_ok give_back_free give_back_other add.assoc)

text \<open>The last holder can take the whole pool, and nobody can take more.\<close>

lemma lone_grow:
  assumes "ok p" and "\<And>s'. s' \<noteq> s \<Longrightarrow> has p s' = 0"
  shows "fst (grow s n p) \<longleftrightarrow> need n \<le> total p"
proof -
  have "has (give_back s p) s' = 0" for s'
    using assms(2) by (cases "s' = s") (auto simp: give_back_has give_back_other)
  then have "free (give_back s p) = total p"
    using all_free [of "give_back s p"] assms(1) by (simp add: give_back_ok give_back_total)
  with assms(1) show ?thesis by (simp add: grow_yes give_back_free add.commute)
qed

lemma too_big_never: "ok p \<Longrightarrow> total p < need n \<Longrightarrow> grow s n p = (False, p)"
  using grow_yes [of p s n] share_le [of p s] grow_no [of s n p] by (cases "grow s n p") auto

end

lemma held_sum_upd:
  assumes "finite (dom (held p))"
  shows "held_sum (p\<lparr> held := (held p)(s \<mapsto> w) \<rparr>) + held_by p s = held_sum p + w"
proof -
  have *: "(\<Sum>x \<in> dom (held p) - {s}. the (((held p)(s \<mapsto> w)) x)) = (\<Sum>x \<in> dom (held p) - {s}. the (held p x))"
    by (rule sum.cong) auto
  have "held_sum p = held_by p s + (\<Sum>x \<in> dom (held p) - {s}. the (held p x))"
    using assms by (cases "s \<in> dom (held p)") (auto simp: held_sum_def held_by_def sum.remove split: option.splits)
  moreover have "held_sum (p\<lparr> held := (held p)(s \<mapsto> w) \<rparr>) = w + (\<Sum>x \<in> dom (held p) - {s}. the (held p x))"
    using assms * by (simp add: held_sum_def sum.insert_remove)
  ultimately show ?thesis by simp
qed

lemma held_sum_del:
  assumes "finite (dom (held p))"
  shows "held_sum (p\<lparr> held := (held p)(s := None) \<rparr>) + held_by p s = held_sum p"
proof (cases "held p s")
  case None
  then have "(held p)(s := None) = held p" by auto
  with None show ?thesis by (simp add: held_by_def)
next
  case (Some b)
  then have "s \<in> dom (held p)" by auto
  with assms have "held_sum p = the (held p s) + (\<Sum>x \<in> dom (held p) - {s}. the (held p x))"
    by (simp add: held_sum_def sum.remove)
  with Some show ?thesis by (simp add: held_sum_def held_by_def)
qed

lemma held_sum_used [simp]: "held_sum (p\<lparr> used_blocks := u \<rparr>) = held_sum p"
  "held_sum (p\<lparr> used_blocks := u, held := h \<rparr>) = held_sum (p\<lparr> held := h \<rparr>)"
  "held_sum (p\<lparr> held := h, used_blocks := u \<rparr>) = held_sum (p\<lparr> held := h \<rparr>)"
  by (simp_all add: held_sum_def)

lemma held_by_le_sum: "finite (dom (held p)) \<Longrightarrow> held_by p s \<le> held_sum p"
  using held_sum_del [of p s] by simp

lemma pool_ok_new: "pool_ok (kvpool_new n)"
  by (simp add: pool_ok_def kvpool_new_def held_sum_def)

lemma pool_ok_reserve:
  assumes "pool_ok p"
  shows "pool_ok (snd (reserve s n p))"
  using assms held_sum_upd [of p s "blocks_for n"]
  by (auto simp: pool_ok_def reserve_def Let_def free_blocks_def)

lemma pool_ok_release:
  assumes "pool_ok p"
  shows "pool_ok (release s p)"
  using assms held_sum_del [of p s] held_by_le_sum [of p s]
  by (auto simp: pool_ok_def release_def held_by_def split: option.splits)

interpretation kp: block_pool pool_ok total_blocks free_blocks held_by blocks_for reserve release
proof
  fix p :: KvPool and s s' :: seq_id and n :: nat
  show "total_blocks (snd (reserve s n p)) = total_blocks p"
    by (simp add: reserve_def Let_def)
  show "s' \<noteq> s \<Longrightarrow> held_by (snd (reserve s n p)) s' = held_by p s'"
    by (simp add: reserve_def Let_def held_by_def)
  show "\<not> fst (reserve s n p) \<Longrightarrow> snd (reserve s n p) = p"
    by (simp add: reserve_def Let_def split: if_splits)
  show "total_blocks (release s p) = total_blocks p"
    by (simp add: release_def split: option.splits)
  show "held_by (release s p) s = 0"
    by (simp add: release_def held_by_def split: option.splits)
  show "s' \<noteq> s \<Longrightarrow> held_by (release s p) s' = held_by p s'"
    by (simp add: release_def held_by_def split: option.splits)
  assume ok: "pool_ok p"
  show "pool_ok (snd (reserve s n p))" "pool_ok (release s p)"
    using ok by (rule pool_ok_reserve, rule pool_ok_release)
  show "fst (reserve s n p) \<longleftrightarrow> blocks_for n \<le> held_by p s + free_blocks p"
    by (auto simp: reserve_def Let_def)
  show "fst (reserve s n p) \<Longrightarrow> held_by (snd (reserve s n p)) s = max (blocks_for n) (held_by p s)"
    by (auto simp: reserve_def Let_def held_by_def split: if_splits)
  have le: "held_by p s \<le> used_blocks p" "used_blocks p \<le> total_blocks p"
    using ok held_by_le_sum [of p s] by (auto simp: pool_ok_def)
  show "free_blocks (release s p) = free_blocks p + held_by p s"
    using le by (auto simp: release_def free_blocks_def held_by_def split: option.splits)
  show "held_by p s + free_blocks p \<le> total_blocks p"
    using le by (simp add: free_blocks_def)
  show "free_blocks p = total_blocks p" if none: "\<And>s'. held_by p s' = 0"
  proof -
    have "the (held p x) = 0" if "x \<in> dom (held p)" for x
      using none [of x] that by (auto simp: held_by_def)
    with ok show ?thesis by (simp add: pool_ok_def held_sum_def free_blocks_def)
  qed
qed

text \<open>\<open>release\<close> subtracts what the sequence held, which never exceeds \<open>used_blocks\<close>:
  the \<open>usize\<close> subtraction cannot underflow.\<close>

lemma release_no_underflow: "pool_ok p \<Longrightarrow> held p s = Some b \<Longrightarrow> b \<le> used_blocks p"
  using held_by_le_sum [of p s] by (auto simp: pool_ok_def held_by_def)

lemma blocks_for_mono: "a \<le> b \<Longrightarrow> blocks_for a \<le> blocks_for b"
  using div_ceil_least [of BLOCK_TOKENS a "blocks_for b"] div_ceil_least [of BLOCK_TOKENS b "blocks_for b"]
  by (simp add: blocks_for_def BLOCK_TOKENS_def)

section \<open>Prefix matching\<close>

text \<open>The messages hashed for a chain, and what is asked of the hash on them.\<close>

fun block_chain_msgs :: "(bytes \<Rightarrow> bytes) \<Rightarrow> bytes option \<Rightarrow> u32 list list \<Rightarrow> bytes list" where
  "block_chain_msgs H p [] = []"
| "block_chain_msgs H p (c # cs) = block_msg p c # block_chain_msgs H (Some (hash_block H p c)) cs"

definition block_msgs :: "(bytes \<Rightarrow> bytes) \<Rightarrow> u32 list \<Rightarrow> bytes list" where
  "block_msgs H tokens = block_chain_msgs H None (chunks_exact BLOCK_TOKENS tokens)"

definition block_hash_on :: "(bytes \<Rightarrow> bytes) \<Rightarrow> bytes set \<Rightarrow> bool" where
  "block_hash_on H M \<longleftrightarrow> inj_on H M \<and> (\<forall>x \<in> M. length (H x) = 32)"

definition chain_end :: "(bytes \<Rightarrow> bytes) \<Rightarrow> bytes option \<Rightarrow> u32 list list \<Rightarrow> bytes option" where
  "chain_end H p cs = foldl (\<lambda>p c. Some (hash_block H p c)) p cs"

lemma length_block_hash_loop [simp]: "length (block_hash_loop H p cs) = length cs"
  by (induction cs arbitrary: p) (auto simp: Let_def)

lemma block_hash_loop_nth:
  "i < length cs \<Longrightarrow> Some (block_hash_loop H p cs ! i) = chain_end H p (take (Suc i) cs)"
proof (induction cs arbitrary: i p)
  case (Cons c cs)
  then show ?case by (cases i) (auto simp: Let_def chain_end_def)
qed simp

lemma chain_end_snoc [simp]: "chain_end H p (cs @ [c]) = Some (H (block_msg (chain_end H p cs) c))"
  by (simp add: chain_end_def hash_block_def)

lemma block_chain_msgs_snoc [simp]:
  "block_chain_msgs H p (cs @ [c]) = block_chain_msgs H p cs @ [block_msg (chain_end H p cs) c]"
  by (induction cs arbitrary: p) (auto simp: chain_end_def)

lemma block_chain_msgs_take: "set (block_chain_msgs H p (take k cs)) \<subseteq> set (block_chain_msgs H p cs)"
proof (induction cs arbitrary: k p)
  case (Cons c cs)
  then show ?case by (cases k) fastforce+
qed simp

lemma block_hash_on_subset: "block_hash_on H M \<Longrightarrow> N \<subseteq> M \<Longrightarrow> block_hash_on H N"
  by (auto simp: block_hash_on_def intro: inj_on_subset)

lemma length_chain_end:
  "block_hash_on H (set (block_chain_msgs H None cs)) \<Longrightarrow> chain_end H None cs = Some d \<Longrightarrow> length d = 32"
  by (cases cs rule: rev_cases) (auto simp: chain_end_def block_hash_on_def hash_block_def)

text \<open>Whole blocks have 64 bytes, so the parent can be split off again.\<close>

lemma block_msg_inject:
  assumes "block_msg p c = block_msg q d" and "length c = length d"
    and "\<And>x. p = Some x \<Longrightarrow> length x = 32" and "\<And>x. q = Some x \<Longrightarrow> length x = 32"
  shows "p = q \<and> c = d"
proof -
  let ?b = "\<lambda>o1 :: bytes option. case o1 of None \<Rightarrow> [] | Some x \<Rightarrow> x"
  from assms(1) have "?b p @ u32s_le c = ?b q @ u32s_le d" by (simp add: block_msg_def)
  moreover from assms(2) have "length (u32s_le c) = length (u32s_le d)" by simp
  ultimately have "?b p = ?b q" and "u32s_le c = u32s_le d" by (simp_all add: append_eq_append_conv)
  with assms(3,4) show ?thesis by (auto split: option.splits)
qed

lemma chain_end_inject:
  assumes "block_hash_on H (set (block_chain_msgs H None cs) \<union> set (block_chain_msgs H None ds))"
    and "\<forall>c \<in> set cs \<union> set ds. length c = n"
    and "chain_end H None cs = chain_end H None ds"
  shows "cs = ds"
  using assms
proof (induction cs arbitrary: ds rule: rev_induct)
  case Nil
  then show ?case by (cases ds rule: rev_cases) (auto simp: chain_end_def)
next
  case (snoc c cs)
  then obtain ds' d where ds: "ds = ds' @ [d]"
    by (cases ds rule: rev_cases) (auto simp: chain_end_def)
  let ?p = "chain_end H None cs" and ?q = "chain_end H None ds'"
  have good: "block_hash_on H (set (block_chain_msgs H None cs) \<union> set (block_chain_msgs H None ds'))"
    using snoc.prems(1) ds by (auto elim: block_hash_on_subset)
  have inj: "inj_on H (set (block_chain_msgs H None (cs @ [c])) \<union> set (block_chain_msgs H None ds))"
    using snoc.prems(1) by (simp add: block_hash_on_def)
  have eq: "H (block_msg ?p c) = H (block_msg ?q d)" using snoc.prems(3) ds by simp
  have "block_msg ?p c = block_msg ?q d" by (rule inj_onD [OF inj eq]) (simp_all add: ds)
  moreover have "length c = length d" using snoc.prems(2) ds by simp
  moreover have "\<And>x. ?p = Some x \<Longrightarrow> length x = 32" "\<And>x. ?q = Some x \<Longrightarrow> length x = 32"
    by (rule length_chain_end [OF block_hash_on_subset [OF good]]; simp)+
  ultimately have "?p = ?q" and "c = d" using block_msg_inject by blast+
  with snoc.IH [OF good] snoc.prems(2) ds show ?case by simp
qed

lemma length_chunks_exact: "0 < n \<Longrightarrow> length (chunks_exact n xs) = length xs div n"
  by (simp add: chunks_exact_def length_chunks min_absorb2)

lemma chunks_exact_full: "0 < n \<Longrightarrow> c \<in> set (chunks_exact n xs) \<Longrightarrow> length c = n"
  unfolding chunks_exact_def by (erule chunks_full) (simp_all add: min_absorb2)

lemma take_chunks_exact:
  assumes "0 < n" and "k \<le> length xs div n"
  shows "take k (chunks_exact n xs) = chunks n (take (k * n) xs)"
proof -
  from assms(2) have "k * n \<le> length xs div n * n" by simp
  with assms(1) show ?thesis by (simp add: chunks_exact_def take_chunks min_absorb1)
qed

lemma length_block_hashes [simp]: "length (block_hashes H xs) = length xs div BLOCK_TOKENS"
  by (simp add: block_hashes_def length_chunks_exact BLOCK_TOKENS_def)

lemma block_hashes_nth_eq:
  assumes good: "block_hash_on H (set (block_msgs H xs) \<union> set (block_msgs H ys))"
    and i: "i < length xs div BLOCK_TOKENS" and j: "j < length ys div BLOCK_TOKENS"
  shows "block_hashes H xs ! i = block_hashes H ys ! j \<longleftrightarrow>
    i = j \<and> take (Suc i * BLOCK_TOKENS) xs = take (Suc i * BLOCK_TOKENS) ys"
proof -
  have n: "0 < BLOCK_TOKENS" by (simp add: BLOCK_TOKENS_def)
  let ?cs = "take (Suc i) (chunks_exact BLOCK_TOKENS xs)" and ?ds = "take (Suc j) (chunks_exact BLOCK_TOKENS ys)"
  have len: "length ?cs = Suc i" "length ?ds = Suc j"
    using i j by (simp_all add: length_chunks_exact n)
  have "block_hashes H xs ! i = block_hashes H ys ! j \<longleftrightarrow> chain_end H None ?cs = chain_end H None ?ds"
    using i j by (simp add: block_hashes_def length_chunks_exact n flip: block_hash_loop_nth)
  also have "\<dots> \<longleftrightarrow> ?cs = ?ds"
  proof
    assume "chain_end H None ?cs = chain_end H None ?ds"
    moreover have "block_hash_on H (set (block_chain_msgs H None ?cs) \<union> set (block_chain_msgs H None ?ds))"
      by (rule block_hash_on_subset [OF good]) (use block_chain_msgs_take in \<open>fastforce simp: block_msgs_def\<close>)
    ultimately show "?cs = ?ds"
      by (rule chain_end_inject [where n = BLOCK_TOKENS, rotated 2])
        (auto dest!: in_set_takeD chunks_exact_full [OF n])
  qed simp
  also have "\<dots> \<longleftrightarrow> i = j \<and> take (Suc i * BLOCK_TOKENS) xs = take (Suc i * BLOCK_TOKENS) ys"
  proof (cases "i = j")
    case True
    with i j show ?thesis by (simp only: take_chunks_exact [OF n] Suc_leI chunks_inject [OF n] simp_thms)
  next
    case False
    with len show ?thesis by (metis Suc_inject)
  qed
  finally show ?thesis .
qed

lemma distinct_block_hashes:
  assumes "block_hash_on H (set (block_msgs H xs))"
  shows "distinct (block_hashes H xs)"
  using block_hashes_nth_eq [of H xs xs] assms by (simp add: distinct_conv_nth)

lemma record_loop_notin: "h \<notin> set hs \<Longrightarrow> record_loop i hs r h = r h"
  by (induction hs arbitrary: i r) auto

lemma record_loop_nth:
  "distinct hs \<Longrightarrow> k < length hs \<Longrightarrow> record_loop i hs r (hs ! k) = Some (i + k + 1)"
proof (induction hs arbitrary: i r k)
  case (Cons a hs)
  then show ?case by (cases k) (auto simp: record_loop_notin)
qed simp

lemma record_loop_lookup:
  assumes "distinct hs"
  shows "record_loop 0 hs Map.empty h = Some (j + 1) \<longleftrightarrow> j < length hs \<and> hs ! j = h"
proof (cases "h \<in> set hs")
  case True
  then obtain k where "k < length hs" "h = hs ! k" by (auto simp: in_set_conv_nth)
  with assms show ?thesis by (auto simp: record_loop_nth nth_eq_iff_index_eq)
next
  case False
  then show ?thesis by (auto simp: record_loop_notin)
qed

lemma match_loop_iff:
  "i + k \<le> match_loop r i hs \<longleftrightarrow> k \<le> length hs \<and> (\<forall>j<k. r (hs ! j) = Some (i + j + 1))"
proof (induction hs arbitrary: i k)
  case (Cons h hs)
  show ?case
  proof (cases k)
    case (Suc k')
    with Cons.IH [of "i + 1" k'] show ?thesis by (auto simp: All_less_Suc2)
  qed (use Cons.IH [of "i + 1" 0] in \<open>simp; linarith\<close>)
qed auto

text \<open>After \<open>record\<close>, a prompt matches exactly the whole blocks it shares with the
  recorded sequence.\<close>

lemma match_record_blocks:
  assumes "block_hash_on H (set (block_msgs H ts) \<union> set (block_msgs H prompt))"
  shows "k \<le> pm_blocks (match_prefix H (record_tokens H ts c) prompt) \<longleftrightarrow>
    k * BLOCK_TOKENS \<le> length ts \<and> k * BLOCK_TOKENS \<le> length prompt \<and>
    take (k * BLOCK_TOKENS) ts = take (k * BLOCK_TOKENS) prompt"
proof -
  have n: "0 < BLOCK_TOKENS" by (simp add: BLOCK_TOKENS_def)
  let ?T = "block_hashes H ts" and ?P = "block_hashes H prompt"
  have dist: "distinct ?T"
    by (rule distinct_block_hashes, rule block_hash_on_subset [OF assms]) simp
  have div: "m * BLOCK_TOKENS \<le> length ys \<longleftrightarrow> m \<le> length ys div BLOCK_TOKENS" for m and ys :: "u32 list"
    by (simp add: less_eq_div_iff_mult_less_eq n)
  have all_less: "(\<forall>j<i. j < m) \<longleftrightarrow> i \<le> m" for i m :: nat
    by (cases "i \<le> m") (auto simp: not_le)
  have nth_eq: "?T ! j = ?P ! j \<longleftrightarrow> take (Suc j * BLOCK_TOKENS) ts = take (Suc j * BLOCK_TOKENS) prompt"
    if "j < length ts div BLOCK_TOKENS" "j < length prompt div BLOCK_TOKENS" for j
    using block_hashes_nth_eq [OF assms that] by simp
  have all_take: "(\<forall>j<k. take (Suc j * BLOCK_TOKENS) ts = take (Suc j * BLOCK_TOKENS) prompt) \<longleftrightarrow>
      take (k * BLOCK_TOKENS) ts = take (k * BLOCK_TOKENS) prompt"
  proof
    assume all: "\<forall>j<k. take (Suc j * BLOCK_TOKENS) ts = take (Suc j * BLOCK_TOKENS) prompt"
    show "take (k * BLOCK_TOKENS) ts = take (k * BLOCK_TOKENS) prompt"
    proof (cases k)
      case (Suc m)
      with all [rule_format, of m] show ?thesis by blast
    qed simp
  next
    assume eq: "take (k * BLOCK_TOKENS) ts = take (k * BLOCK_TOKENS) prompt"
    show "\<forall>j<k. take (Suc j * BLOCK_TOKENS) ts = take (Suc j * BLOCK_TOKENS) prompt"
    proof (intro allI impI)
      fix j assume "j < k"
      then have "Suc j * BLOCK_TOKENS \<le> k * BLOCK_TOKENS" by (intro mult_le_mono1 Suc_leI)
      with arg_cong [OF eq, of "take (Suc j * BLOCK_TOKENS)"]
      show "take (Suc j * BLOCK_TOKENS) ts = take (Suc j * BLOCK_TOKENS) prompt"
        by (simp only: take_take min.absorb1)
    qed
  qed
  let ?R = "record_loop 0 ?T Map.empty"
  have R: "?R h = Some (j + 1) \<longleftrightarrow> j < length ?T \<and> ?T ! j = h" for h j
    by (rule record_loop_lookup [OF dist])
  have "k \<le> pm_blocks (match_prefix H (record_tokens H ts c) prompt) \<longleftrightarrow> k \<le> match_loop ?R 0 ?P"
    by (simp add: match_prefix_def record_tokens_def Let_def)
  also have "\<dots> \<longleftrightarrow> k \<le> length ?P \<and> (\<forall>j<k. ?R (?P ! j) = Some (j + 1))"
    using match_loop_iff [of 0 k ?R ?P] by simp
  also have "\<dots> \<longleftrightarrow> k \<le> length ?P \<and> (\<forall>j<k. j < length ?T \<and> ?T ! j = ?P ! j)"
    by (simp only: R)
  also have "\<dots> \<longleftrightarrow> k \<le> length ?P \<and> k \<le> length ?T \<and> (\<forall>j<k. ?T ! j = ?P ! j)"
    using all_less [of k "length ?T"] by blast
  also have "\<dots> \<longleftrightarrow> k \<le> length ?P \<and> k \<le> length ?T \<and> (\<forall>j<k. take (Suc j * BLOCK_TOKENS) ts = take (Suc j * BLOCK_TOKENS) prompt)"
    by (intro conj_cong refl all_cong nth_eq) simp_all
  finally show ?thesis unfolding div length_block_hashes all_take by blast
qed

section \<open>Properties\<close>

text \<open>C6: after the engine has recorded a token sequence, \<open>match_prefix\<close> reports for a
  prompt the longest common prefix in whole blocks of 16: \<open>k\<close> blocks are reported to match
  exactly when both sequences are that long and agree on their first \<open>16 k\<close> tokens, and the
  token count is 16 per block.\<close>

theorem match_prefix_exact:
  assumes "block_hash_on H (set (block_msgs H ts) \<union> set (block_msgs H prompt))"
  shows "(k \<le> pm_blocks (match_prefix H (record_tokens H ts c) prompt) \<longleftrightarrow>
      k * BLOCK_TOKENS \<le> length ts \<and> k * BLOCK_TOKENS \<le> length prompt \<and>
      take (k * BLOCK_TOKENS) ts = take (k * BLOCK_TOKENS) prompt)
    \<and> pm_tokens (match_prefix H (record_tokens H ts c) prompt) =
      BLOCK_TOKENS * pm_blocks (match_prefix H (record_tokens H ts c) prompt)"
  using match_record_blocks [OF assms, of k c] by (simp add: match_prefix_def Let_def)

definition toy_block_hash :: "bytes \<Rightarrow> bytes" where
  "toy_block_hash bs = take 32 (of_nat (length bs) # rev bs)"

theorem match_prefix_exact_witness:
  "pm_tokens (match_prefix toy_block_hash
     (record_tokens toy_block_hash (replicate 40 7) prefix_cache_new) (replicate 16 7 @ replicate 16 8)) = 16"
proof -
  let ?ts = "replicate 40 7 :: u32 list" and ?p = "replicate 16 7 @ replicate 16 8 :: u32 list"
  have good: "block_hash_on toy_block_hash (set (block_msgs toy_block_hash ?ts) \<union> set (block_msgs toy_block_hash ?p))"
    unfolding block_hash_on_def inj_on_def by code_simp
  have "1 * BLOCK_TOKENS \<le> length ?ts \<and> 1 * BLOCK_TOKENS \<le> length ?p \<and>
      take (1 * BLOCK_TOKENS) ?ts = take (1 * BLOCK_TOKENS) ?p"
    and "take (2 * BLOCK_TOKENS) ?ts \<noteq> take (2 * BLOCK_TOKENS) ?p" by code_simp+
  then show ?thesis
    using match_prefix_exact [OF good, of 1 prefix_cache_new] match_prefix_exact [OF good, of 2 prefix_cache_new]
    by (simp add: BLOCK_TOKENS_def)
qed

text \<open>C7: block accounting is exact. In a consistent pool a reservation succeeds exactly when the
  growth fits in the free blocks, a refused one changes nothing, and after either operation the used
  count is again the sum of the holders' shares and within the budget; releasing returns exactly the
  blocks the sequence held.\<close>

theorem kv_pool_accounting:
  assumes "pool_ok p"
  shows "(fst (reserve s n p) \<longleftrightarrow> blocks_for n \<le> held_by p s + free_blocks p)
    \<and> (if fst (reserve s n p) then held_by (snd (reserve s n p)) s = max (blocks_for n) (held_by p s)
       else snd (reserve s n p) = p)
    \<and> pool_ok (snd (reserve s n p)) \<and> pool_ok (release s p)
    \<and> held_by (release s p) s = 0 \<and> free_blocks (release s p) = free_blocks p + held_by p s"
  using assms by (simp add: kp.grow_yes kp.grow_has kp.grow_no kp.grow_ok kp.give_back_ok kp.give_back_has
      kp.give_back_free)

theorem kv_pool_accounting_witness:
  "free_blocks (release 1 (snd (reserve 1 33 (kvpool_new 4)))) = 4 \<and> \<not> fst (reserve 1 65 (kvpool_new 4))"
proof -
  have ok: "pool_ok (kvpool_new 4)" "pool_ok (snd (reserve 1 33 (kvpool_new 4)))"
    by (simp_all add: pool_ok_new pool_ok_reserve)
  show ?thesis
    using kv_pool_accounting [OF ok(1), of 1 65] kv_pool_accounting [OF ok(2), of 1 33]
    by (simp add: reserve_def kvpool_new_def blocks_for_def BLOCK_TOKENS_def div_ceil_def held_by_def free_blocks_def)
qed

end
