(* ===== verification/Cgn_Scheduler.thy ===== *)
theory Cgn_Scheduler
  imports Cgn_KvPool
begin

text \<open>
  The continuous-batching scheduler of the inference engine
  (\<open>cgn-infer/src/scheduler/mod.rs\<close>). The model runtime (the trait object
  \<open>BatchModel\<close>), the sampler and the tokenizer are parameters: the first two are fields of
  the environment record \<open>sched_env\<close>, the last one travels with the request, as in the
  source. A client's channel is the set of ids whose receiver is gone (\<open>closed\<close>) and the
  log \<open>sent\<close> of delivered events. Operations return \<open>None\<close> where the source
  panics (a slice off a character boundary, an index out of range).

  Strings are byte lists: \<open>str\<close> indices are byte offsets and slicing is allowed at
  character boundaries only.
\<close>

section \<open>UTF-8 strings\<close>

definition is_cont :: "char \<Rightarrow> bool" where
  "is_cont c \<longleftrightarrow> (of_char c :: nat) div 64 = 2"

definition is_char_boundary :: "string \<Rightarrow> nat \<Rightarrow> bool" where
  "is_char_boundary t i \<longleftrightarrow> i = 0 \<or> i = length t \<or> (i < length t \<and> \<not> is_cont (t ! i))"

text \<open>\<open>&t[a..b]\<close>, \<open>None\<close> for a panic.\<close>

definition str_slice :: "string \<Rightarrow> nat \<Rightarrow> nat \<Rightarrow> string option" where
  "str_slice t a b =
     (if a \<le> b \<and> b \<le> length t \<and> is_char_boundary t a \<and> is_char_boundary t b
      then Some (take (b - a) (drop a t)) else None)"

definition str_find :: "string \<Rightarrow> string \<Rightarrow> nat option" where
  "str_find t s = find (\<lambda>i. prefix s (drop i t)) [0..<length t + 1]"

definition char_starts :: "string \<Rightarrow> nat list" where
  "char_starts t = filter (is_char_boundary t) [0..<length t]"

definition REPLACEMENT :: string where
  "REPLACEMENT = [CHR 0xEF, CHR 0xBF, CHR 0xBD]"

text \<open>\<open>held_back_len\<close>: the inner loop runs over \<open>char_indices\<close>.\<close>

definition held_back_one :: "string \<Rightarrow> string \<Rightarrow> nat \<Rightarrow> nat" where
  "held_back_one t stop safe =
     fold (\<lambda>start safe. if prefix (drop start t) stop \<and> start < safe then start else safe) (char_starts t) safe"

definition held_back_len :: "string \<Rightarrow> string list \<Rightarrow> nat" where
  "held_back_len t stops = fold (held_back_one t) stops (length t)"

section \<open>State\<close>

record SchedulerConfig =
  sc_max_batch :: nat
  sc_prefill_chunk :: nat
  sc_kv_pool_tokens :: nat

definition SchedulerConfig_default :: SchedulerConfig where
  "SchedulerConfig_default = \<lparr> sc_max_batch = 8, sc_prefill_chunk = 512, sc_kv_pool_tokens = 64 * 1024 \<rparr>"

record 'q Request =
  rq_prompt_tokens :: "u32 list"
  rq_max_tokens :: nat
  rq_stop :: "string list"
  rq_params :: 'q
  rq_tokenizer :: "u32 list \<Rightarrow> unit + string"
  rq_eos_token_id :: "u32 option"

datatype Phase = Prefill nat | Decode

record StreamEvent =
  ev_delta :: string
  ev_finish_reason :: "string option"
  ev_prompt_tokens :: nat
  ev_completion_tokens :: nat

record ('q, 's) Sequence =
  sq_id :: seq_id
  sq_req :: "'q Request"
  sq_phase :: Phase
  sq_tokens :: "u32 list"
  sq_prompt_len :: nat
  sq_generated :: "u32 list"
  sq_sampler :: 's
  sq_emitted_len :: nat
  sq_admitted_at :: nat

record ('m, 'l, 'q, 's) sched_env =
  bm_max_batch :: nat
  bm_max_seq_len :: nat
  bm_prefill :: "seq_id \<Rightarrow> u32 list \<Rightarrow> nat \<Rightarrow> bool \<Rightarrow> 'm \<Rightarrow> (unit + 'l option) \<times> 'm"
  bm_decode :: "(seq_id \<times> u32) list \<Rightarrow> 'm \<Rightarrow> (unit + 'l list) \<times> 'm"
  bm_drop_seq :: "seq_id \<Rightarrow> 'm \<Rightarrow> 'm"
  sampler_new :: "'q \<Rightarrow> 's"
  sampler_sample :: "'s \<Rightarrow> 'l \<Rightarrow> u32 list \<Rightarrow> u32 \<times> 's"

record ('m, 'q, 's) Scheduler =
  sd_model :: 'm
  sd_cfg :: SchedulerConfig
  sd_pool :: KvPool
  sd_waiting :: "('q, 's) Sequence list"
  sd_running :: "('q, 's) Sequence list"
  sd_next_id :: nat
  sd_tick :: nat
  sd_sent :: "(seq_id \<times> StreamEvent) list"

definition budget :: "('q, 's) Sequence \<Rightarrow> nat \<Rightarrow> nat" where
  "budget seq max_seq_len = min (rq_max_tokens (sq_req seq)) (max_seq_len - sq_prompt_len seq)"

text \<open>\<open>Ord::clamp\<close> panics when the bounds are crossed.\<close>

definition clamp :: "nat \<Rightarrow> nat \<Rightarrow> nat \<Rightarrow> nat option" where
  "clamp x lo hi = (if lo \<le> hi then Some (max lo (min x hi)) else None)"

definition scheduler_new :: "('m, 'l, 'q, 's) sched_env \<Rightarrow> 'm \<Rightarrow> SchedulerConfig \<Rightarrow> ('m, 'q, 's) Scheduler option" where
  "scheduler_new env model cfg = do {
     mb \<leftarrow> clamp (sc_max_batch cfg) 1 (bm_max_batch env);
     let cfg = cfg\<lparr> sc_max_batch := mb, sc_prefill_chunk := max (sc_prefill_chunk cfg) 1 \<rparr>;
     let pool = kvpool_new (max (blocks_for (sc_kv_pool_tokens cfg)) 1);
     Some \<lparr> sd_model = model, sd_cfg = cfg, sd_pool = pool, sd_waiting = [], sd_running = [],
            sd_next_id = 1, sd_tick = 0, sd_sent = [] \<rparr>
   }"

section \<open>Operations\<close>

text \<open>\<open>tx.blocking_send\<close>: the result says whether the receiver was still there. Which receivers are gone is
  fixed during one step and free to change from step to step: a client that leaves in the middle of a
  step is one whose receiver is gone from the next step on.\<close>

definition blocking_send :: "(seq_id \<Rightarrow> bool) \<Rightarrow> seq_id \<Rightarrow> StreamEvent \<Rightarrow> ('m, 'q, 's) Scheduler \<Rightarrow> bool \<times> ('m, 'q, 's) Scheduler" where
  "blocking_send closed sid ev s =
     (if closed sid then (False, s) else (True, s\<lparr> sd_sent := sd_sent s @ [(sid, ev)] \<rparr>))"

definition enqueue :: "('m, 'l, 'q, 's) sched_env \<Rightarrow> (seq_id \<Rightarrow> bool) \<Rightarrow> 'q Request \<Rightarrow> ('m, 'q, 's) Scheduler \<Rightarrow> ('m, 'q, 's) Scheduler" where
  "enqueue env closed req s =
     (let sid = sd_next_id s;
          s = s\<lparr> sd_next_id := sid + 1 \<rparr>;
          max_seq = bm_max_seq_len env
      in if rq_prompt_tokens req = [] \<or> length (rq_prompt_tokens req) \<ge> max_seq
         then snd (blocking_send closed sid
                \<lparr> ev_delta = [], ev_finish_reason = Some ''error'',
                  ev_prompt_tokens = length (rq_prompt_tokens req), ev_completion_tokens = 0 \<rparr> s)
         else s\<lparr> sd_waiting := sd_waiting s @
                [\<lparr> sq_id = sid, sq_req = req, sq_phase = Prefill 0, sq_tokens = rq_prompt_tokens req,
                   sq_prompt_len = length (rq_prompt_tokens req), sq_generated = [],
                   sq_sampler = sampler_new env (rq_params req), sq_emitted_len = 0, sq_admitted_at = 0 \<rparr>] \<rparr>)"

function admit :: "('m, 'q, 's) Scheduler \<Rightarrow> ('m, 'q, 's) Scheduler" where
  "admit s =
     (if length (sd_running s) < sc_max_batch (sd_cfg s) then
        (case sd_waiting s of
           [] \<Rightarrow> s
         | seq # rest \<Rightarrow>
             (case reserve (sq_id seq) (sq_prompt_len seq + 1) (sd_pool s) of
                (False, pool) \<Rightarrow> s\<lparr> sd_pool := pool \<rparr>
              | (True, pool) \<Rightarrow>
                  admit (s\<lparr> sd_pool := pool, sd_waiting := rest, sd_tick := sd_tick s + 1,
                            sd_running := sd_running s @ [seq\<lparr> sq_admitted_at := sd_tick s + 1 \<rparr>] \<rparr>)))
      else s)"
  by auto
termination
  by (relation "measure (\<lambda>s. length (sd_waiting s))") auto

declare admit.simps [simp del]

definition is_prefill :: "('q, 's) Sequence \<Rightarrow> bool" where
  "is_prefill s \<longleftrightarrow> (case sq_phase s of Prefill _ \<Rightarrow> True | Decode \<Rightarrow> False)"

definition is_decode :: "('q, 's) Sequence \<Rightarrow> bool" where
  "is_decode s \<longleftrightarrow> sq_phase s = Decode"

text \<open>Removing \<open>running[idx]\<close>, releasing its blocks and its model state.\<close>

definition take_out :: "('m, 'l, 'q, 's) sched_env \<Rightarrow> nat \<Rightarrow> ('m, 'q, 's) Scheduler \<Rightarrow> ('m, 'q, 's) Scheduler" where
  "take_out env idx s =
     (let seq = sd_running s ! idx
      in s\<lparr> sd_running := remove_at idx (sd_running s), sd_pool := release (sq_id seq) (sd_pool s),
            sd_model := bm_drop_seq env (sq_id seq) (sd_model s) \<rparr>)"

definition finish :: "('m, 'l, 'q, 's) sched_env \<Rightarrow> (seq_id \<Rightarrow> bool) \<Rightarrow> nat \<Rightarrow> string \<Rightarrow> ('m, 'q, 's) Scheduler \<Rightarrow> ('m, 'q, 's) Scheduler option" where
  "finish env closed idx reason s =
     (if idx \<ge> length (sd_running s) then None
      else do {
        let seq = sd_running s ! idx;
        let s = take_out env idx s;
        s \<leftarrow> (if reason = ''length'' then
               (case rq_tokenizer (sq_req seq) (sq_generated seq) of
                  Inl _ \<Rightarrow> Some s
                | Inr text \<Rightarrow>
                    if length text > sq_emitted_len seq then
                      do {
                        delta \<leftarrow> str_slice text (sq_emitted_len seq) (length text);
                        Some (snd (blocking_send closed (sq_id seq)
                          \<lparr> ev_delta = delta, ev_finish_reason = None, ev_prompt_tokens = sq_prompt_len seq,
                            ev_completion_tokens = length (sq_generated seq) \<rparr> s))
                      }
                    else Some s)
             else Some s);
        Some (snd (blocking_send closed (sq_id seq)
          \<lparr> ev_delta = [], ev_finish_reason = Some reason, ev_prompt_tokens = sq_prompt_len seq,
            ev_completion_tokens = length (sq_generated seq) \<rparr> s))
      })"

definition finish_silent :: "('m, 'l, 'q, 's) sched_env \<Rightarrow> nat \<Rightarrow> ('m, 'q, 's) Scheduler \<Rightarrow> ('m, 'q, 's) Scheduler option" where
  "finish_silent env idx s = (if idx \<ge> length (sd_running s) then None else Some (take_out env idx s))"

definition set_running :: "nat \<Rightarrow> ('q, 's) Sequence \<Rightarrow> ('m, 'q, 's) Scheduler \<Rightarrow> ('m, 'q, 's) Scheduler" where
  "set_running idx seq s = s\<lparr> sd_running := (sd_running s)[idx := seq] \<rparr>"

text \<open>\<open>filter_map(|s| text.find(s)).min()\<close>.\<close>

definition first_stop :: "string \<Rightarrow> string list \<Rightarrow> nat option" where
  "first_stop text stops =
     (case List.map_filter (str_find text) stops of [] \<Rightarrow> None | h # hs \<Rightarrow> Some (fold min hs h))"

text \<open>\<open>text[..hit].get(emitted_len..).unwrap_or("")\<close>.\<close>

definition stop_delta :: "string \<Rightarrow> nat \<Rightarrow> nat \<Rightarrow> string" where
  "stop_delta text hit emitted =
     (let t = take hit text in if emitted \<le> length t \<and> is_char_boundary t emitted then drop emitted t else [])"

text \<open>The second half of \<open>push_token\<close>, in two parts: streaming the text that is safe to
  emit (the flag says whether the client is still there), and the decision after a detokenised
  token. \<open>seq\<close> is \<open>running[idx]\<close>.\<close>

definition emit_safe :: "(seq_id \<Rightarrow> bool) \<Rightarrow> nat \<Rightarrow> ('q, 's) Sequence \<Rightarrow> string \<Rightarrow> ('m, 'q, 's) Scheduler \<Rightarrow> (bool \<times> ('m, 'q, 's) Scheduler) option" where
  "emit_safe closed idx seq text s =
     (let safe_len = held_back_len text (rq_stop (sq_req seq))
      in if \<not> suffix REPLACEMENT text \<and> length text > sq_emitted_len seq \<and> safe_len > sq_emitted_len seq
         then do {
           delta \<leftarrow> str_slice text (sq_emitted_len seq) safe_len;
           Some (blocking_send closed (sq_id seq)
             \<lparr> ev_delta = delta, ev_finish_reason = None, ev_prompt_tokens = sq_prompt_len seq,
               ev_completion_tokens = length (sq_generated seq) \<rparr>
             (set_running idx (seq\<lparr> sq_emitted_len := safe_len \<rparr>) s))
         }
         else Some (True, s))"

definition push_text :: "('m, 'l, 'q, 's) sched_env \<Rightarrow> (seq_id \<Rightarrow> bool) \<Rightarrow> nat \<Rightarrow> ('q, 's) Sequence \<Rightarrow> string \<Rightarrow> ('m, 'q, 's) Scheduler \<Rightarrow> ('m, 'q, 's) Scheduler option" where
  "push_text env closed idx seq text s =
     (case first_stop text (rq_stop (sq_req seq)) of
        Some hit \<Rightarrow>
          (let delta = stop_delta text hit (sq_emitted_len seq)
           in finish env closed idx ''stop''
                (if delta \<noteq> [] then
                   snd (blocking_send closed (sq_id seq)
                     \<lparr> ev_delta = delta, ev_finish_reason = None, ev_prompt_tokens = sq_prompt_len seq,
                       ev_completion_tokens = length (sq_generated seq) \<rparr>
                     (set_running idx (seq\<lparr> sq_emitted_len := hit \<rparr>) s))
                 else s))
      | None \<Rightarrow>
          do {
            (alive, s) \<leftarrow> emit_safe closed idx seq text s;
            if \<not> alive then finish_silent env idx s
            else if length (sq_generated seq) \<ge> budget seq (bm_max_seq_len env)
            then finish env closed idx ''length'' s
            else Some s
          })"

definition push_token :: "('m, 'l, 'q, 's) sched_env \<Rightarrow> (seq_id \<Rightarrow> bool) \<Rightarrow> nat \<Rightarrow> u32 \<Rightarrow> ('m, 'q, 's) Scheduler \<Rightarrow> ('m, 'q, 's) Scheduler option" where
  "push_token env closed idx token s =
     (if idx \<ge> length (sd_running s) then None
      else let seq = sd_running s ! idx in
        if Some token = rq_eos_token_id (sq_req seq) then finish env closed idx ''stop'' s
        else
          let seq = seq\<lparr> sq_generated := sq_generated seq @ [token], sq_tokens := sq_tokens seq @ [token] \<rparr>;
              s = set_running idx seq s
          in (case rq_tokenizer (sq_req seq) (sq_generated seq) of
                Inl _ \<Rightarrow> finish env closed idx ''error'' s
              | Inr text \<Rightarrow> push_text env closed idx seq text s))"

definition prefill_one_chunk :: "('m, 'l, 'q, 's) sched_env \<Rightarrow> (seq_id \<Rightarrow> bool) \<Rightarrow> ('m, 'q, 's) Scheduler \<Rightarrow> ('m, 'q, 's) Scheduler option" where
  "prefill_one_chunk env closed s =
     (case position is_prefill (sd_running s) of
        None \<Rightarrow> Some s
      | Some idx \<Rightarrow>
          let seq = sd_running s ! idx;
              done = (case sq_phase seq of Prefill d \<Rightarrow> d | Decode \<Rightarrow> 0);
              remaining = sq_prompt_len seq - done;
              n = min remaining (sc_prefill_chunk (sd_cfg s));
              last_chunk = (n = remaining);
              chunk = take n (drop done (sq_tokens seq));
              (res, model) = bm_prefill env (sq_id seq) chunk done last_chunk (sd_model s);
              s = s\<lparr> sd_model := model \<rparr>
          in if done > sq_prompt_len seq \<or> done + n > length (sq_tokens seq) then None
             else (case res of
                Inr (Some logits) \<Rightarrow>
                  (let (next, smp) = sampler_sample env (sq_sampler seq) logits (sq_tokens seq)
                   in push_token env closed idx next
                        (set_running idx (seq\<lparr> sq_phase := Decode, sq_sampler := smp \<rparr>) s))
              | Inr None \<Rightarrow> Some (set_running idx (seq\<lparr> sq_phase := Prefill (done + n) \<rparr>) s)
              | Inl _ \<Rightarrow> finish env closed idx ''error'' s))"

definition preempt :: "('m, 'l, 'q, 's) sched_env \<Rightarrow> seq_id \<Rightarrow> ('m, 'q, 's) Scheduler \<Rightarrow> ('m, 'q, 's) Scheduler" where
  "preempt env sid s =
     (case position (\<lambda>x. sq_id x = sid) (sd_running s) of
        None \<Rightarrow> s
      | Some idx \<Rightarrow>
          let seq = sd_running s ! idx; s = take_out env idx s
          in s\<lparr> sd_waiting := seq\<lparr> sq_phase := Prefill 0 \<rparr> # sd_waiting s \<rparr>)"

definition victim :: "seq_id \<Rightarrow> ('m, 'q, 's) Scheduler \<Rightarrow> seq_id option" where
  "victim sid s = map_option sq_id (max_by_key sq_admitted_at (filter (\<lambda>x. sq_id x \<noteq> sid) (sd_running s)))"

lemma preempt_shrinks:
  assumes "victim sid s = Some v"
  shows "length (sd_running (preempt env v s)) < length (sd_running s)"
proof -
  from assms obtain x where "x \<in> set (sd_running s)" "sq_id x = v"
    by (force simp: victim_def dest: max_by_key_Some)
  then obtain idx where "position (\<lambda>x. sq_id x = v) (sd_running s) = Some idx"
    using position_None [of "\<lambda>x. sq_id x = v" "sd_running s"] by (cases "position (\<lambda>x. sq_id x = v) (sd_running s)") auto
  then show ?thesis by (auto simp: preempt_def take_out_def Let_def dest!: position_Some)
qed

function ensure_room :: "('m, 'l, 'q, 's) sched_env \<Rightarrow> seq_id \<Rightarrow> nat \<Rightarrow> ('m, 'q, 's) Scheduler \<Rightarrow> bool \<times> ('m, 'q, 's) Scheduler" where
  "ensure_room env sid need s =
     (case reserve sid need (sd_pool s) of
        (True, pool) \<Rightarrow> (True, s\<lparr> sd_pool := pool \<rparr>)
      | (False, pool) \<Rightarrow>
          (case victim sid s of
             Some v \<Rightarrow> ensure_room env sid need (preempt env v s)
           | None \<Rightarrow> (False, preempt env sid s)))"
  by auto
termination
  by (relation "measure (\<lambda>(_, _, _, s). length (sd_running s))") (auto intro: preempt_shrinks)

declare ensure_room.simps [simp del]

fun decode_room :: "('m, 'l, 'q, 's) sched_env \<Rightarrow> (seq_id \<times> nat) list \<Rightarrow> ('m, 'q, 's) Scheduler \<Rightarrow> ('m, 'q, 's) Scheduler" where
  "decode_room env [] s = s"
| "decode_room env ((sid, need) # rest) s =
     decode_room env rest
       (if \<exists>x \<in> set (sd_running s). sq_id x = sid then snd (ensure_room env sid need s) else s)"

fun fail_all :: "('m, 'l, 'q, 's) sched_env \<Rightarrow> (seq_id \<Rightarrow> bool) \<Rightarrow> nat list \<Rightarrow> ('m, 'q, 's) Scheduler \<Rightarrow> ('m, 'q, 's) Scheduler option" where
  "fail_all env closed [] s = Some s"
| "fail_all env closed (idx # rest) s = do { s \<leftarrow> finish env closed idx ''error'' s; fail_all env closed rest s }"

fun push_all :: "('m, 'l, 'q, 's) sched_env \<Rightarrow> (seq_id \<Rightarrow> bool) \<Rightarrow> (nat \<times> 'l) list \<Rightarrow> ('m, 'q, 's) Scheduler \<Rightarrow> ('m, 'q, 's) Scheduler option" where
  "push_all env closed [] s = Some s"
| "push_all env closed ((idx, logits) # rest) s =
     (if idx \<ge> length (sd_running s) then None
      else
        let seq = sd_running s ! idx;
            (next, smp) = sampler_sample env (sq_sampler seq) logits (sq_tokens seq)
        in do {
             s \<leftarrow> push_token env closed idx next (set_running idx (seq\<lparr> sq_sampler := smp \<rparr>) s);
             push_all env closed rest s
           })"

definition decode_step :: "('m, 'l, 'q, 's) sched_env \<Rightarrow> (seq_id \<Rightarrow> bool) \<Rightarrow> ('m, 'q, 's) Scheduler \<Rightarrow> ('m, 'q, 's) Scheduler option" where
  "decode_step env closed s =
     (let candidates = map (\<lambda>x. (sq_id x, length (sq_tokens x) + 1)) (filter is_decode (sd_running s))
      in if candidates = [] then Some s
         else
           let s = decode_room env candidates s;
               batch = filter (\<lambda>(i, x). is_decode x) (List.enumerate 0 (sd_running s))
           in if batch = [] then Some s
              else if \<exists>(i, x) \<in> set batch. sq_tokens x = [] then None
              else
                let (res, model) = bm_decode env (map (\<lambda>(i, x). (sq_id x, last (sq_tokens x))) batch) (sd_model s);
                    s = s\<lparr> sd_model := model \<rparr>
                in (case res of
                      Inl _ \<Rightarrow> fail_all env closed (rev (map fst batch)) s
                    | Inr all_logits \<Rightarrow> push_all env closed (rev (zip (map fst batch) all_logits)) s))"

definition step :: "('m, 'l, 'q, 's) sched_env \<Rightarrow> (seq_id \<Rightarrow> bool) \<Rightarrow> ('m, 'q, 's) Scheduler \<Rightarrow> ('m, 'q, 's) Scheduler option" where
  "step env closed s = do { s \<leftarrow> prefill_one_chunk env closed (admit s); decode_step env closed s }"

text \<open>\<open>run\<close>: one turn of the engine loop drains the pending requests and steps. The state
  is unchanged while the loop blocks on an empty channel.\<close>

definition run_turn :: "('m, 'l, 'q, 's) sched_env \<Rightarrow> (seq_id \<Rightarrow> bool) \<Rightarrow> 'q Request list \<Rightarrow> ('m, 'q, 's) Scheduler \<Rightarrow> ('m, 'q, 's) Scheduler option" where
  "run_turn env closed pending s =
     (if sd_waiting s = [] \<and> sd_running s = [] \<and> pending = [] then Some s
      else step env closed (fold (enqueue env closed) pending s))"

end
