(* ===== verification/Cgn_Sched_Inv.thy ===== *)
theory Cgn_Sched_Inv
  imports Cgn_Scheduler
begin

text \<open>
  What the scheduler keeps. The operations of \<open>Cgn_Scheduler\<close> are shown to be sequences of
  a few abstract transitions (admit, grow a reservation, update a running sequence and stream text,
  finish, preempt); invariants are proved once on the transitions, by rule induction, and hold for
  the code's operations by refinement.
\<close>

section \<open>Abstract transitions\<close>

definition live_seqs :: "('m, 'q, 's) Scheduler \<Rightarrow> ('q, 's) Sequence list" where
  "live_seqs s = sd_running s @ sd_waiting s"

definition live_ids :: "('m, 'q, 's) Scheduler \<Rightarrow> seq_id list" where
  "live_ids s = map sq_id (live_seqs s)"

definition finals :: "('m, 'q, 's) Scheduler \<Rightarrow> seq_id list" where
  "finals s = map fst (filter (\<lambda>(_, e). ev_finish_reason e \<noteq> None) (sd_sent s))"

text \<open>Well-formedness of one sequence: \<open>tokens\<close> is prompt then generated, the prompt fits the
  context window, the prefill position is inside the prompt, and generation is below its budget.\<close>

definition seq_ok :: "('m, 'l, 'q, 's) sched_env \<Rightarrow> ('q, 's) Sequence \<Rightarrow> bool" where
  "seq_ok env x \<longleftrightarrow>
     sq_tokens x = rq_prompt_tokens (sq_req x) @ sq_generated x
     \<and> sq_prompt_len x = length (rq_prompt_tokens (sq_req x))
     \<and> 0 < sq_prompt_len x \<and> sq_prompt_len x < bm_max_seq_len env
     \<and> (case sq_phase x of Prefill d \<Rightarrow> d \<le> sq_prompt_len x | Decode \<Rightarrow> True)
     \<and> (sq_generated x = [] \<or> length (sq_generated x) < budget x (bm_max_seq_len env))"

definition same_seq :: "('q, 's) Sequence \<Rightarrow> ('q, 's) Sequence \<Rightarrow> bool" where
  "same_seq x y \<longleftrightarrow> sq_id y = sq_id x \<and> sq_req y = sq_req x \<and> sq_prompt_len y = sq_prompt_len x
     \<and> sq_admitted_at y = sq_admitted_at x"

definition event_of :: "('q, 's) Sequence \<Rightarrow> StreamEvent \<Rightarrow> bool" where
  "event_of x e \<longleftrightarrow> ev_prompt_tokens e = sq_prompt_len x
     \<and> ev_completion_tokens e \<in> {length (sq_generated x), Suc (length (sq_generated x))}"

definition delta_events :: "(seq_id \<Rightarrow> bool) \<Rightarrow> ('q, 's) Sequence \<Rightarrow> StreamEvent list \<Rightarrow> bool" where
  "delta_events closed x es \<longleftrightarrow>
     (closed (sq_id x) \<longrightarrow> es = []) \<and> (\<forall>e \<in> set es. event_of x e \<and> ev_finish_reason e = None)"

definition final_events :: "(seq_id \<Rightarrow> bool) \<Rightarrow> ('q, 's) Sequence \<Rightarrow> StreamEvent list \<Rightarrow> bool" where
  "final_events closed x es \<longleftrightarrow>
     (if closed (sq_id x) then es = []
      else \<exists>ds f. es = ds @ [f] \<and> delta_events closed x ds \<and> event_of x f \<and> ev_finish_reason f \<noteq> None)"

inductive sched_tr :: "('m, 'l, 'q, 's) sched_env \<Rightarrow> (seq_id \<Rightarrow> bool) \<Rightarrow> ('m, 'q, 's) Scheduler \<Rightarrow> ('m, 'q, 's) Scheduler \<Rightarrow> bool"
  for env :: "('m, 'l, 'q, 's) sched_env" and closed :: "seq_id \<Rightarrow> bool" where
  tr_model: "sched_tr env closed s (s\<lparr> sd_model := m \<rparr>)"
| tr_grow: "sid \<in> sq_id ` set (sd_running s) \<Longrightarrow>
    sched_tr env closed s (s\<lparr> sd_pool := snd (reserve sid n (sd_pool s)) \<rparr>)"
| tr_admit: "length (sd_running s) < sc_max_batch (sd_cfg s) \<Longrightarrow> sd_waiting s = x # rest \<Longrightarrow>
    fst (reserve (sq_id x) (sq_prompt_len x + 1) (sd_pool s)) \<Longrightarrow>
    sched_tr env closed s
      (s\<lparr> sd_pool := snd (reserve (sq_id x) (sq_prompt_len x + 1) (sd_pool s)), sd_waiting := rest,
          sd_tick := sd_tick s + 1, sd_running := sd_running s @ [x\<lparr> sq_admitted_at := sd_tick s + 1 \<rparr>] \<rparr>)"
| tr_update: "idx < length (sd_running s) \<Longrightarrow> x = sd_running s ! idx \<Longrightarrow> same_seq x y \<Longrightarrow>
    seq_ok env y \<Longrightarrow> delta_events closed x es \<Longrightarrow>
    sched_tr env closed s
      (s\<lparr> sd_running := (sd_running s)[idx := y], sd_sent := sd_sent s @ map (Pair (sq_id x)) es \<rparr>)"
| tr_finish: "idx < length (sd_running s) \<Longrightarrow> x = sd_running s ! idx \<Longrightarrow> final_events closed x es \<Longrightarrow>
    sched_tr env closed s ((take_out env idx s)\<lparr> sd_sent := sd_sent s @ map (Pair (sq_id x)) es \<rparr>)"
| tr_preempt: "idx < length (sd_running s) \<Longrightarrow> x = sd_running s ! idx \<Longrightarrow>
    sched_tr env closed s ((take_out env idx s)\<lparr> sd_waiting := x\<lparr> sq_phase := Prefill 0 \<rparr> # sd_waiting s \<rparr>)"

section \<open>Invariants of the transitions\<close>

definition sched_inv :: "('m, 'l, 'q, 's) sched_env \<Rightarrow> ('m, 'q, 's) Scheduler \<Rightarrow> bool" where
  "sched_inv env s \<longleftrightarrow>
     pool_ok (sd_pool s)
     \<and> length (sd_running s) \<le> sc_max_batch (sd_cfg s)
     \<and> distinct (live_ids s @ finals s)
     \<and> (\<forall>i \<in> set (live_ids s) \<union> fst ` set (sd_sent s). i < sd_next_id s)
     \<and> (\<forall>x \<in> set (live_seqs s). seq_ok env x)
     \<and> (\<forall>i. 0 < held_by (sd_pool s) i \<longrightarrow> i \<in> sq_id ` set (sd_running s))
     \<and> (\<forall>x \<in> set (sd_running s). blocks_for (sq_prompt_len x + 1) \<le> held_by (sd_pool s) (sq_id x))"

text \<open>No id is lost: it stays live, or its final event has been delivered, or its client left.\<close>

definition no_loss :: "(seq_id \<Rightarrow> bool) \<Rightarrow> ('m, 'q, 's) Scheduler \<Rightarrow> ('m, 'q, 's) Scheduler \<Rightarrow> bool" where
  "no_loss closed s s' \<longleftrightarrow>
     set (live_ids s') \<subseteq> set (live_ids s) \<and> set (finals s) \<subseteq> set (finals s')
     \<and> (\<forall>i \<in> set (live_ids s). i \<in> set (live_ids s') \<or> i \<in> set (finals s') \<or> closed i)"

lemma no_loss_refl: "no_loss closed s s"
  by (simp add: no_loss_def)

lemma no_loss_trans: "no_loss closed s t \<Longrightarrow> no_loss closed t u \<Longrightarrow> no_loss closed s u"
  unfolding no_loss_def by blast

lemma sd_simps_take_out [simp]:
  "sd_running (take_out env idx s) = remove_at idx (sd_running s)"
  "sd_pool (take_out env idx s) = release (sq_id (sd_running s ! idx)) (sd_pool s)"
  "sd_waiting (take_out env idx s) = sd_waiting s" "sd_cfg (take_out env idx s) = sd_cfg s"
  "sd_next_id (take_out env idx s) = sd_next_id s" "sd_sent (take_out env idx s) = sd_sent s"
  "sd_tick (take_out env idx s) = sd_tick s"
  by (simp_all add: take_out_def Let_def)

lemma finals_append:
  "finals (s\<lparr> sd_sent := l @ map (Pair i) es \<rparr>) =
     finals (s\<lparr> sd_sent := l \<rparr>) @ map (\<lambda>_. i) (filter (\<lambda>e. ev_finish_reason e \<noteq> None) es)"
  by (induction es) (auto simp: finals_def)

lemma delta_events_finals: "delta_events closed x es \<Longrightarrow> filter (\<lambda>e. ev_finish_reason e \<noteq> None) es = []"
  by (auto simp: delta_events_def filter_empty_conv)

lemma final_events_finals:
  "final_events closed x es \<Longrightarrow>
   map (\<lambda>_. i) (filter (\<lambda>e. ev_finish_reason e \<noteq> None) es) = (if closed (sq_id x) then [] else [i])"
  by (auto simp: final_events_def delta_events_finals simp del: not_None_eq split: if_splits)

lemma live_ids_remove:
  "idx < length (sd_running s) \<Longrightarrow>
   mset (live_ids s) = add_mset (sq_id (sd_running s ! idx)) (mset (map sq_id (remove_at idx (sd_running s) @ sd_waiting s)))"
  using mset_remove_at [of idx "map sq_id (sd_running s)"]
  by (simp add: live_ids_def live_seqs_def map_remove_at)

lemma finals_cong: "sd_sent s = sd_sent t \<Longrightarrow> finals s = finals t"
  by (simp add: finals_def)

lemma live_ids_cong: "sd_running s = sd_running t \<Longrightarrow> sd_waiting s = sd_waiting t \<Longrightarrow> live_ids s = live_ids t"
  by (simp add: live_ids_def live_seqs_def)

lemma distinct_mset: "mset xs = mset ys \<Longrightarrow> distinct xs \<longleftrightarrow> distinct ys"
  by (rule mset_eq_imp_distinct_iff)

text \<open>What each transition does to the ids and to the final events.\<close>

lemma tr_ids:
  assumes "sched_tr env closed s s'"
  shows "\<exists>gone. mset (live_ids s) = mset (live_ids s') + mset gone
     \<and> finals s' = finals s @ filter (\<lambda>i. \<not> closed i) gone \<and> sd_next_id s' = sd_next_id s
     \<and> sd_cfg s' = sd_cfg s"
  using assms
proof (cases rule: sched_tr.cases)
  case (tr_update idx x y es)
  have "map sq_id ((sd_running s)[idx := y]) = map sq_id (sd_running s)"
    using tr_update by (simp add: map_update same_seq_def list_update_same_conv)
  moreover have "finals s' = finals s"
    using tr_update finals_append [where s = s and l = "sd_sent s" and i = "sq_id x" and es = es] delta_events_finals [of closed x es]
    by (simp add: finals_def)
  ultimately show ?thesis
    using tr_update by (intro exI [of _ "[]"]) (simp add: live_ids_def live_seqs_def)
next
  case (tr_finish idx x es)
  let ?gone = "[sq_id x]"
  have "mset (live_ids s) = mset (live_ids s') + mset ?gone"
    using tr_finish live_ids_remove [of idx s] by (simp add: live_ids_def live_seqs_def)
  moreover have "finals s' = finals s @ filter (\<lambda>i. \<not> closed i) ?gone"
    using tr_finish finals_append [where s = s and l = "sd_sent s" and i = "sq_id x" and es = es] final_events_finals [of closed x es "sq_id x"]
    by (simp add: finals_def)
  moreover have "sd_next_id s' = sd_next_id s" "sd_cfg s' = sd_cfg s" using tr_finish by simp_all
  ultimately show ?thesis by blast
next
  case (tr_preempt idx x)
  have "mset (live_ids s) = mset (live_ids s')"
    using tr_preempt live_ids_remove [of idx s] by (simp add: live_ids_def live_seqs_def)
  with tr_preempt show ?thesis by (intro exI [of _ "[]"]) (simp add: finals_def)
qed (auto intro!: exI [of _ "[]"] simp: live_ids_def live_seqs_def finals_def)

lemma tr_no_loss: "sched_tr env closed s s' \<Longrightarrow> no_loss closed s s'"
proof -
  assume "sched_tr env closed s s'"
  from tr_ids [OF this] obtain gone where *: "mset (live_ids s) = mset (live_ids s') + mset gone"
    "finals s' = finals s @ filter (\<lambda>i. \<not> closed i) gone" by blast
  from *(1) have "set (live_ids s) = set (live_ids s') \<union> set gone"
    by (metis set_mset_mset set_mset_union)
  with *(2) show ?thesis by (auto simp: no_loss_def)
qed

lemma tr_distinct:
  assumes "sched_tr env closed s s'" and "distinct (live_ids s @ finals s)"
  shows "distinct (live_ids s' @ finals s')"
proof -
  from tr_ids [OF assms(1)] obtain gone where *: "mset (live_ids s) = mset (live_ids s' @ gone)"
    "finals s' = finals s @ filter (\<lambda>i. \<not> closed i) gone" by auto
  from *(1) assms(2) have "distinct (live_ids s' @ gone @ finals s)"
    by (metis append.assoc distinct_mset mset_append)
  with *(2) show ?thesis by auto
qed

lemma held_by_release: "held_by (release i p) j = (if j = i then 0 else held_by p j)"
  by (simp add: kp.give_back_has kp.give_back_other)

lemma held_by_reserve_mono: "pool_ok p \<Longrightarrow> held_by p j \<le> held_by (snd (reserve i n p)) j"
  by (cases "j = i"; cases "fst (reserve i n p)") (simp_all add: kp.grow_has kp.grow_other kp.grow_no)

lemma held_by_reserve_other: "j \<noteq> i \<Longrightarrow> held_by (snd (reserve i n p)) j = held_by p j"
  by (rule kp.grow_other)

lemma seq_ok_admitted [simp]: "seq_ok env (x\<lparr> sq_admitted_at := t \<rparr>) = seq_ok env x"
  by (cases "sq_phase x") (simp_all add: seq_ok_def budget_def)

lemma seq_ok_restart: "seq_ok env x \<Longrightarrow> seq_ok env (x\<lparr> sq_phase := Prefill 0 \<rparr>)"
  by (auto simp: seq_ok_def budget_def)

lemma inv_running_id:
  assumes "sched_inv env s" and "idx < length (sd_running s)"
    and "x \<in> set (remove_at idx (sd_running s))"
  shows "sq_id x \<noteq> sq_id (sd_running s ! idx)"
proof -
  have "distinct (map sq_id (sd_running s))"
    using assms(1) by (simp add: sched_inv_def live_ids_def live_seqs_def)
  then have "map sq_id (sd_running s) ! idx \<notin> set (remove_at idx (map sq_id (sd_running s)))"
    using assms(2) distinct_remove_at [of "map sq_id (sd_running s)" idx] by simp
  moreover have "sq_id x \<in> set (remove_at idx (map sq_id (sd_running s)))"
    using assms(3) by (simp flip: map_remove_at)
  ultimately show ?thesis using assms(2) by auto
qed

lemma inv_waiting_id:
  "sched_inv env s \<Longrightarrow> x \<in> set (sd_running s) \<Longrightarrow> y \<in> set (sd_waiting s) \<Longrightarrow> sq_id x \<noteq> sq_id y"
  by (auto simp: sched_inv_def live_ids_def live_seqs_def)

lemma inv_new_ids:
  assumes tr: "sched_tr env closed s s'" and inv: "sched_inv env s"
  shows "\<forall>i \<in> set (live_ids s') \<union> fst ` set (sd_sent s'). i < sd_next_id s'"
proof -
  from tr_no_loss [OF tr] have "set (live_ids s') \<subseteq> set (live_ids s)" by (simp add: no_loss_def)
  moreover from tr_ids [OF tr] have "sd_next_id s' = sd_next_id s" by blast
  moreover from tr have "fst ` set (sd_sent s') \<subseteq> fst ` set (sd_sent s) \<union> set (live_ids s)"
    by (cases rule: sched_tr.cases) (auto simp: live_ids_def live_seqs_def)
  moreover from inv have "\<forall>i \<in> set (live_ids s) \<union> fst ` set (sd_sent s). i < sd_next_id s"
    unfolding sched_inv_def by blast
  ultimately show ?thesis by auto
qed

lemma tr_inv_pool:
  assumes tr: "sched_tr env closed s s'" and inv: "sched_inv env s"
  shows "pool_ok (sd_pool s')
    \<and> (\<forall>i. 0 < held_by (sd_pool s') i \<longrightarrow> i \<in> sq_id ` set (sd_running s'))
    \<and> (\<forall>x \<in> set (sd_running s'). blocks_for (sq_prompt_len x + 1) \<le> held_by (sd_pool s') (sq_id x))"
proof -
  note I = inv [unfolded sched_inv_def]
  have ok: "pool_ok (sd_pool s)" using I by blast
  have own: "\<forall>i. 0 < held_by (sd_pool s) i \<longrightarrow> i \<in> sq_id ` set (sd_running s)" using I by blast
  have cov: "\<forall>x \<in> set (sd_running s). blocks_for (sq_prompt_len x + 1) \<le> held_by (sd_pool s) (sq_id x)"
    using I by blast
  have out1: "i \<in> sq_id ` set (remove_at idx (sd_running s))"
    if "0 < held_by (release (sq_id (sd_running s ! idx)) (sd_pool s)) i" "idx < length (sd_running s)" for i idx
    using that(1) own set_remove_at [OF that(2)] by (auto simp: held_by_release split: if_splits)
  have out2: "blocks_for (sq_prompt_len x + 1) \<le> held_by (release (sq_id (sd_running s ! idx)) (sd_pool s)) (sq_id x)"
    if "x \<in> set (remove_at idx (sd_running s))" "idx < length (sd_running s)" for x idx
    using that cov set_remove_at [OF that(2)] inv_running_id [OF inv that(2,1)] by (simp add: held_by_release)
  from tr show ?thesis
  proof (cases rule: sched_tr.cases)
    case (tr_grow sid n)
    have "i \<in> sq_id ` set (sd_running s)" if "0 < held_by (snd (reserve sid n (sd_pool s))) i" for i
      using that own tr_grow(2) held_by_reserve_other [of i sid n "sd_pool s"] by (cases "i = sid") auto
    moreover have "blocks_for (sq_prompt_len x + 1) \<le> held_by (snd (reserve sid n (sd_pool s))) (sq_id x)"
      if "x \<in> set (sd_running s)" for x
      using cov that held_by_reserve_mono [OF ok] le_trans by blast
    ultimately show ?thesis using tr_grow ok by (simp add: pool_ok_reserve)
  next
    case (tr_admit x rest)
    let ?p = "snd (reserve (sq_id x) (sq_prompt_len x + 1) (sd_pool s))"
    have "blocks_for (sq_prompt_len x + 1) \<le> held_by ?p (sq_id x)"
      using tr_admit ok by (intro kp.grow_covers)
    moreover have "i = sq_id x \<or> i \<in> sq_id ` set (sd_running s)" if "0 < held_by ?p i" for i
      using that own held_by_reserve_other [of i "sq_id x" "sq_prompt_len x + 1" "sd_pool s"] by (cases "i = sq_id x") auto
    moreover have "blocks_for (sq_prompt_len y + 1) \<le> held_by ?p (sq_id y)" if "y \<in> set (sd_running s)" for y
      using cov that held_by_reserve_mono [OF ok] le_trans by blast
    ultimately show ?thesis using tr_admit ok by (simp add: pool_ok_reserve)
  next
    case (tr_update idx x y es)
    have "map sq_id ((sd_running s)[idx := y]) = map sq_id (sd_running s)"
      using tr_update by (simp add: map_update same_seq_def list_update_same_conv)
    then have ids: "sq_id ` set ((sd_running s)[idx := y]) = sq_id ` set (sd_running s)"
      by (metis list.set_map)
    have "blocks_for (sq_prompt_len z + 1) \<le> held_by (sd_pool s) (sq_id z)"
      if "z \<in> set ((sd_running s)[idx := y])" for z
    proof -
      from that have "z = y \<or> z \<in> set (sd_running s)" by (auto dest: set_update_subset_insert [THEN subsetD])
      with cov tr_update nth_mem [of idx "sd_running s"] show ?thesis by (auto simp: same_seq_def)
    qed
    with ok own ids tr_update show ?thesis by simp
  next
    case (tr_finish idx x es)
    then show ?thesis using ok out1 [of idx] out2 [of _ idx] by (simp add: pool_ok_release)
  next
    case (tr_preempt idx x)
    then show ?thesis using ok out1 [of idx] out2 [of _ idx] by (simp add: pool_ok_release)
  qed (use ok own cov in simp)
qed

lemma tr_inv_seqs:
  assumes tr: "sched_tr env closed s s'" and inv: "sched_inv env s"
  shows "(\<forall>x \<in> set (live_seqs s'). seq_ok env x) \<and> length (sd_running s') \<le> sc_max_batch (sd_cfg s')"
proof -
  note I = inv [unfolded sched_inv_def live_seqs_def]
  from tr show ?thesis
  proof (cases rule: sched_tr.cases)
    case (tr_update idx x y es)
    with I show ?thesis
      by (auto simp: live_seqs_def dest: set_update_subset_insert [THEN subsetD])
  next
    case (tr_finish idx x es)
    with I set_remove_at [of idx "sd_running s"] show ?thesis by (auto simp: live_seqs_def take_out_def Let_def)
  next
    case (tr_preempt idx x)
    with I set_remove_at [of idx "sd_running s"] show ?thesis
      by (auto simp: live_seqs_def take_out_def Let_def intro: seq_ok_restart)
  qed (use I in \<open>auto simp: live_seqs_def\<close>)
qed

theorem tr_inv: "sched_tr env closed s s' \<Longrightarrow> sched_inv env s \<Longrightarrow> sched_inv env s'"
  using tr_inv_pool [of env closed s s'] tr_inv_seqs [of env closed s s'] inv_new_ids [of env closed s s']
    tr_distinct [of env closed s s'] by (auto simp: sched_inv_def)

lemma trs_inv:
  assumes "(sched_tr env closed)\<^sup>*\<^sup>* s s'" and "sched_inv env s"
  shows "sched_inv env s' \<and> no_loss closed s s'"
  using assms
  by (induction rule: rtranclp_induct) (auto intro: tr_inv no_loss_refl no_loss_trans tr_no_loss)

section \<open>The code's operations are sequences of transitions\<close>

definition exact_events :: "('q, 's) Sequence \<Rightarrow> StreamEvent list \<Rightarrow> bool" where
  "exact_events y es \<longleftrightarrow> (\<forall>e \<in> set es. ev_prompt_tokens e = sq_prompt_len y
     \<and> ev_completion_tokens e = length (sq_generated y))"

text \<open>\<open>finish\<close> takes the sequence out and sends at most one flush and exactly one final event.\<close>

lemma finish_Some:
  assumes "finish env closed idx reason s = Some s'"
  shows "idx < length (sd_running s) \<and> (\<exists>es. s' = (take_out env idx s)\<lparr> sd_sent := sd_sent s @ map (Pair (sq_id (sd_running s ! idx))) es \<rparr>
    \<and> exact_events (sd_running s ! idx) es
    \<and> (if closed (sq_id (sd_running s ! idx)) then es = []
       else \<exists>ds f. es = ds @ [f] \<and> ev_finish_reason f = Some reason \<and> (\<forall>e \<in> set ds. ev_finish_reason e = None)))"
proof -
  let ?x = "sd_running s ! idx"
  let ?ev = "\<lambda>d r. \<lparr> ev_delta = d, ev_finish_reason = r, ev_prompt_tokens = sq_prompt_len ?x,
      ev_completion_tokens = length (sq_generated ?x) \<rparr>"
  have keep: "take_out env idx s = (take_out env idx s)\<lparr> sd_sent := sd_sent s \<rparr>" by (simp add: take_out_def Let_def)
  have idx: "idx < length (sd_running s)" using assms by (auto simp: finish_def split: if_splits)
  show ?thesis
  proof (cases "closed (sq_id ?x)")
    case True
    have "s' = take_out env idx s"
      using assms idx True
      by (auto simp: finish_def blocking_send_def Let_def bind_eq_Some_conv split: if_splits sum.splits)
    with idx True keep show ?thesis by (intro conjI exI [of _ "[]"]) (simp_all add: exact_events_def)
  next
    case False
    have "\<exists>ds. (\<forall>e \<in> set ds. \<exists>d. e = ?ev d None) \<and>
        s' = (take_out env idx s)\<lparr> sd_sent := sd_sent s @ map (Pair (sq_id ?x)) (ds @ [?ev [] (Some reason)]) \<rparr>"
    proof (cases "\<exists>t. reason = ''length'' \<and> rq_tokenizer (sq_req ?x) (sq_generated ?x) = Inr t \<and> sq_emitted_len ?x < length t")
      case True
      then obtain t d where "str_slice t (sq_emitted_len ?x) (length t) = Some d" "reason = ''length''"
        "rq_tokenizer (sq_req ?x) (sq_generated ?x) = Inr t" "sq_emitted_len ?x < length t"
        using assms idx by (auto simp: finish_def Let_def bind_eq_Some_conv)
      then show ?thesis using assms idx False
        by (intro exI [of _ "[?ev d None]"]) (simp add: finish_def blocking_send_def Let_def)
    next
      case no: False
      then show ?thesis using assms idx False
        by (intro exI [of _ "[]"]) (auto simp: finish_def blocking_send_def Let_def split: if_splits sum.splits)
    qed
    then obtain ds where ds: "\<forall>e \<in> set ds. \<exists>d. e = ?ev d None"
      and s': "s' = (take_out env idx s)\<lparr> sd_sent := sd_sent s @ map (Pair (sq_id ?x)) (ds @ [?ev [] (Some reason)]) \<rparr>"
      by blast
    from ds have "exact_events ?x (ds @ [?ev [] (Some reason)])" "\<forall>e \<in> set ds. ev_finish_reason e = None"
      by (auto simp: exact_events_def)
    with idx False s' show ?thesis by (intro conjI exI [of _ "ds @ [?ev [] (Some reason)]"]) auto
  qed
qed

lemma take_out_update:
  assumes "idx < length (sd_running s)" and "sq_id y = sq_id (sd_running s ! idx)"
  shows "take_out env idx (s\<lparr> sd_running := (sd_running s)[idx := y], sd_sent := l \<rparr>) = (take_out env idx s)\<lparr> sd_sent := l \<rparr>"
  using assms by (simp add: take_out_def Let_def remove_at_def)

text \<open>Finishing a sequence that was just extended by one token is one transition.\<close>

lemma finish_tr:
  assumes fin: "finish env closed idx reason
      (s\<lparr> sd_running := (sd_running s)[idx := y], sd_sent := sd_sent s @ map (Pair (sq_id x)) pre \<rparr>) = Some s'"
    and idx: "idx < length (sd_running s)" and x: "x = sd_running s ! idx" and same: "same_seq x y"
    and gen: "sq_generated y = sq_generated x \<or> (\<exists>t. sq_generated y = sq_generated x @ [t])"
    and pre: "delta_events closed x pre"
  shows "sched_tr env closed s s'"
proof -
  have yid: "sq_id y = sq_id x" using same by (simp add: same_seq_def)
  from finish_Some [OF fin] idx obtain es where
    s': "s' = (take_out env idx (s\<lparr> sd_running := (sd_running s)[idx := y],
        sd_sent := sd_sent s @ map (Pair (sq_id x)) pre \<rparr>))\<lparr> sd_sent := (sd_sent s @ map (Pair (sq_id x)) pre) @ map (Pair (sq_id y)) es \<rparr>"
    and ex: "exact_events y es"
    and shape: "if closed (sq_id y) then es = []
       else \<exists>ds f. es = ds @ [f] \<and> ev_finish_reason f = Some reason \<and> (\<forall>e \<in> set ds. ev_finish_reason e = None)"
    by auto
  have out: "s' = (take_out env idx s)\<lparr> sd_sent := sd_sent s @ map (Pair (sq_id x)) (pre @ es) \<rparr>"
    using s' take_out_update [OF idx, of y env] yid x by simp
  have ev: "\<forall>e \<in> set es. event_of x e"
    using ex gen same by (auto simp: exact_events_def event_of_def same_seq_def)
  have "final_events closed x (pre @ es)"
  proof (cases "closed (sq_id x)")
    case True
    with shape pre yid show ?thesis by (simp add: final_events_def delta_events_def)
  next
    case False
    with shape yid obtain ds f where es: "es = ds @ [f]" "ev_finish_reason f = Some reason"
      "\<forall>e \<in> set ds. ev_finish_reason e = None" by auto
    have "delta_events closed x (pre @ ds)" "event_of x f"
      using pre es ev False by (auto simp: delta_events_def)
    with es False show ?thesis
      unfolding final_events_def by (simp del: not_None_eq)
  qed
  with idx x show ?thesis unfolding out by (intro tr_finish)
qed

lemma blocking_send_snd:
  "snd (blocking_send closed i ev s) = s\<lparr> sd_sent := sd_sent s @ map (Pair i) (if closed i then [] else [ev]) \<rparr>"
  by (simp add: blocking_send_def)

lemma finish_silent_Some:
  "finish_silent env idx s = Some s' \<longleftrightarrow> idx < length (sd_running s) \<and> s' = take_out env idx s"
  by (auto simp: finish_silent_def)

lemma emit_safe_Some:
  assumes "emit_safe closed idx y text s = Some (alive, s')" and "sd_running s ! idx = y" and "idx < length (sd_running s)"
  shows "\<exists>n es. s' = s\<lparr> sd_running := (sd_running s)[idx := y\<lparr> sq_emitted_len := n \<rparr>],
        sd_sent := sd_sent s @ map (Pair (sq_id y)) es \<rparr>
      \<and> exact_events y es \<and> (\<forall>e \<in> set es. ev_finish_reason e = None) \<and> (closed (sq_id y) \<longrightarrow> es = [])
      \<and> (\<not> alive \<longrightarrow> closed (sq_id y))"
proof (cases "alive \<and> s' = s")
  case True
  with assms(2) show ?thesis
    by (intro exI [of _ "sq_emitted_len y"] exI [of _ "[]"]) (auto simp: exact_events_def)
next
  case False
  with assms(1) obtain d ev where ev: "ev = \<lparr> ev_delta = d, ev_finish_reason = None,
      ev_prompt_tokens = sq_prompt_len y, ev_completion_tokens = length (sq_generated y) \<rparr>"
    and "blocking_send closed (sq_id y) ev
          (set_running idx (y\<lparr> sq_emitted_len := held_back_len text (rq_stop (sq_req y)) \<rparr>) s) = (alive, s')"
    by (auto simp: emit_safe_def Let_def bind_eq_Some_conv split: if_splits)
  then show ?thesis
    by (intro exI [of _ "held_back_len text (rq_stop (sq_req y))"] exI [of _ "if closed (sq_id y) then [] else [ev]"])
      (auto simp: blocking_send_def set_running_def exact_events_def split: if_splits)
qed

lemma exact_delta_events:
  assumes "exact_events y es" and "\<forall>e \<in> set es. ev_finish_reason e = None" and "closed (sq_id y) \<longrightarrow> es = []"
    and "same_seq x y" and "sq_generated y = sq_generated x @ [t]"
  shows "delta_events closed x es"
  using assms by (auto simp: delta_events_def exact_events_def event_of_def same_seq_def)

text \<open>\<open>push_text\<close> runs on a state whose \<open>running[idx]\<close> is \<open>x\<close> extended by one token.\<close>

lemma push_text_tr:
  assumes push: "push_text env closed idx y text (s\<lparr> sd_running := (sd_running s)[idx := y] \<rparr>) = Some s'"
    and idx: "idx < length (sd_running s)" and x: "x = sd_running s ! idx" and ok: "seq_ok env x"
    and y: "y = x\<lparr> sq_generated := sq_generated x @ [t], sq_tokens := sq_tokens x @ [t] \<rparr>"
  shows "sched_tr env closed s s'"
proof -
  let ?st = "\<lambda>z es. s\<lparr> sd_running := (sd_running s)[idx := z], sd_sent := sd_sent s @ map (Pair (sq_id x)) es \<rparr>"
  let ?s1 = "s\<lparr> sd_running := (sd_running s)[idx := y] \<rparr>"
  have same: "same_seq x (y\<lparr> sq_emitted_len := n \<rparr>)" "same_seq x y" for n by (simp_all add: same_seq_def y)
  have yid: "sq_id y = sq_id x" by (simp add: y)
  have fin: "sched_tr env closed s s'" if "finish env closed idx r (?st z es) = Some s'"
    "z = y \<or> (\<exists>n. z = y\<lparr> sq_emitted_len := n \<rparr>)" "delta_events closed x es" for r z es
    using that(2) by (intro finish_tr [OF that(1) idx x _ _ that(3)]) (auto simp: y same_seq_def)
  have at: "sd_running ?s1 ! idx = y" "idx < length (sd_running ?s1)" using idx by simp_all
  show ?thesis
  proof (cases "first_stop text (rq_stop (sq_req y))")
    case (Some hit)
    define ev where "ev = \<lparr> ev_delta = stop_delta text hit (sq_emitted_len y), ev_finish_reason = None,
      ev_prompt_tokens = sq_prompt_len y, ev_completion_tokens = length (sq_generated y) \<rparr>"
    let ?es = "if closed (sq_id x) then [] else [ev]"
    have d: "delta_events closed x ?es"
      by (rule exact_delta_events [OF _ _ _ same(2)]) (auto simp: exact_events_def ev_def y)
    have d0: "delta_events closed x []" by (simp add: delta_events_def)
    from push Some have "finish env closed idx ''stop'' (?st (y\<lparr> sq_emitted_len := hit \<rparr>) ?es) = Some s'
        \<or> finish env closed idx ''stop'' (?st y []) = Some s'"
      by (auto simp: push_text_def Let_def blocking_send_snd set_running_def ev_def yid split: if_splits)
    then show ?thesis
    proof
      assume "finish env closed idx ''stop'' (?st (y\<lparr> sq_emitted_len := hit \<rparr>) ?es) = Some s'"
      then show ?thesis by (rule fin [OF _ _ d]) blast
    next
      assume "finish env closed idx ''stop'' (?st y []) = Some s'"
      then show ?thesis by (rule fin [OF _ _ d0]) blast
    qed
  next
    case None
    with push obtain alive s2 where em: "emit_safe closed idx y text ?s1 = Some (alive, s2)"
      and rest: "(if \<not> alive then finish_silent env idx s2
        else if length (sq_generated y) \<ge> budget y (bm_max_seq_len env) then finish env closed idx ''length'' s2
        else Some s2) = Some s'"
      by (auto simp: push_text_def bind_eq_Some_conv)
    from emit_safe_Some [OF em at] obtain n es where s2: "s2 = ?st (y\<lparr> sq_emitted_len := n \<rparr>) es"
      and es: "exact_events y es" "\<forall>e \<in> set es. ev_finish_reason e = None" "closed (sq_id y) \<longrightarrow> es = []"
      and dead: "\<not> alive \<longrightarrow> closed (sq_id y)" by (auto simp: yid)
    have d: "delta_events closed x es" using es same(2) by (intro exact_delta_events [where y = y and t = t]) (simp_all add: y)
    from rest have "(\<not> alive \<and> finish_silent env idx s2 = Some s') \<or> finish env closed idx ''length'' s2 = Some s'
        \<or> (s' = s2 \<and> length (sq_generated y) < budget y (bm_max_seq_len env))"
      by (cases alive; cases "budget y (bm_max_seq_len env) \<le> length (sq_generated y)") simp_all
    then consider "\<not> alive" "finish_silent env idx s2 = Some s'" | "finish env closed idx ''length'' s2 = Some s'"
      | "s' = s2" "length (sq_generated y) < budget y (bm_max_seq_len env)" by blast
    then show ?thesis
    proof cases
      case 1
      with dead es yid have "es = []" "closed (sq_id x)" by auto
      with 1 s2 have "s' = (take_out env idx s)\<lparr> sd_sent := sd_sent s @ map (Pair (sq_id x)) [] \<rparr>"
        using yid x idx by (simp add: finish_silent_Some take_out_def Let_def remove_at_def)
      then show ?thesis using \<open>closed (sq_id x)\<close> by (simp only:) (rule tr_finish [OF idx x], simp add: final_events_def)
    next
      case 2
      show ?thesis by (rule fin [OF 2 [unfolded s2] _ d]) blast
    next
      case 3
      have "seq_ok env (y\<lparr> sq_emitted_len := n \<rparr>)"
        using ok 3 by (auto simp: seq_ok_def y budget_def split: Phase.splits)
      then show ?thesis unfolding 3 s2 by (intro tr_update [OF idx x same(1) _ d])
    qed
  qed
qed

lemma push_token_tr:
  assumes push: "push_token env closed idx token s = Some s'" and ok: "seq_ok env (sd_running s ! idx)"
  shows "sched_tr env closed s s'"
proof -
  define x where "x = sd_running s ! idx"
  define y where "y = x\<lparr> sq_generated := sq_generated x @ [token], sq_tokens := sq_tokens x @ [token] \<rparr>"
  have idx: "idx < length (sd_running s)" using push by (auto simp: push_token_def split: if_splits)
  have fin: "sched_tr env closed s s'" if "finish env closed idx r
      (s\<lparr> sd_running := (sd_running s)[idx := z], sd_sent := sd_sent s @ map (Pair (sq_id x)) [] \<rparr>) = Some s'"
    "z = x \<or> z = y" for r z
    using that by (intro finish_tr [OF that(1) idx x_def]) (auto simp: same_seq_def y_def delta_events_def)
  consider "finish env closed idx ''stop'' s = Some s'"
    | "finish env closed idx ''error'' (s\<lparr> sd_running := (sd_running s)[idx := y] \<rparr>) = Some s'"
    | tx where "push_text env closed idx y tx (s\<lparr> sd_running := (sd_running s)[idx := y] \<rparr>) = Some s'"
    using push idx by (auto simp: push_token_def Let_def set_running_def y_def x_def split: if_splits sum.splits)
  then show ?thesis
  proof cases
    case 1
    with fin [of "''stop''" x] idx show ?thesis by (simp add: x_def)
  next
    case 2
    with fin [of "''error''" y] show ?thesis by simp
  next
    case 3
    then show ?thesis using ok by (intro push_text_tr [OF _ idx refl ok]) (auto simp: y_def x_def)
  qed
qed

lemma finish_plain_tr:
  assumes "finish env closed idx reason s = Some s'"
  shows "sched_tr env closed s s'"
proof -
  have idx: "idx < length (sd_running s)" using finish_Some [OF assms] by blast
  then have "finish env closed idx reason (s\<lparr> sd_running := (sd_running s)[idx := sd_running s ! idx],
      sd_sent := sd_sent s @ map (Pair (sq_id (sd_running s ! idx))) [] \<rparr>) = Some s'"
    using assms by simp
  then show ?thesis by (rule finish_tr [OF _ idx refl]) (simp_all add: same_seq_def delta_events_def)
qed

text \<open>An update of the phase or the sampler state only.\<close>

lemma set_running_tr:
  assumes "idx < length (sd_running s)" and "same_seq (sd_running s ! idx) y" and "seq_ok env y"
  shows "sched_tr env closed s (set_running idx y s)"
  using tr_update [OF assms(1) refl assms(2,3), of closed "[]"] by (simp add: set_running_def delta_events_def)

lemma admit_trs: "(sched_tr env closed)\<^sup>*\<^sup>* s (admit s)"
proof (induction s rule: admit.induct)
  case (1 s)
  show ?case
  proof (cases "length (sd_running s) < sc_max_batch (sd_cfg s) \<and> sd_waiting s \<noteq> []")
    case True
    then obtain x rest where x: "sd_waiting s = x # rest" by (cases "sd_waiting s") auto
    obtain b pool where r: "reserve (sq_id x) (sq_prompt_len x + 1) (sd_pool s) = (b, pool)" by fastforce
    show ?thesis
    proof (cases b)
      case b: True
      let ?s1 = "s\<lparr> sd_pool := pool, sd_waiting := rest, sd_tick := sd_tick s + 1,
          sd_running := sd_running s @ [x\<lparr> sq_admitted_at := sd_tick s + 1 \<rparr>] \<rparr>"
      have "sched_tr env closed s ?s1" using tr_admit [of s x rest env closed] True x r b by simp
      moreover have "(sched_tr env closed)\<^sup>*\<^sup>* ?s1 (admit ?s1)"
        by (rule 1 [where x = True and y = pool]) (use True x r b in simp_all)
      moreover have "admit s = admit ?s1" using True x r b by (simp add: admit.simps [of s])
      ultimately show ?thesis by (simp add: converse_rtranclp_into_rtranclp)
    next
      case False
      with r kp.grow_no [of "sq_id x" "sq_prompt_len x + 1" "sd_pool s"] have "pool = sd_pool s" by simp
      with True x r False have "admit s = s" by (simp add: admit.simps [of s])
      then show ?thesis by simp
    qed
  next
    case False
    then have "admit s = s" by (auto simp: admit.simps [of s] split: list.splits)
    then show ?thesis by simp
  qed
qed

lemma preempt_trs: "(sched_tr env closed)\<^sup>*\<^sup>* s (preempt env v s)"
proof (cases "position (\<lambda>x. sq_id x = v) (sd_running s)")
  case (Some idx)
  from position_Some [OF Some] have idx: "idx < length (sd_running s)" by blast
  show ?thesis using tr_preempt [OF idx refl, of env closed] Some by (auto simp: preempt_def Let_def)
qed (simp add: preempt_def)

lemma preempt_running:
  "sd_running (preempt env v s) =
     (case position (\<lambda>x. sq_id x = v) (sd_running s) of None \<Rightarrow> sd_running s | Some idx \<Rightarrow> remove_at idx (sd_running s))"
  by (simp add: preempt_def Let_def split: option.splits)

lemma preempt_keeps:
  assumes "sid \<in> sq_id ` set (sd_running s)" and "v \<noteq> sid"
  shows "sid \<in> sq_id ` set (sd_running (preempt env v s))"
proof (cases "position (\<lambda>x. sq_id x = v) (sd_running s)")
  case (Some idx)
  with position_Some [OF Some] set_remove_at [of idx "sd_running s"] assms show ?thesis
    by (auto simp: preempt_running)
qed (use assms in \<open>simp add: preempt_running\<close>)

lemma victim_neq: "victim sid s = Some v \<Longrightarrow> v \<noteq> sid"
  by (auto simp: victim_def dest!: max_by_key_Some)

lemma ensure_room_trs:
  "sid \<in> sq_id ` set (sd_running s) \<Longrightarrow> (sched_tr env closed)\<^sup>*\<^sup>* s (snd (ensure_room env sid need s))"
proof (induction env sid need s rule: ensure_room.induct)
  case (1 env sid need s)
  obtain b pool where r: "reserve sid need (sd_pool s) = (b, pool)" by fastforce
  show ?case
  proof (cases b)
    case True
    then have "snd (ensure_room env sid need s) = s\<lparr> sd_pool := snd (reserve sid need (sd_pool s)) \<rparr>"
      using r by (simp add: ensure_room.simps [of env sid need s])
    with tr_grow [OF "1.prems"] show ?thesis by auto
  next
    case False
    show ?thesis
    proof (cases "victim sid s")
      case None
      then show ?thesis using r False preempt_trs by (simp add: ensure_room.simps [of env sid need s])
    next
      case (Some v)
      have "(sched_tr env closed)\<^sup>*\<^sup>* (preempt env v s) (snd (ensure_room env sid need (preempt env v s)))"
        by (rule "1.IH" [where x = False and y = pool])
          (use r False Some preempt_keeps [OF "1.prems" victim_neq [OF Some]] in simp_all)
      with preempt_trs [of env closed s v] Some r False show ?thesis
        by (simp add: ensure_room.simps [of env sid need s])
    qed
  qed
qed

lemma decode_room_trs: "(sched_tr env closed)\<^sup>*\<^sup>* s (decode_room env cs s)"
proof (induction env cs s rule: decode_room.induct)
  case (2 env sid need rest s)
  let ?s1 = "if \<exists>x \<in> set (sd_running s). sq_id x = sid then snd (ensure_room env sid need s) else s"
  have "(sched_tr env closed)\<^sup>*\<^sup>* s ?s1"
  proof (cases "\<exists>x \<in> set (sd_running s). sq_id x = sid")
    case True
    then have "sid \<in> sq_id ` set (sd_running s)" by blast
    from ensure_room_trs [OF this] True show ?thesis by simp
  qed simp
  then show ?case unfolding decode_room.simps by (rule rtranclp_trans) (rule "2")
qed simp

lemma fail_all_trs: "fail_all env closed is s = Some s' \<Longrightarrow> (sched_tr env closed)\<^sup>*\<^sup>* s s'"
proof (induction env closed "is" s rule: fail_all.induct)
  case (2 env closed idx rest s)
  then obtain s1 where "finish env closed idx ''error'' s = Some s1" "fail_all env closed rest s1 = Some s'"
    by (auto simp: bind_eq_Some_conv)
  with 2 finish_plain_tr [of env closed idx "''error''" s s1] show ?case
    by (meson converse_rtranclp_into_rtranclp)
qed simp

lemma inv_seq_ok: "sched_inv env s \<Longrightarrow> idx < length (sd_running s) \<Longrightarrow> seq_ok env (sd_running s ! idx)"
  by (simp add: sched_inv_def live_seqs_def)

lemma seq_ok_sampler [simp]: "seq_ok env (x\<lparr> sq_sampler := r \<rparr>) = seq_ok env x"
  by (cases "sq_phase x") (simp_all add: seq_ok_def budget_def)

lemma seq_ok_phase:
  "seq_ok env x \<Longrightarrow> seq_ok env (x\<lparr> sq_phase := Decode \<rparr>)"
  "seq_ok env x \<Longrightarrow> d \<le> sq_prompt_len x \<Longrightarrow> seq_ok env (x\<lparr> sq_phase := Prefill d \<rparr>)"
  by (auto simp: seq_ok_def budget_def)

text \<open>Sampling and pushing a token for a running sequence.\<close>

lemma update_push_trs:
  assumes "push_token env closed idx t (set_running idx y s) = Some s'" and "idx < length (sd_running s)"
    and "same_seq (sd_running s ! idx) y" and "seq_ok env y"
  shows "(sched_tr env closed)\<^sup>*\<^sup>* s s'"
proof -
  have "sched_tr env closed s (set_running idx y s)" by (rule set_running_tr [OF assms(2-4)])
  moreover have "sched_tr env closed (set_running idx y s) s'"
    by (rule push_token_tr [OF assms(1)]) (use assms in \<open>simp add: set_running_def\<close>)
  ultimately show ?thesis by (meson r_into_rtranclp rtranclp.rtrancl_into_rtrancl)
qed

lemma push_all_trs:
  "push_all env closed bs s = Some s' \<Longrightarrow> sched_inv env s \<Longrightarrow> (sched_tr env closed)\<^sup>*\<^sup>* s s'"
proof (induction env closed bs s rule: push_all.induct)
  case (2 env closed idx logits rest s)
  let ?x = "sd_running s ! idx"
  obtain t smp where smp: "sampler_sample env (sq_sampler ?x) logits (sq_tokens ?x) = (t, smp)" by fastforce
  from "2.prems"(1) have idx: "idx < length (sd_running s)" by (auto split: if_splits)
  with "2.prems"(1) smp obtain s1 where
    s1: "push_token env closed idx t (set_running idx (?x\<lparr> sq_sampler := smp \<rparr>) s) = Some s1"
    and rest: "push_all env closed rest s1 = Some s'" by (auto simp: bind_eq_Some_conv)
  have trs: "(sched_tr env closed)\<^sup>*\<^sup>* s s1"
    by (rule update_push_trs [OF s1 idx]) (simp_all add: same_seq_def inv_seq_ok [OF "2.prems"(2) idx])
  then have "sched_inv env s1" using trs_inv "2.prems"(2) by blast
  with "2.IH" idx smp rest have "(sched_tr env closed)\<^sup>*\<^sup>* s1 s'" using s1 by simp
  with trs show ?case by (rule rtranclp_trans)
qed simp

lemma trs_cons: "sched_tr env closed s t \<Longrightarrow> (sched_tr env closed)\<^sup>*\<^sup>* t u \<Longrightarrow> (sched_tr env closed)\<^sup>*\<^sup>* s u"
  by (rule converse_rtranclp_into_rtranclp)

lemma prefill_one_chunk_trs:
  assumes pf: "prefill_one_chunk env closed s = Some s'" and inv: "sched_inv env s"
  shows "(sched_tr env closed)\<^sup>*\<^sup>* s s'"
proof (cases "position is_prefill (sd_running s)")
  case None
  with pf show ?thesis by (simp add: prefill_one_chunk_def)
next
  case (Some idx)
  let ?x = "sd_running s ! idx"
  from position_Some [OF Some] have idx: "idx < length (sd_running s)" and ph: "is_prefill ?x" by blast+
  then obtain d where d: "sq_phase ?x = Prefill d" by (auto simp: is_prefill_def split: Phase.splits)
  define n where "n = min (sq_prompt_len ?x - d) (sc_prefill_chunk (sd_cfg s))"
  obtain res m where pre: "bm_prefill env (sq_id ?x) (take n (drop d (sq_tokens ?x))) d
      (n = sq_prompt_len ?x - d) (sd_model s) = (res, m)" by fastforce
  let ?s1 = "s\<lparr> sd_model := m \<rparr>"
  have ok: "seq_ok env ?x" by (rule inv_seq_ok [OF inv idx])
  then have "d \<le> sq_prompt_len ?x" using d by (simp add: seq_ok_def)
  then have dn: "d + n \<le> sq_prompt_len ?x" by (simp add: n_def)
  have run: "(case res of
        Inr (Some logits) \<Rightarrow> (let (next, smp) = sampler_sample env (sq_sampler ?x) logits (sq_tokens ?x)
          in push_token env closed idx next (set_running idx (?x\<lparr> sq_phase := Decode, sq_sampler := smp \<rparr>) ?s1))
      | Inr None \<Rightarrow> Some (set_running idx (?x\<lparr> sq_phase := Prefill (d + n) \<rparr>) ?s1)
      | Inl _ \<Rightarrow> finish env closed idx ''error'' ?s1) = Some s'"
    using pf Some d pre
    by (cases res) (auto simp: prefill_one_chunk_def Let_def n_def [symmetric] split: if_splits option.splits)
  have idx1: "idx < length (sd_running ?s1)" using idx by simp
  have "(sched_tr env closed)\<^sup>*\<^sup>* ?s1 s'"
  proof (cases res)
    case (Inl e)
    with run show ?thesis by (auto intro: finish_plain_tr)
  next
    case (Inr lo)
    show ?thesis
    proof (cases lo)
      case None
      have "sched_tr env closed ?s1 (set_running idx (?x\<lparr> sq_phase := Prefill (d + n) \<rparr>) ?s1)"
        using idx1 ok dn by (intro set_running_tr) (simp_all add: same_seq_def seq_ok_phase)
      with Inr None run show ?thesis by auto
    next
      case lo: (Some logits)
      obtain t smp where smp: "sampler_sample env (sq_sampler ?x) logits (sq_tokens ?x) = (t, smp)" by fastforce
      have "push_token env closed idx t (set_running idx (?x\<lparr> sq_phase := Decode, sq_sampler := smp \<rparr>) ?s1) = Some s'"
        using run Inr lo smp by simp
      then show ?thesis
        by (rule update_push_trs [OF _ idx1]) (use ok in \<open>simp_all add: same_seq_def seq_ok_phase\<close>)
    qed
  qed
  then show ?thesis by (rule trs_cons [OF tr_model])
qed

lemma decode_step_trs:
  assumes ds: "decode_step env closed s = Some s'" and inv: "sched_inv env s"
  shows "(sched_tr env closed)\<^sup>*\<^sup>* s s'"
proof -
  define cs where "cs = map (\<lambda>x. (sq_id x, length (sq_tokens x) + 1)) (filter is_decode (sd_running s))"
  define s1 where "s1 = decode_room env cs s"
  define batch where "batch = filter (\<lambda>(i, x). is_decode x) (List.enumerate 0 (sd_running s1))"
  obtain res m where dec: "bm_decode env (map (\<lambda>(i, x). (sq_id x, last (sq_tokens x))) batch) (sd_model s1) = (res, m)"
    by fastforce
  have room: "(sched_tr env closed)\<^sup>*\<^sup>* s s1" unfolding s1_def by (rule decode_room_trs)
  then have "sched_inv env s1" using trs_inv inv by blast
  then have inv1: "sched_inv env (s1\<lparr> sd_model := m \<rparr>)" by (rule tr_inv [OF tr_model [where closed = closed]])
  have "s' = s \<or> s' = s1 \<or> (case res of Inl _ \<Rightarrow> fail_all env closed (rev (map fst batch)) (s1\<lparr> sd_model := m \<rparr>)
      | Inr ls \<Rightarrow> push_all env closed (rev (zip (map fst batch) ls)) (s1\<lparr> sd_model := m \<rparr>)) = Some s'"
    using ds dec unfolding decode_step_def Let_def cs_def [symmetric] s1_def [symmetric] batch_def [symmetric]
    by (auto split: if_splits)
  moreover have "(sched_tr env closed)\<^sup>*\<^sup>* (s1\<lparr> sd_model := m \<rparr>) s'"
    if "(case res of Inl _ \<Rightarrow> fail_all env closed (rev (map fst batch)) (s1\<lparr> sd_model := m \<rparr>)
      | Inr ls \<Rightarrow> push_all env closed (rev (zip (map fst batch) ls)) (s1\<lparr> sd_model := m \<rparr>)) = Some s'"
    using that fail_all_trs push_all_trs [OF _ inv1] by (cases res) fastforce+
  ultimately have "s' = s \<or> s' = s1 \<or> (sched_tr env closed)\<^sup>*\<^sup>* (s1\<lparr> sd_model := m \<rparr>) s'" by blast
  then show ?thesis
  proof (elim disjE)
    assume "(sched_tr env closed)\<^sup>*\<^sup>* (s1\<lparr> sd_model := m \<rparr>) s'"
    then show ?thesis by (rule rtranclp_trans [OF room trs_cons [OF tr_model]])
  qed (use room in simp_all)
qed

theorem step_trs:
  assumes "step env closed s = Some s'" and "sched_inv env s"
  shows "(sched_tr env closed)\<^sup>*\<^sup>* s s'"
proof -
  from assms(1) obtain s1 where p: "prefill_one_chunk env closed (admit s) = Some s1"
    and d: "decode_step env closed s1 = Some s'" by (auto simp: step_def bind_eq_Some_conv)
  have a: "(sched_tr env closed)\<^sup>*\<^sup>* s (admit s)" by (rule admit_trs)
  then have ia: "sched_inv env (admit s)" using trs_inv assms(2) by blast
  have b: "(sched_tr env closed)\<^sup>*\<^sup>* (admit s) s1" by (rule prefill_one_chunk_trs [OF p ia])
  then have "sched_inv env s1" using trs_inv ia by blast
  then have c: "(sched_tr env closed)\<^sup>*\<^sup>* s1 s'" by (rule decode_step_trs [OF d])
  from a b c show ?thesis by (meson rtranclp_trans)
qed

section \<open>Submitting requests\<close>

text \<open>Adding fresh ids to the live ones and to the log keeps the id part of the invariant.\<close>

lemma sched_inv_extend:
  assumes inv: "sched_inv env s"
    and same: "sd_running t = sd_running s" "sd_pool t = sd_pool s" "sd_cfg t = sd_cfg s"
      "sd_next_id t = Suc (sd_next_id s)"
    and live: "live_seqs t = live_seqs s @ new" and ok: "\<forall>x \<in> set new. seq_ok env x"
    and sent: "sd_sent t = sd_sent s @ evs" and ids: "fst ` set evs \<subseteq> {sd_next_id s}"
    and fresh: "distinct (map sq_id new @ map fst (filter (\<lambda>(_, e). ev_finish_reason e \<noteq> None) evs))"
      "set (map sq_id new) \<subseteq> {sd_next_id s}"
  shows "sched_inv env t"
proof -
  have old: "\<forall>i \<in> set (live_ids s) \<union> fst ` set (sd_sent s). i < sd_next_id s"
    and dist: "distinct (live_ids s @ finals s)" using inv unfolding sched_inv_def by blast+
  have lt: "live_ids t = live_ids s @ map sq_id new" by (simp add: live_ids_def live)
  have ft: "finals t = finals s @ map fst (filter (\<lambda>(_, e). ev_finish_reason e \<noteq> None) evs)"
    by (simp add: finals_def sent)
  have sub: "set (finals s) \<subseteq> fst ` set (sd_sent s)" by (auto simp: finals_def)
  have new: "set (map fst (filter (\<lambda>(_, e). ev_finish_reason e \<noteq> None) evs)) \<subseteq> {sd_next_id s}"
    using ids by auto
  have nl: "sd_next_id s \<notin> set (live_ids s)" "sd_next_id s \<notin> set (finals s)" using old sub by auto
  have "distinct (live_ids t @ finals t)"
    using dist fresh new nl unfolding lt ft distinct_append set_append by blast
  moreover have "i < sd_next_id t" if "i \<in> set (live_ids t) \<union> fst ` set (sd_sent t)" for i
  proof -
    from that ids fresh(2) have "i = sd_next_id s \<or> i \<in> set (live_ids s) \<union> fst ` set (sd_sent s)"
      unfolding lt sent set_append image_Un by blast
    with old same(4) show ?thesis by (auto intro: less_SucI)
  qed
  ultimately show ?thesis using inv ok unfolding sched_inv_def same live by auto
qed

lemma enqueue_inv:
  assumes "sched_inv env s"
  shows "sched_inv env (enqueue env closed req s)"
proof (cases "rq_prompt_tokens req = [] \<or> length (rq_prompt_tokens req) \<ge> bm_max_seq_len env")
  case True
  let ?ev = "\<lparr> ev_delta = [], ev_finish_reason = Some ''error'',
      ev_prompt_tokens = length (rq_prompt_tokens req), ev_completion_tokens = 0 \<rparr>"
  show ?thesis
    by (rule sched_inv_extend [OF assms, where new = "[]" and
          evs = "if closed (sd_next_id s) then [] else [(sd_next_id s, ?ev)]"])
      (use True in \<open>simp_all add: enqueue_def Let_def blocking_send_def live_seqs_def\<close>)
next
  case False
  let ?x = "\<lparr> sq_id = sd_next_id s, sq_req = req, sq_phase = Prefill 0, sq_tokens = rq_prompt_tokens req,
      sq_prompt_len = length (rq_prompt_tokens req), sq_generated = [],
      sq_sampler = sampler_new env (rq_params req), sq_emitted_len = 0, sq_admitted_at = 0 \<rparr>"
  show ?thesis
    by (rule sched_inv_extend [OF assms, where new = "[?x]" and evs = "[]"])
      (use False in \<open>simp_all add: enqueue_def Let_def live_seqs_def seq_ok_def\<close>)
qed

lemma scheduler_new_inv: "scheduler_new env m cfg = Some s \<Longrightarrow> sched_inv env s"
  by (auto simp: scheduler_new_def clamp_def sched_inv_def live_ids_def live_seqs_def finals_def pool_ok_new
      bind_eq_Some_conv held_by_def kvpool_new_def pool_ok_def held_sum_def split: if_splits)

end
