(* ===== verification/Cgn_Sched_Props.thy ===== *)
theory Cgn_Sched_Props
  imports Cgn_Sched_Inv
begin

text \<open>
  Properties of the scheduler: the invariant and the fate of every request across a turn of the
  engine loop, room in the KV pool before a decode, and the bound on generated tokens.
\<close>

section \<open>A concrete engine\<close>

text \<open>A runtime whose prefill yields logits on the last chunk only, a constant sampler and a
  tokenizer that renders one letter per token. Its state is the list of prefill calls.\<close>

definition demo_env :: "((seq_id \<times> u32 list) list, unit, unit, unit) sched_env" where
  "demo_env = \<lparr> bm_max_batch = 4, bm_max_seq_len = 64,
     bm_prefill = (\<lambda>sid toks start want m. (Inr (if want then Some () else None), m @ [(sid, toks)])),
     bm_decode = (\<lambda>batch m. (Inr (map (\<lambda>_. ()) batch), m)),
     bm_drop_seq = (\<lambda>sid m. m),
     sampler_new = (\<lambda>_. ()), sampler_sample = (\<lambda>s l toks. (5, ())) \<rparr>"

definition demo_req :: "nat \<Rightarrow> nat \<Rightarrow> unit Request" where
  "demo_req plen mt = \<lparr> rq_prompt_tokens = replicate plen 1, rq_max_tokens = mt, rq_stop = [], rq_params = (),
     rq_tokenizer = (\<lambda>g. Inr (map (\<lambda>_. CHR ''a'') g)), rq_eos_token_id = None \<rparr>"

definition demo_cfg :: "nat \<Rightarrow> SchedulerConfig" where
  "demo_cfg pool = \<lparr> sc_max_batch = 2, sc_prefill_chunk = 8, sc_kv_pool_tokens = pool \<rparr>"

definition demo_start :: "nat \<Rightarrow> ((seq_id \<times> u32 list) list, unit, unit) Scheduler" where
  "demo_start pool = the (scheduler_new demo_env [] (demo_cfg pool))"

lemma demo_start_inv: "sched_inv demo_env (demo_start pool)"
proof -
  have "scheduler_new demo_env [] (demo_cfg pool) \<noteq> None"
    by (simp add: scheduler_new_def demo_env_def demo_cfg_def clamp_def)
  then show ?thesis unfolding demo_start_def by (auto intro: scheduler_new_inv)
qed

section \<open>Turns of the engine loop\<close>

lemma enqueues_inv: "sched_inv env s \<Longrightarrow> sched_inv env (fold (enqueue env closed) reqs s)"
  by (induction reqs arbitrary: s) (auto intro: enqueue_inv)

text \<open>C1: the scheduler's invariant survives every turn of the engine loop, whatever the model,
  the sampler and the tokenizers do: the pool's accounting is exact and only running sequences hold
  blocks, each at least those of its prompt plus one token; the batch is within its limit; request
  ids are unique, no id that already got its final event is still scheduled, and none gets a second
  one; each sequence's tokens are its prompt followed by what it generated, within its budget.\<close>

theorem run_turn_invariant:
  assumes "sched_inv env s" and "run_turn env closed pending s = Some s'"
  shows "sched_inv env s'"
proof (cases "sd_waiting s = [] \<and> sd_running s = [] \<and> pending = []")
  case True
  with assms show ?thesis by (simp add: run_turn_def)
next
  case False
  let ?s = "fold (enqueue env closed) pending s"
  have "sched_inv env ?s" by (rule enqueues_inv [OF assms(1)])
  moreover have "step env closed ?s = Some s'" using assms(2) False by (auto simp: run_turn_def)
  ultimately show ?thesis using step_trs trs_inv by blast
qed

theorem run_turn_invariant_witness:
  "\<exists>s'. run_turn demo_env (\<lambda>_. False) [demo_req 20 3, demo_req 3 9] (demo_start 64) = Some s' \<and> sched_inv demo_env s'"
proof -
  have "run_turn demo_env (\<lambda>_. False) [demo_req 20 3, demo_req 3 9] (demo_start 64) \<noteq> None"
    unfolding Option.is_none_def [symmetric] by code_simp
  then show ?thesis using run_turn_invariant [OF demo_start_inv] by blast
qed

text \<open>C2: a step loses no request. Every sequence that was scheduled is afterwards still
  scheduled, or its client has been sent a final event, or its client has gone away; and a step
  schedules no id that was not scheduled before.\<close>

theorem step_loses_no_request:
  assumes "sched_inv env s" and "step env closed s = Some s'"
  shows "set (live_ids s') \<subseteq> set (live_ids s)
    \<and> (\<forall>i \<in> set (live_ids s). i \<in> set (live_ids s') \<or> i \<in> set (finals s') \<or> closed i)"
  using trs_inv [OF step_trs [OF assms(2,1)] assms(1)] by (simp add: no_loss_def)

theorem step_loses_no_request_witness:
  "\<exists>s'. step demo_env (\<lambda>_. False) (enqueue demo_env (\<lambda>_. False) (demo_req 3 1) (demo_start 64)) = Some s'
     \<and> 1 \<in> set (finals s')"
proof -
  let ?s = "enqueue demo_env (\<lambda>_. False) (demo_req 3 1) (demo_start 64)"
  have inv: "sched_inv demo_env ?s" by (rule enqueue_inv [OF demo_start_inv])
  have "(case step demo_env (\<lambda>_. False) ?s of None \<Rightarrow> False | Some s' \<Rightarrow> live_ids s' = []) \<and> live_ids ?s = [1]"
    by code_simp
  then obtain s' where "step demo_env (\<lambda>_. False) ?s = Some s'" "live_ids s' = []" "live_ids ?s = [1]"
    by (auto split: option.splits)
  with step_loses_no_request [OF inv, of "\<lambda>_. False" s'] show ?thesis by simp
qed

section \<open>Making room\<close>

lemma preempt_pool:
  "sd_pool (preempt env v s) =
     (if v \<in> sq_id ` set (sd_running s) then release v (sd_pool s) else sd_pool s)"
proof (cases "position (\<lambda>x. sq_id x = v) (sd_running s)")
  case None
  then have "v \<notin> sq_id ` set (sd_running s)" by (auto simp: position_None)
  with None show ?thesis by (simp add: preempt_def)
next
  case (Some idx)
  with position_Some [OF Some] have "v = sq_id (sd_running s ! idx)" "idx < length (sd_running s)" by auto
  with Some show ?thesis by (auto simp: preempt_def Let_def)
qed

lemma preempt_subset: "set (sd_running (preempt env v s)) \<subseteq> set (sd_running s)"
proof (cases "position (\<lambda>x. sq_id x = v) (sd_running s)")
  case (Some idx)
  with position_Some [OF Some] set_remove_at [of idx "sd_running s"] show ?thesis by (auto simp: preempt_running)
qed (simp add: preempt_running)

lemma preempt_gone:
  assumes "sched_inv env s" shows "v \<notin> sq_id ` set (sd_running (preempt env v s))"
proof (cases "position (\<lambda>x. sq_id x = v) (sd_running s)")
  case None
  then have "sd_running (preempt env v s) = sd_running s" by (simp add: preempt_running)
  with None show ?thesis by (auto simp: position_None)
next
  case (Some idx)
  from position_Some [OF Some] have idx: "idx < length (sd_running s)" "sq_id (sd_running s ! idx) = v" by auto
  have "\<forall>x \<in> set (remove_at idx (sd_running s)). sq_id x \<noteq> v"
    using inv_running_id [OF assms idx(1)] idx(2) by auto
  with Some show ?thesis by (auto simp: preempt_running)
qed

lemma preempt_inv: "sched_inv env s \<Longrightarrow> sched_inv env (preempt env v s)"
  using preempt_trs [of env "\<lambda>_. False" s v] trs_inv by blast

lemma preempt_held:
  "sched_inv env s \<Longrightarrow> x \<in> set (sd_running (preempt env v s)) \<Longrightarrow>
   held_by (sd_pool (preempt env v s)) (sq_id x) = held_by (sd_pool s) (sq_id x)"
  using preempt_gone [of env s v] by (auto simp: preempt_pool held_by_release)

lemma preempt_total: "total_blocks (sd_pool (preempt env v s)) = total_blocks (sd_pool s)"
  by (simp add: preempt_pool kp.give_back_total)

lemma sched_inv_pool: "sched_inv env s \<Longrightarrow> pool_ok (sd_pool s)"
  by (simp add: sched_inv_def)

lemma sched_inv_holders: "sched_inv env s \<Longrightarrow> 0 < held_by (sd_pool s) i \<Longrightarrow> i \<in> sq_id ` set (sd_running s)"
  by (simp add: sched_inv_def)

text \<open>The recursion scheme of \<open>ensure_room\<close>, with its three outcomes.\<close>

lemma ensure_room_cases:
  obtains (granted) pool where "reserve sid need (sd_pool s) = (True, pool)"
      "ensure_room env sid need s = (True, s\<lparr> sd_pool := pool \<rparr>)"
  | (evict) v where "reserve sid need (sd_pool s) = (False, sd_pool s)" "victim sid s = Some v"
      "ensure_room env sid need s = ensure_room env sid need (preempt env v s)"
  | (gave_up) "reserve sid need (sd_pool s) = (False, sd_pool s)" "victim sid s = None"
      "ensure_room env sid need s = (False, preempt env sid s)"
proof -
  obtain b pool where r: "reserve sid need (sd_pool s) = (b, pool)" by fastforce
  show ?thesis
  proof (cases b)
    case True
    with r show ?thesis by (intro granted [of pool]) (simp_all add: ensure_room.simps [of env sid need s])
  next
    case False
    with r kp.grow_no [of sid need "sd_pool s"] have r': "reserve sid need (sd_pool s) = (False, sd_pool s)" by simp
    show ?thesis
    proof (cases "victim sid s")
      case None
      with r' show ?thesis by (intro gave_up) (simp_all add: ensure_room.simps [of env sid need s])
    next
      case (Some v)
      with r' show ?thesis by (intro evict [of v]) (simp_all add: ensure_room.simps [of env sid need s])
    qed
  qed
qed

lemma victim_None: "victim sid s = None \<Longrightarrow> \<forall>x \<in> set (sd_running s). sq_id x = sid"
  by (auto simp: victim_def filter_empty_conv)

lemma ensure_room_spec:
  assumes "sched_inv env s" and "sid \<in> sq_id ` set (sd_running s)"
  shows "fst (ensure_room env sid need s) = (blocks_for need \<le> total_blocks (sd_pool s))
    \<and> set (sd_running (snd (ensure_room env sid need s))) \<subseteq> set (sd_running s)
    \<and> (\<forall>x \<in> set (sd_running (snd (ensure_room env sid need s))).
         held_by (sd_pool s) (sq_id x) \<le> held_by (sd_pool (snd (ensure_room env sid need s))) (sq_id x))
    \<and> (if fst (ensure_room env sid need s)
       then sid \<in> sq_id ` set (sd_running (snd (ensure_room env sid need s)))
         \<and> blocks_for need \<le> held_by (sd_pool (snd (ensure_room env sid need s))) sid
       else \<forall>x \<in> set (sd_running (snd (ensure_room env sid need s))). sq_id x \<noteq> sid)"
  using assms
proof (induction "length (sd_running s)" arbitrary: s rule: less_induct)
  case less
  note ok = sched_inv_pool [OF less.prems(1)]
  show ?case
  proof (cases rule: ensure_room_cases [of sid need s env])
    case (granted pool)
    then have "blocks_for need \<le> held_by (sd_pool s) sid + free_blocks (sd_pool s)"
      using kp.grow_yes [OF ok, of sid need] by simp
    then have "blocks_for need \<le> total_blocks (sd_pool s)" using kp.share_le [OF ok, of sid] by linarith
    moreover have "blocks_for need \<le> held_by pool sid" using kp.grow_covers [OF ok, of sid need] granted by simp
    moreover have "held_by (sd_pool s) i \<le> held_by pool i" for i
      using held_by_reserve_mono [OF ok, of i sid need] granted by simp
    ultimately show ?thesis using granted less.prems(2) by simp
  next
    case (evict v)
    let ?s = "preempt env v s"
    have "length (sd_running ?s) < length (sd_running s)" by (rule preempt_shrinks [OF evict(2)])
    from less.hyps [OF this preempt_inv [OF less.prems(1)] preempt_keeps [OF less.prems(2) victim_neq [OF evict(2)]]]
    show ?thesis
      using evict(3) preempt_subset [of env v s] preempt_held [OF less.prems(1), of _ v]
      by (auto simp: preempt_total subset_iff)
  next
    case gave_up
    have "held_by (sd_pool s) i = 0" if "i \<noteq> sid" for i
      using sched_inv_holders [OF less.prems(1), of i] victim_None [OF gave_up(2)] that by fastforce
    then have "\<not> blocks_for need \<le> total_blocks (sd_pool s)"
      using kp.lone_grow [OF ok, of sid need] gave_up(1) by simp
    moreover have "\<forall>x \<in> set (sd_running (preempt env sid s)). sq_id x \<noteq> sid"
      using preempt_gone [OF less.prems(1), of sid] by auto
    ultimately show ?thesis
      using gave_up preempt_subset [of env sid s] preempt_held [OF less.prems(1), of _ sid] by simp
  qed
qed

lemma ensure_room_inv: "sched_inv env s \<Longrightarrow> sid \<in> sq_id ` set (sd_running s) \<Longrightarrow> sched_inv env (snd (ensure_room env sid need s))"
  using ensure_room_trs [of sid s env "\<lambda>_. False" need] trs_inv by blast

text \<open>A sequence that survives \<open>decode_room\<close> has the room that was asked for it.\<close>

lemma decode_room_spec:
  assumes "sched_inv env s"
  shows "set (sd_running (decode_room env cs s)) \<subseteq> set (sd_running s)
    \<and> (\<forall>x \<in> set (sd_running (decode_room env cs s)).
         held_by (sd_pool s) (sq_id x) \<le> held_by (sd_pool (decode_room env cs s)) (sq_id x)
         \<and> (\<forall>need. (sq_id x, need) \<in> set cs \<longrightarrow> blocks_for need \<le> held_by (sd_pool (decode_room env cs s)) (sq_id x)))"
  using assms
proof (induction env cs s rule: decode_room.induct)
  case (2 env sid need rest s)
  define t where "t = (if \<exists>x \<in> set (sd_running s). sq_id x = sid then snd (ensure_room env sid need s) else s)"
  have T: "sched_inv env t \<and> set (sd_running t) \<subseteq> set (sd_running s)
      \<and> (\<forall>x \<in> set (sd_running t). held_by (sd_pool s) (sq_id x) \<le> held_by (sd_pool t) (sq_id x)
          \<and> (sq_id x = sid \<longrightarrow> blocks_for need \<le> held_by (sd_pool t) sid))"
  proof (cases "\<exists>x \<in> set (sd_running s). sq_id x = sid")
    case True
    then have sid: "sid \<in> sq_id ` set (sd_running s)" by blast
    show ?thesis
      using ensure_room_spec [OF "2.prems" sid, of need] ensure_room_inv [OF "2.prems" sid, of need] True
      by (auto simp: t_def split: if_splits)
  next
    case False
    with "2.prems" show ?thesis by (auto simp: t_def)
  qed
  from "2.IH" [folded t_def] T have ih: "set (sd_running (decode_room env rest t)) \<subseteq> set (sd_running t)
    \<and> (\<forall>x \<in> set (sd_running (decode_room env rest t)).
         held_by (sd_pool t) (sq_id x) \<le> held_by (sd_pool (decode_room env rest t)) (sq_id x)
         \<and> (\<forall>need. (sq_id x, need) \<in> set rest \<longrightarrow>
              blocks_for need \<le> held_by (sd_pool (decode_room env rest t)) (sq_id x)))" by blast
  have eq: "decode_room env ((sid, need) # rest) s = decode_room env rest t" by (simp add: t_def)
  show ?case unfolding eq
  proof (intro conjI ballI allI impI)
    show "set (sd_running (decode_room env rest t)) \<subseteq> set (sd_running s)" using ih T by blast
    fix x assume x: "x \<in> set (sd_running (decode_room env rest t))"
    then have xt: "x \<in> set (sd_running t)" using ih by blast
    show "held_by (sd_pool s) (sq_id x) \<le> held_by (sd_pool (decode_room env rest t)) (sq_id x)"
      using ih T x xt le_trans by blast
    fix n assume "(sq_id x, n) \<in> set ((sid, need) # rest)"
    then consider "sq_id x = sid" "n = need" | "(sq_id x, n) \<in> set rest" by auto
    then show "blocks_for n \<le> held_by (sd_pool (decode_room env rest t)) (sq_id x)"
    proof cases
      case 1
      with T xt have "blocks_for n \<le> held_by (sd_pool t) (sq_id x)" by auto
      with ih x show ?thesis using le_trans by blast
    qed (use ih x in blast)
  qed
qed simp

text \<open>C10: making room for a running sequence ends, and succeeds exactly when its tokens fit the
  whole pool: then the sequence still runs and holds the blocks it asked for, having evicted others if
  need be; otherwise it has been moved out of the batch itself. No other survivor loses a block.\<close>

theorem ensure_room_outcome:
  assumes "sched_inv env s" and "sid \<in> sq_id ` set (sd_running s)"
  shows "(let (granted, s') = ensure_room env sid need s in
      granted = (blocks_for need \<le> total_blocks (sd_pool s))
      \<and> (if granted then sid \<in> sq_id ` set (sd_running s') \<and> blocks_for need \<le> held_by (sd_pool s') sid
         else sid \<notin> sq_id ` set (sd_running s'))
      \<and> (\<forall>x \<in> set (sd_running s'). held_by (sd_pool s) (sq_id x) \<le> held_by (sd_pool s') (sq_id x)))"
  using ensure_room_spec [OF assms, of need] by (auto simp: Let_def split: prod.splits if_splits)

definition demo_full :: "((seq_id \<times> u32 list) list, unit, unit) Scheduler" where
  "demo_full = admit (fold (enqueue demo_env (\<lambda>_. False)) [demo_req 20 3, demo_req 20 9] (demo_start 64))"

lemma demo_full_inv: "sched_inv demo_env demo_full"
proof -
  let ?s = "fold (enqueue demo_env (\<lambda>_. False)) [demo_req 20 3, demo_req 20 9] (demo_start 64)"
  have "sched_inv demo_env ?s" by (rule enqueues_inv [OF demo_start_inv])
  then show ?thesis unfolding demo_full_def using admit_trs [of demo_env "\<lambda>_. False" ?s] trs_inv by blast
qed

theorem ensure_room_outcome_witness:
  "fst (ensure_room demo_env 1 64 demo_full) \<and> \<not> fst (ensure_room demo_env 1 65 demo_full)
   \<and> map sq_id (sd_running (snd (ensure_room demo_env 1 64 demo_full))) = [1]"
proof -
  have run: "1 \<in> sq_id ` set (sd_running demo_full)" by code_simp
  have tot: "total_blocks (sd_pool demo_full) = 4" "blocks_for 64 = 4" "blocks_for 65 = 5" by code_simp+
  have "map sq_id (sd_running (snd (ensure_room demo_env 1 64 demo_full))) = [1]" by code_simp
  then show ?thesis
    using ensure_room_outcome [OF demo_full_inv run, of 64] ensure_room_outcome [OF demo_full_inv run, of 65]
    by (simp add: tot Let_def split: prod.splits)
qed

text \<open>C11: when the decode batch is formed, every decoding sequence that survived holds KV blocks
  for all its tokens and the one about to be appended.\<close>

theorem decode_batch_has_room:
  assumes "sched_inv env s" and "is_decode x"
    and "x \<in> set (sd_running (decode_room env
      (map (\<lambda>x. (sq_id x, length (sq_tokens x) + 1)) (filter is_decode (sd_running s))) s))"
  shows "blocks_for (length (sq_tokens x) + 1) \<le> held_by (sd_pool (decode_room env
      (map (\<lambda>x. (sq_id x, length (sq_tokens x) + 1)) (filter is_decode (sd_running s))) s)) (sq_id x)"
  using decode_room_spec [OF assms(1), of "map (\<lambda>x. (sq_id x, length (sq_tokens x) + 1)) (filter is_decode (sd_running s))"]
    assms(2,3) by fastforce

definition demo_decoding :: "((seq_id \<times> u32 list) list, unit, unit) Scheduler" where
  "demo_decoding = the (run_turn demo_env (\<lambda>_. False) [demo_req 7 3] (demo_start 64))"

theorem decode_batch_has_room_witness:
  "blocks_for 10 \<le> held_by (sd_pool (decode_room demo_env
      (map (\<lambda>x. (sq_id x, length (sq_tokens x) + 1)) (filter is_decode (sd_running demo_decoding))) demo_decoding)) 1"
proof -
  let ?d = "decode_room demo_env
      (map (\<lambda>x. (sq_id x, length (sq_tokens x) + 1)) (filter is_decode (sd_running demo_decoding))) demo_decoding"
  have "run_turn demo_env (\<lambda>_. False) [demo_req 7 3] (demo_start 64) \<noteq> None"
    unfolding Option.is_none_def [symmetric] by code_simp
  then have "step demo_env (\<lambda>_. False) (fold (enqueue demo_env (\<lambda>_. False)) [demo_req 7 3] (demo_start 64)) = Some demo_decoding"
    by (auto simp: demo_decoding_def run_turn_def)
  then have inv: "sched_inv demo_env demo_decoding"
    using step_trs trs_inv enqueues_inv [OF demo_start_inv] by blast
  have "map sq_id (sd_running ?d) = [1] \<and> map (length \<circ> sq_tokens) (sd_running ?d) = [9] \<and> map is_decode (sd_running ?d) = [True]"
    by code_simp
  then obtain x where x: "x \<in> set (sd_running ?d)" "sq_id x = 1" "length (sq_tokens x) = 9" "is_decode x"
    by (auto simp: Cons_eq_map_conv)
  from decode_batch_has_room [OF inv x(4,1)] show ?thesis by (simp add: x(2,3))
qed

section \<open>What a client receives\<close>

definition streams :: "('m, 'l, 'q, 's) sched_env \<Rightarrow> ('m, 'q, 's) Scheduler \<Rightarrow> ('m, 'q, 's) Scheduler \<Rightarrow> bool" where
  "streams env s t \<longleftrightarrow>
     (\<exists>es. sd_sent t = sd_sent s @ es \<and>
        (\<forall>(i, e) \<in> set es. \<exists>x \<in> set (live_seqs s). sq_id x = i \<and> ev_prompt_tokens e = sq_prompt_len x
           \<and> ev_completion_tokens e \<le> max 1 (budget x (bm_max_seq_len env))))
     \<and> (\<forall>y \<in> set (live_seqs t). \<exists>x \<in> set (live_seqs s).
          sq_id x = sq_id y \<and> sq_req x = sq_req y \<and> sq_prompt_len x = sq_prompt_len y)"

lemma streams_refl: "streams env s s"
  by (auto simp: streams_def)

lemma budget_cong: "sq_req x = sq_req y \<Longrightarrow> sq_prompt_len x = sq_prompt_len y \<Longrightarrow> budget x m = budget y m"
  by (simp add: budget_def)

lemma streams_trans:
  assumes "streams env s t" and "streams env t u"
  shows "streams env s u"
proof -
  let ?ok = "\<lambda>s i e. \<exists>x \<in> set (live_seqs s). sq_id x = i \<and> ev_prompt_tokens e = sq_prompt_len x
           \<and> ev_completion_tokens e \<le> max 1 (budget x (bm_max_seq_len env))"
  from assms obtain es fs where es: "sd_sent t = sd_sent s @ es" "\<forall>(i, e) \<in> set es. ?ok s i e"
    and fs: "sd_sent u = sd_sent t @ fs" "\<forall>(i, e) \<in> set fs. ?ok t i e" unfolding streams_def by blast
  have tr: "\<forall>y \<in> set (live_seqs t). \<exists>x \<in> set (live_seqs s).
      sq_id x = sq_id y \<and> sq_req x = sq_req y \<and> sq_prompt_len x = sq_prompt_len y"
    using assms(1) unfolding streams_def by blast
  have "?ok s i e" if "(i, e) \<in> set fs" for i e
  proof -
    from that fs(2) obtain y where y: "y \<in> set (live_seqs t)" "sq_id y = i" "ev_prompt_tokens e = sq_prompt_len y"
      "ev_completion_tokens e \<le> max 1 (budget y (bm_max_seq_len env))" by blast
    from tr y(1) obtain x where x: "x \<in> set (live_seqs s)" "sq_id x = sq_id y" "sq_req x = sq_req y"
      "sq_prompt_len x = sq_prompt_len y" by blast
    with y budget_cong [OF x(3,4)] show ?thesis by (intro bexI [of _ x]) simp_all
  qed
  with es fs have "sd_sent u = sd_sent s @ (es @ fs)" "\<forall>(i, e) \<in> set (es @ fs). ?ok s i e" by auto
  moreover have "\<forall>y \<in> set (live_seqs u). \<exists>x \<in> set (live_seqs s).
      sq_id x = sq_id y \<and> sq_req x = sq_req y \<and> sq_prompt_len x = sq_prompt_len y"
  proof
    fix z assume "z \<in> set (live_seqs u)"
    then obtain y where "y \<in> set (live_seqs t)" "sq_id y = sq_id z" "sq_req y = sq_req z" "sq_prompt_len y = sq_prompt_len z"
      using assms(2) unfolding streams_def by blast
    with tr show "\<exists>x \<in> set (live_seqs s). sq_id x = sq_id z \<and> sq_req x = sq_req z \<and> sq_prompt_len x = sq_prompt_len z"
      by fastforce
  qed
  ultimately show ?thesis unfolding streams_def by blast
qed

lemma event_of_bound:
  "seq_ok env x \<Longrightarrow> event_of x e \<Longrightarrow>
   ev_prompt_tokens e = sq_prompt_len x \<and> ev_completion_tokens e \<le> max 1 (budget x (bm_max_seq_len env))"
  by (auto simp: seq_ok_def event_of_def)

lemma delta_events_of: "delta_events closed x es \<Longrightarrow> e \<in> set es \<Longrightarrow> event_of x e"
  by (simp add: delta_events_def)

lemma final_events_of: "final_events closed x es \<Longrightarrow> e \<in> set es \<Longrightarrow> event_of x e"
  by (auto simp: final_events_def delta_events_def split: if_splits)

lemma streamsI:
  assumes "sd_sent t = sd_sent s @ map (Pair (sq_id x)) es" and "es \<noteq> [] \<Longrightarrow> x \<in> set (live_seqs s) \<and> seq_ok env x"
    and "\<And>e. e \<in> set es \<Longrightarrow> event_of x e"
    and "\<And>y. y \<in> set (live_seqs t) \<Longrightarrow> \<exists>x \<in> set (live_seqs s).
      sq_id x = sq_id y \<and> sq_req x = sq_req y \<and> sq_prompt_len x = sq_prompt_len y"
  shows "streams env s t"
proof -
  have "\<forall>(i, e) \<in> set (map (Pair (sq_id x)) es). \<exists>x \<in> set (live_seqs s). sq_id x = i \<and> ev_prompt_tokens e = sq_prompt_len x
      \<and> ev_completion_tokens e \<le> max 1 (budget x (bm_max_seq_len env))"
    using assms(2,3) event_of_bound [of env x] by (cases es) force+
  with assms(1,4) show ?thesis unfolding streams_def by blast
qed

lemma tr_streams:
  assumes tr: "sched_tr env closed s t" and inv: "sched_inv env s"
  shows "streams env s t"
  using tr
proof (cases rule: sched_tr.cases)
  case (tr_update idx x y es)
  have x: "x \<in> set (live_seqs s) \<and> seq_ok env x"
    using tr_update inv_seq_ok [OF inv] by (simp add: live_seqs_def)
  show ?thesis
  proof (rule streamsI [where x = x and es = es])
    fix z assume "z \<in> set (live_seqs t)"
    then have "z = y \<or> z \<in> set (live_seqs s)"
      using tr_update(1) by (auto simp: live_seqs_def dest: set_update_subset_insert [THEN subsetD])
    with x tr_update(4) show "\<exists>x \<in> set (live_seqs s). sq_id x = sq_id z \<and> sq_req x = sq_req z \<and> sq_prompt_len x = sq_prompt_len z"
      by (auto simp: same_seq_def)
  qed (use tr_update x in \<open>auto intro: delta_events_of\<close>)
next
  case (tr_finish idx x es)
  have x: "x \<in> set (live_seqs s) \<and> seq_ok env x"
    using tr_finish inv_seq_ok [OF inv] by (simp add: live_seqs_def)
  show ?thesis
  proof (rule streamsI [where x = x and es = es])
    fix z assume "z \<in> set (live_seqs t)"
    then have "z \<in> set (live_seqs s)" using tr_finish set_remove_at [of idx "sd_running s"] by (auto simp: live_seqs_def)
    then show "\<exists>x \<in> set (live_seqs s). sq_id x = sq_id z \<and> sq_req x = sq_req z \<and> sq_prompt_len x = sq_prompt_len z"
      by blast
  qed (use tr_finish x in \<open>auto intro: final_events_of\<close>)
next
  case (tr_preempt idx x)
  then have x: "x \<in> set (live_seqs s)" by (simp add: live_seqs_def)
  show ?thesis
  proof (rule streamsI [where x = x and es = "[]"])
    fix z assume "z \<in> set (live_seqs t)"
    then have "z \<in> set (live_seqs s) \<or> z = x\<lparr> sq_phase := Prefill 0 \<rparr>"
      using tr_preempt set_remove_at [of idx "sd_running s"] by (auto simp: live_seqs_def)
    then show "\<exists>x \<in> set (live_seqs s). sq_id x = sq_id z \<and> sq_req x = sq_req z \<and> sq_prompt_len x = sq_prompt_len z"
      using x by auto
  qed (use tr_preempt in simp_all)
qed (auto simp: streams_def live_seqs_def)

lemma trs_streams: "(sched_tr env closed)\<^sup>*\<^sup>* s t \<Longrightarrow> sched_inv env s \<Longrightarrow> streams env s t"
proof (induction rule: rtranclp_induct)
  case (step t u)
  then show ?case using tr_streams [of env closed t u] trs_inv [of env closed s t] streams_trans by blast
qed (rule streams_refl)

text \<open>C12: events are only ever appended to the clients' streams, and each one a step sends reports
  the length of the request's prompt and a completion count of at most the request's budget (its
  \<open>max_tokens\<close>, cut to what the context window leaves), or one token when that budget is 0.\<close>

theorem step_respects_budget:
  assumes "sched_inv env s" and "step env closed s = Some s'"
  shows "\<exists>es. sd_sent s' = sd_sent s @ es \<and>
    (\<forall>(i, e) \<in> set es. \<exists>x \<in> set (live_seqs s). sq_id x = i \<and> ev_prompt_tokens e = sq_prompt_len x
       \<and> ev_completion_tokens e \<le> max 1 (budget x (bm_max_seq_len env)))"
  using trs_streams [OF step_trs [OF assms(2,1)] assms(1)] unfolding streams_def by blast

theorem step_respects_budget_witness:
  "\<exists>s'. step demo_env (\<lambda>_. False) (enqueue demo_env (\<lambda>_. False) (demo_req 3 2) (demo_start 64)) = Some s' \<and>
    (\<exists>es. sd_sent s' = es \<and> (\<forall>(i, e) \<in> set es. ev_completion_tokens e \<le> 2))"
proof -
  let ?s = "enqueue demo_env (\<lambda>_. False) (demo_req 3 2) (demo_start 64)"
  have inv: "sched_inv demo_env ?s" by (rule enqueue_inv [OF demo_start_inv])
  have "step demo_env (\<lambda>_. False) ?s \<noteq> None" unfolding Option.is_none_def [symmetric] by code_simp
  then obtain s' where s': "step demo_env (\<lambda>_. False) ?s = Some s'" by blast
  have "sd_sent ?s = []" "map (\<lambda>x. max 1 (budget x (bm_max_seq_len demo_env))) (live_seqs ?s) = [2]" by code_simp+
  then show ?thesis using step_respects_budget [OF inv s'] s' by fastforce
qed

end
