(* ===== verification/Cgn_Sched_Limits.thy ===== *)
theory Cgn_Sched_Limits
  imports Cgn_Sched_Props
begin

text \<open>
  The scheduler's text streaming (nothing that may become part of a stop string is sent), and two
  limits of its admission and preemption policy.
\<close>

section \<open>Held-back text\<close>

lemma lower_fold_le:
  fixes n :: nat
  shows "fold (\<lambda>start safe. if P start \<and> start < safe then start else safe) xs n \<le> n"
proof (induction xs arbitrary: n)
  case (Cons x xs)
  then show ?case by (auto intro: order.trans [OF Cons.IH] less_imp_le)
qed simp

lemma held_back_one_le: "held_back_one t stop n \<le> n"
  unfolding held_back_one_def by (rule lower_fold_le)

lemma held_back_one_bound:
  assumes "start \<in> set (char_starts t)" and "prefix (drop start t) stop"
  shows "held_back_one t stop n \<le> start"
proof -
  have "fold (\<lambda>start safe. if P start \<and> start < safe then start else safe) xs n \<le> s"
    if "s \<in> set xs" "P s" for P n s and xs :: "nat list"
    using that
  proof (induction xs arbitrary: n)
    case (Cons x xs)
    show ?case
    proof (cases "s = x")
      case True
      have "(if P x \<and> x < n then x else n) \<le> s" using True Cons.prems(2) by auto
      then show ?thesis using lower_fold_le [of P xs "if P x \<and> x < n then x else n"] by simp
    next
      case False
      then show ?thesis using Cons by simp
    qed
  qed simp
  from this [OF assms(1), of "\<lambda>start. prefix (drop start t) stop" n] assms(2) show ?thesis
    by (simp add: held_back_one_def)
qed

lemma held_back_fold_le: "fold (held_back_one t) stops n \<le> n"
  by (induction stops arbitrary: n) (auto intro: order.trans held_back_one_le)

lemma held_back_len_le: "held_back_len t stops \<le> length t"
  by (simp add: held_back_len_def held_back_fold_le)

lemma held_back_len_bound:
  assumes "stop \<in> set stops" and "start \<in> set (char_starts t)" and "prefix (drop start t) stop"
  shows "held_back_len t stops \<le> start"
proof -
  have "fold (held_back_one t) stops n \<le> start" for n
    using assms(1)
  proof (induction stops arbitrary: n)
    case (Cons a stops)
    show ?case
    proof (cases "stop = a")
      case True
      have "fold (held_back_one t) stops (held_back_one t a n) \<le> held_back_one t a n" by (rule held_back_fold_le)
      also have "\<dots> \<le> start" using held_back_one_bound [OF assms(2,3), of n] True by simp
      finally show ?thesis by simp
    next
      case False
      with Cons show ?thesis by simp
    qed
  qed simp
  then show ?thesis by (simp add: held_back_len_def)
qed

lemma str_find_None: "str_find t s = None \<longleftrightarrow> (\<forall>i \<le> length t. \<not> prefix s (drop i t))"
  by (auto simp: str_find_def find_None_iff less_Suc_eq_le simp del: upt_Suc)

lemma str_find_Some:
  assumes "str_find t s = Some i"
  shows "i \<le> length t \<and> prefix s (drop i t) \<and> (\<forall>j<i. \<not> prefix s (drop j t))"
proof -
  let ?xs = "[0..<length t + 1]"
  from assms obtain k where k: "k < length ?xs" "prefix s (drop (?xs ! k) t)" "i = ?xs ! k"
    "\<forall>j<k. \<not> prefix s (drop (?xs ! j) t)" by (auto simp: str_find_def find_Some_iff)
  have nth: "?xs ! j = j" if "j \<le> k" for j using k(1) that nth_upt [of 0 j "length t + 1"] by simp
  with k show ?thesis by (auto simp del: upt_Suc)
qed

lemma first_stop_None: "first_stop t stops = None \<longleftrightarrow> (\<forall>s \<in> set stops. str_find t s = None)"
proof -
  have "List.map_filter (str_find t) stops = [] \<longleftrightarrow> (\<forall>s \<in> set stops. str_find t s = None)"
    by (induction stops) (auto simp: List.map_filter_def)
  then show ?thesis by (auto simp: first_stop_def split: list.splits)
qed

text \<open>C9: the text held back is enough. If the text decoded so far contains no stop string, and
  some continuation of it has a stop string starting at a character boundary \<open>p\<close>, then nothing
  from \<open>p\<close> on is inside the prefix that \<open>held_back_len\<close> declares safe to send.\<close>

theorem held_back_never_leaks:
  assumes none: "first_stop t stops = None" and stop: "stop \<in> set stops"
    and occ: "prefix stop (drop p (t @ u))" and bd: "is_char_boundary t p"
  shows "held_back_len t stops \<le> p"
proof (cases "p < length t")
  case False
  then show ?thesis using held_back_len_le [of t stops] by linarith
next
  case True
  have starts: "p \<in> set (char_starts t)" using True bd by (simp add: char_starts_def)
  have "\<not> prefix stop (drop p t)" using none stop True by (simp add: first_stop_None str_find_None)
  moreover have "prefix stop (drop p t @ u)" using occ True by simp
  ultimately have "prefix (drop p t) stop" by (metis prefix_append prefix_order.refl prefixI)
  with stop starts show ?thesis by (rule held_back_len_bound)
qed

theorem held_back_never_leaks_witness:
  "held_back_len ''abc EN'' [''END''] \<le> 4 \<and> held_back_len ''abc EN'' [''END''] = 4"
proof -
  have "first_stop ''abc EN'' [''END''] = None" "is_char_boundary ''abc EN'' 4"
    "prefix ''END'' (drop 4 (''abc EN'' @ ''D!''))" "held_back_len ''abc EN'' [''END''] = 4" by code_simp+
  with held_back_never_leaks [of "''abc EN''" "[''END'']" "''END''" 4 "''D!''"] show ?thesis by simp
qed

section \<open>Prompts larger than the pool\<close>

lemma fold_enqueue_frame:
  "sd_running (fold (enqueue env closed) reqs s) = sd_running s
   \<and> sd_pool (fold (enqueue env closed) reqs s) = sd_pool s
   \<and> (\<exists>new. sd_waiting (fold (enqueue env closed) reqs s) = sd_waiting s @ new)"
proof (induction reqs arbitrary: s)
  case (Cons r reqs)
  have "sd_running (enqueue env closed r s) = sd_running s" "sd_pool (enqueue env closed r s) = sd_pool s"
    "\<exists>new. sd_waiting (enqueue env closed r s) = sd_waiting s @ new"
    by (auto simp: enqueue_def Let_def blocking_send_def)
  with Cons.IH [of "enqueue env closed r s"] show ?case by auto
qed simp

lemma stuck_step:
  assumes "pool_ok (sd_pool s)" and "sd_running s = []" and "sd_waiting s = x # rest"
    and "total_blocks (sd_pool s) < blocks_for (sq_prompt_len x + 1)"
  shows "step env closed s = Some s"
proof -
  have "reserve (sq_id x) (sq_prompt_len x + 1) (sd_pool s) = (False, sd_pool s)"
    by (rule kp.too_big_never [OF assms(1,4)])
  then have "admit s = s" using assms(2,3) by (simp add: admit.simps [of s])
  then show ?thesis using assms(2) by (simp add: step_def prefill_one_chunk_def decode_step_def)
qed

text \<open>C13: a prompt that needs more blocks than the pool has stops the engine. Once it is at the
  head of the queue with nothing running, every turn leaves it there and admits nothing, whatever is
  submitted behind it: the loop spins and no request is served any more.\<close>

theorem oversized_prompt_blocks_queue:
  assumes "pool_ok (sd_pool s)" and "sd_running s = []" and "sd_waiting s = x # rest"
    and "total_blocks (sd_pool s) < blocks_for (sq_prompt_len x + 1)"
  shows "\<exists>s' new. run_turn env closed pending s = Some s' \<and> sd_running s' = []
    \<and> sd_waiting s' = x # rest @ new \<and> sd_pool s' = sd_pool s"
proof -
  let ?s = "fold (enqueue env closed) pending s"
  from fold_enqueue_frame [of env closed pending s] assms obtain new where
    *: "sd_running ?s = []" "sd_pool ?s = sd_pool s" "sd_waiting ?s = x # rest @ new" by auto
  then have "step env closed ?s = Some ?s"
    using stuck_step [of ?s x "rest @ new" env closed] assms by simp
  with * assms(3) show ?thesis by (simp add: run_turn_def)
qed

theorem oversized_prompt_blocks_queue_witness:
  "\<exists>s' y new. run_turn demo_env (\<lambda>_. False) [demo_req 2 1]
      (enqueue demo_env (\<lambda>_. False) (demo_req 20 3) (demo_start 16)) = Some s' \<and> sd_running s' = []
      \<and> sd_waiting s' = y # new \<and> sq_id y = 1"
proof -
  let ?s = "enqueue demo_env (\<lambda>_. False) (demo_req 20 3) (demo_start 16)"
  have ok: "pool_ok (sd_pool ?s)" using enqueue_inv [OF demo_start_inv] by (auto dest: sched_inv_pool)
  have run: "sd_running ?s = []" and w: "map (\<lambda>x. (sq_id x, sq_prompt_len x)) (sd_waiting ?s) = [(1, 20)]"
    and b: "total_blocks (sd_pool ?s) = 1" "blocks_for 21 = 2" by code_simp+
  from w obtain x rest where x: "sd_waiting ?s = x # rest" "sq_id x = 1" "sq_prompt_len x = 20" by auto
  from oversized_prompt_blocks_queue [OF ok run x(1), of demo_env "\<lambda>_. False" "[demo_req 2 1]"] b x
  show ?thesis by fastforce
qed

section \<open>Prefill after a preemption\<close>

text \<open>A run in which a sequence is preempted after two generated tokens: on re-admission its
  second prefill passes the seven prompt tokens only, and the sequence decodes on with nine tokens of
  which the model has seen seven.\<close>

lemma preempted_prefill_omits_generated:
  "(case step demo_env (\<lambda>_. False) (preempt demo_env 1 demo_decoding) of
      None \<Rightarrow> False
    | Some s \<Rightarrow> sd_model s = [(1, replicate 7 1), (1, replicate 7 1)])
   \<and> map sq_tokens (sd_running demo_decoding) = [replicate 7 1 @ [5, 5]]"
  by code_simp

end
