(* ===== verification/Cgn_Str.thy ===== *)
theory Cgn_Str
  imports Cgn_Hash
begin

text \<open>
  The operations of Rust's \<open>str\<close> and integer parsing that the components use, on strings as
  byte strings: prefixes, splitting at a separator, trimming and radix-16 parsing, with the
  round trips the components rely on.
\<close>

definition strip_prefix :: "string \<Rightarrow> string \<Rightarrow> string option" where
  "strip_prefix p s = (if take (length p) s = p then Some (drop (length p) s) else None)"

definition split_once :: "char \<Rightarrow> string \<Rightarrow> (string \<times> string) option" where
  "split_once c s =
     (if c \<in> set s then Some (takeWhile (\<lambda>x. x \<noteq> c) s, tl (dropWhile (\<lambda>x. x \<noteq> c) s)) else None)"

definition rsplit_once :: "char \<Rightarrow> string \<Rightarrow> (string \<times> string) option" where
  "rsplit_once c s =
     (if c \<in> set s
      then Some (rev (tl (dropWhile (\<lambda>x. x \<noteq> c) (rev s))), rev (takeWhile (\<lambda>x. x \<noteq> c) (rev s)))
      else None)"

fun split_on :: "char \<Rightarrow> string \<Rightarrow> string list" where
  "split_on c [] = [[]]"
| "split_on c (x # xs) =
     (if x = c then [] # split_on c xs
      else case split_on c xs of [] \<Rightarrow> [[x]] | y # ys \<Rightarrow> (x # y) # ys)"

definition is_space :: "char \<Rightarrow> bool" where
  "is_space c \<longleftrightarrow> of_char c \<in> {9, 10, 11, 12, 13, 32 :: nat}"

definition trim_start :: "string \<Rightarrow> string" where
  "trim_start s = dropWhile is_space s"

definition trim :: "string \<Rightarrow> string" where
  "trim s = rev (dropWhile is_space (rev (dropWhile is_space s)))"

text \<open>\<open>from_str_radix(s, 16)\<close> of an unsigned type with largest value \<open>m\<close>: one leading
  \<open>+\<close> is accepted when digits follow, and overflow is an error.\<close>

definition hex_digit :: "char \<Rightarrow> nat option" where
  "hex_digit c =
     (let n = (of_char c :: nat) in
      if 48 \<le> n \<and> n \<le> 57 then Some (n - 48)
      else if 97 \<le> n \<and> n \<le> 102 then Some (n - 87)
      else if 65 \<le> n \<and> n \<le> 70 then Some (n - 55) else None)"

definition dec_digit :: "char \<Rightarrow> nat option" where
  "dec_digit c = (let n = (of_char c :: nat) in if 48 \<le> n \<and> n \<le> 57 then Some (n - 48) else None)"

fun parse_digits :: "(char \<Rightarrow> nat option) \<Rightarrow> nat \<Rightarrow> nat \<Rightarrow> nat \<Rightarrow> string \<Rightarrow> nat option" where
  "parse_digits dig radix m acc [] = Some acc"
| "parse_digits dig radix m acc (c # cs) =
     (case dig c of
        None \<Rightarrow> None
      | Some d \<Rightarrow> if m < acc * radix + d then None else parse_digits dig radix m (acc * radix + d) cs)"

definition parse_unsigned :: "(char \<Rightarrow> nat option) \<Rightarrow> nat \<Rightarrow> nat \<Rightarrow> string \<Rightarrow> nat option" where
  "parse_unsigned dig radix m s =
     (case s of
        [] \<Rightarrow> None
      | c # cs \<Rightarrow> if c = CHR ''+'' \<and> cs \<noteq> [] then parse_digits dig radix m 0 cs
                   else parse_digits dig radix m 0 s)"

definition from_str_radix16 :: "nat \<Rightarrow> string \<Rightarrow> nat option" where
  "from_str_radix16 m s = parse_unsigned hex_digit 16 m s"

definition parse_dec :: "nat \<Rightarrow> string \<Rightarrow> nat option" where
  "parse_dec m s = parse_unsigned dec_digit 10 m s"

text \<open>Decimal digits of a natural number.\<close>

definition dec_char :: "nat \<Rightarrow> char" where
  "dec_char d = HEX ! d"

fun show_nat :: "nat \<Rightarrow> string" where
  "show_nat n = (if n < 10 then [dec_char n] else show_nat (n div 10) @ [dec_char (n mod 10)])"

declare show_nat.simps [simp del]

text \<open>The lower-case hexadecimal digits of a byte string (\<open>format!("{b:02x}")\<close>).\<close>

definition hex_string :: "bytes \<Rightarrow> string" where
  "hex_string bs = concat (map hex_byte bs)"

text \<open>A byte string from its hexadecimal digits, two characters a byte.\<close>

fun hex_pairs :: "string \<Rightarrow> bytes option" where
  "hex_pairs [] = Some []"
| "hex_pairs [_] = None"
| "hex_pairs (a # b # r) =
     (case from_str_radix16 255 [a, b] of
        None \<Rightarrow> None
      | Some v \<Rightarrow> map_option (\<lambda>bs. of_nat v # bs) (hex_pairs r))"

section \<open>Round trips\<close>

lemma strip_prefix_append [simp]: "strip_prefix p (p @ s) = Some s"
  by (simp add: strip_prefix_def)

lemma strip_prefix_Some: "strip_prefix p s = Some r \<longleftrightarrow> s = p @ r"
  by (auto simp: strip_prefix_def) (metis append_take_drop_id)

lemma split_once_append [simp]: "c \<notin> set s \<Longrightarrow> split_once c (s @ c # t) = Some (s, t)"
  by (auto simp: split_once_def takeWhile_append dropWhile_append)

lemma rsplit_once_append [simp]:
  assumes "c \<notin> set t"
  shows "rsplit_once c (s @ c # t) = Some (s, t)"
proof -
  have *: "\<forall>x \<in> set (rev t). x \<noteq> c" using assms by auto
  then have "takeWhile (\<lambda>x. x \<noteq> c) (rev t @ c # rev s) = rev t"
    "dropWhile (\<lambda>x. x \<noteq> c) (rev t @ c # rev s) = c # rev s"
    by (auto simp: takeWhile_append dropWhile_append)
  then show ?thesis by (simp add: rsplit_once_def)
qed

lemma rsplit_once_Some:
  assumes "rsplit_once c s = Some (a, b)"
  shows "s = a @ c # b \<and> c \<notin> set b"
proof -
  from assms have c: "c \<in> set s"
    and a: "a = rev (tl (dropWhile (\<lambda>x. x \<noteq> c) (rev s)))"
    and b: "b = rev (takeWhile (\<lambda>x. x \<noteq> c) (rev s))"
    by (auto simp: rsplit_once_def split: if_splits)
  have ne: "dropWhile (\<lambda>x. x \<noteq> c) (rev s) \<noteq> []" using c by (simp add: dropWhile_eq_Nil_conv)
  then have "dropWhile (\<lambda>x. x \<noteq> c) (rev s) = c # tl (dropWhile (\<lambda>x. x \<noteq> c) (rev s))"
    using hd_dropWhile [OF ne] by (metis list.collapse)
  then have "rev s = takeWhile (\<lambda>x. x \<noteq> c) (rev s) @ c # tl (dropWhile (\<lambda>x. x \<noteq> c) (rev s))"
    by (metis takeWhile_dropWhile_id)
  then have "s = rev (takeWhile (\<lambda>x. x \<noteq> c) (rev s) @ c # tl (dropWhile (\<lambda>x. x \<noteq> c) (rev s)))"
    by (metis rev_rev_ident)
  then have "s = a @ c # b" by (simp add: a b)
  moreover have "c \<notin> set b" unfolding b by (auto dest: set_takeWhileD)
  ultimately show ?thesis by simp
qed

lemma split_on_nonempty [simp]: "split_on c s \<noteq> []"
  by (induction s) (auto split: list.splits)

lemma split_on_sep_free: "s \<in> set (split_on c t) \<Longrightarrow> c \<notin> set s"
  by (induction t arbitrary: s) (auto split: list.splits if_splits)

lemma split_on_single: "c \<notin> set s \<Longrightarrow> split_on c s = [s]"
  by (induction s) auto

lemma split_on_append: "c \<notin> set s \<Longrightarrow> split_on c (s @ c # t) = s # split_on c t"
  by (induction s) auto

lemma lt16_cases: "i < 16 \<Longrightarrow> (i :: nat) \<in> {0, 1, 2, 3, 4, 5, 6, 7, 8, 9, 10, 11, 12, 13, 14, 15}"
  unfolding insert_iff empty_iff by arith

lemma hex_digit_HEX: "i < 16 \<Longrightarrow> hex_digit (HEX ! i) = Some i"
  using lt16_cases [of i] by (auto simp: hex_digit_def HEX_def)

lemma HEX_not_special: "i < 16 \<Longrightarrow> HEX ! i \<noteq> CHR ''+'' \<and> HEX ! i \<noteq> CHR ''/''"
  using lt16_cases [of i] by (auto simp: HEX_def)

lemma nibbles_lt: "unat (drop_bit 4 (b :: u8)) < 16" "unat (b AND 15 :: u8) < 16"
  using unat_lt2p_u8 [of b] by (simp_all add: unat_high_nibble unat_low_nibble)

lemma from_str_radix_hex_byte: "from_str_radix16 255 (hex_byte b) = Some (unat b)"
proof -
  have "unat (drop_bit 4 b) * 16 + unat (b AND 15) = unat b"
    by (simp add: unat_high_nibble unat_low_nibble)
  moreover have "unat b \<le> 255" using unat_lt2p_u8 [of b] by simp
  moreover have "unat (drop_bit 4 b) \<le> 255" using nibbles_lt(1) [of b] by simp
  ultimately show ?thesis
    using nibbles_lt [of b]
    by (simp add: from_str_radix16_def parse_unsigned_def hex_byte_def hex_digit_HEX HEX_not_special)
qed

lemma slash_not_in_hex: "CHR ''/'' \<notin> set (hex_string bs)"
  using HEX_not_special nibbles_lt by (fastforce simp: hex_string_def hex_byte_def)

lemma length_hex_string [simp]: "length (hex_string bs) = 2 * length bs"
  by (simp add: hex_string_def length_hex_bytes)

lemma hex_string_inject [simp]: "hex_string as = hex_string bs \<longleftrightarrow> as = bs"
  by (simp add: hex_string_def hex_bytes_inject)

lemma hex_pairs_hex_string: "hex_pairs (hex_string bs) = Some bs"
proof (induction bs)
  case (Cons b bs)
  obtain x y where xy: "hex_byte b = [x, y]" by (simp add: hex_byte_def)
  then have "hex_string (b # bs) = x # y # hex_string bs" by (simp add: hex_string_def)
  with Cons from_str_radix_hex_byte [of b] xy show ?case by simp
qed (simp add: hex_string_def)

lemma dec_digit_char: "d < 10 \<Longrightarrow> dec_digit (dec_char d) = Some d"
proof -
  assume "d < 10"
  then have "d \<in> {0, 1, 2, 3, 4, 5, 6, 7, 8, 9}" by auto
  then show ?thesis by (auto simp: dec_char_def dec_digit_def HEX_def)
qed

lemma dec_char_not_plus: "d < 10 \<Longrightarrow> dec_char d \<noteq> CHR ''+''"
  using HEX_not_special [of d] by (simp add: dec_char_def)

lemma parse_digits_append:
  "parse_digits dig r m acc (s @ t) = Option.bind (parse_digits dig r m acc s) (\<lambda>a. parse_digits dig r m a t)"
  by (induction s arbitrary: acc) (auto split: option.splits)

lemma parse_digits_show_nat: "n \<le> m \<Longrightarrow> parse_digits dec_digit 10 m 0 (show_nat n) = Some n"
proof (induction n rule: show_nat.induct)
  case (1 n)
  show ?case
  proof (cases "n < 10")
    case True
    with 1 show ?thesis by (simp add: show_nat.simps [of n] dec_digit_char)
  next
    case False
    with 1 have "parse_digits dec_digit 10 m 0 (show_nat (n div 10)) = Some (n div 10)" by simp
    with False 1 show ?thesis
      by (simp add: show_nat.simps [of n] parse_digits_append dec_digit_char)
  qed
qed

lemma show_nat_hd: "\<exists>d < 10. \<exists>t. show_nat n = dec_char d # t"
proof (induction n rule: show_nat.induct)
  case (1 n)
  then show ?case by (cases "n < 10") (auto simp: show_nat.simps [of n])
qed

lemma parse_dec_show_nat: "n \<le> m \<Longrightarrow> parse_dec m (show_nat n) = Some n"
proof -
  assume "n \<le> m"
  obtain d t where "d < 10" "show_nat n = dec_char d # t" using show_nat_hd [of n] by blast
  with parse_digits_show_nat [OF \<open>n \<le> m\<close>] show ?thesis
    by (simp add: parse_dec_def parse_unsigned_def dec_char_not_plus)
qed

lemma show_nat_inject [simp]: "show_nat m = show_nat n \<longleftrightarrow> m = n"
proof
  assume eq: "show_nat m = show_nat n"
  have "parse_digits dec_digit 10 (m + n) 0 (show_nat m) = Some m"
    "parse_digits dec_digit 10 (m + n) 0 (show_nat n) = Some n"
    by (rule parse_digits_show_nat, simp)+
  then show "m = n" unfolding eq by simp
qed simp

end
