(* ===== verification/Cgn_F32.thy ===== *)
theory Cgn_F32
  imports Complex_Main "HOL-Library.Log_Nat"
begin

text \<open>
  The \<open>f32\<close> arithmetic of the routing scores: a finite binary32 value is the rational it
  denotes, and every operation rounds its exact result to the nearest value with a 24-bit
  significand, ties to even, subnormals included (least exponent \<open>-149\<close>). Overflow to
  infinity and NaN are not modelled: the scores combine counts and weights far below the range.
\<close>

type_synonym f32 = rat

text \<open>Exponent of the leading bit of a positive rational.\<close>

definition ilog2 :: "rat \<Rightarrow> int" where
  "ilog2 x =
     (case quotient_of x of (n, d) \<Rightarrow>
        let k = bitlen n - bitlen d in if 2 powi k \<le> x then k else k - 1)"

definition round_half_even :: "rat \<Rightarrow> int" where
  "round_half_even x =
     (let f = \<lfloor>x\<rfloor>; r = x - of_int f
      in if r < 1 / 2 then f else if 1 / 2 < r then f + 1 else if even f then f else f + 1)"

definition quantum :: "rat \<Rightarrow> int" where
  "quantum x = max (ilog2 \<bar>x\<bar> - 23) (- 149)"

definition f32_round :: "rat \<Rightarrow> f32" where
  "f32_round x =
     (if x = 0 then 0 else of_int (round_half_even (x / 2 powi quantum x)) * 2 powi quantum x)"

definition fadd :: "f32 \<Rightarrow> f32 \<Rightarrow> f32" where "fadd a b = f32_round (a + b)"
definition fsub :: "f32 \<Rightarrow> f32 \<Rightarrow> f32" where "fsub a b = f32_round (a - b)"
definition fmul :: "f32 \<Rightarrow> f32 \<Rightarrow> f32" where "fmul a b = f32_round (a * b)"
definition fdiv :: "f32 \<Rightarrow> f32 \<Rightarrow> f32" where "fdiv a b = f32_round (a / b)"
definition nat_as_f32 :: "nat \<Rightarrow> f32" where "nat_as_f32 n = f32_round (of_nat n)"

text \<open>The same with the 53-bit significand of \<open>f64\<close>, and \<open>x as u64\<close>: truncation towards
  zero, saturating at both ends.\<close>

definition f64_round :: "rat \<Rightarrow> rat" where
  "f64_round x =
     (if x = 0 then 0
      else let q = max (ilog2 \<bar>x\<bar> - 52) (- 1074) in of_int (round_half_even (x / 2 powi q)) * 2 powi q)"

definition as_u64 :: "rat \<Rightarrow> nat" where
  "as_u64 x = (if x \<le> 0 then 0 else min (2 ^ 64 - 1) (nat \<lfloor>x\<rfloor>))"

section \<open>Rounding to an integer\<close>

lemma round_half_even_of_int [simp]: "round_half_even (of_int n) = n"
  by (simp add: round_half_even_def)

lemma round_half_even_floor: "round_half_even x \<in> {\<lfloor>x\<rfloor>, \<lfloor>x\<rfloor> + 1}"
  by (simp add: round_half_even_def Let_def)

lemma round_half_even_mono: "x \<le> y \<Longrightarrow> round_half_even x \<le> round_half_even y"
proof (cases "\<lfloor>x\<rfloor> = \<lfloor>y\<rfloor>")
  case True
  moreover assume "x \<le> y"
  ultimately show ?thesis by (auto simp: round_half_even_def Let_def)
next
  case False
  assume "x \<le> y"
  with False have "\<lfloor>x\<rfloor> < \<lfloor>y\<rfloor>" using floor_mono [of x y] by linarith
  then show ?thesis using round_half_even_floor [of x] round_half_even_floor [of y] by auto
qed

lemma round_half_even_ge: "of_int n \<le> x \<Longrightarrow> n \<le> round_half_even x"
  using round_half_even_mono [of "of_int n" x] by simp

lemma round_half_even_le: "x \<le> of_int n \<Longrightarrow> round_half_even x \<le> n"
  using round_half_even_mono [of x "of_int n"] by simp

section \<open>The leading bit\<close>

lemma ilog2_bounds:
  assumes "0 < x"
  shows "2 powi ilog2 x \<le> x" and "x < 2 powi (ilog2 x + 1)"
proof -
  obtain n d where q: "quotient_of x = (n, d)" by fastforce
  have d: "0 < d" using quotient_of_denom_pos [OF q] .
  have x: "x = of_int n / of_int d" using quotient_of_div [OF q] .
  with assms d have n: "0 < n" by (simp add: zero_less_divide_iff)
  define k where "k = bitlen n - bitlen d"
  have bn: "(2::int) ^ nat (bitlen n - 1) \<le> n" "n < 2 ^ nat (bitlen n)" using bitlen_bounds [OF n] by auto
  have bd: "(2::int) ^ nat (bitlen d - 1) \<le> d" "d < 2 ^ nat (bitlen d)" using bitlen_bounds [OF d] by auto
  have "1 \<le> bitlen m" if "0 < m" for m
    by (rule ccontr) (use bitlen_bounds [OF that] that in auto)
  then have pos: "1 \<le> bitlen n" "1 \<le> bitlen d" using n d by blast+
  have pi: "(2::rat) powi a = of_int (2 ^ nat a)" if "0 \<le> a" for a
    using that by (simp add: power_int_def)
  have rn: "2 powi (bitlen n - 1) \<le> (of_int n :: rat)" "(of_int n :: rat) < 2 powi bitlen n"
    using bn pos by (simp_all only: pi of_int_le_iff of_int_less_iff)
  have rd: "2 powi (bitlen d - 1) \<le> (of_int d :: rat)" "(of_int d :: rat) < 2 powi bitlen d"
    using bd pos by (simp_all only: pi of_int_le_iff of_int_less_iff)
  have lo: "2 powi (k - 1) < x"
  proof -
    have "2 powi (k - 1) * (of_int d :: rat) < 2 powi (k - 1) * 2 powi bitlen d" using rd(2) by simp
    also have "\<dots> = 2 powi (bitlen n - 1)" by (simp add: k_def flip: power_int_add)
    also have "\<dots> \<le> of_int n" by (rule rn(1))
    finally show ?thesis using d by (simp add: x field_simps)
  qed
  have hi: "x < 2 powi (k + 1)"
  proof -
    have "(of_int n :: rat) < 2 powi bitlen n" by (rule rn(2))
    also have "\<dots> = 2 powi (k + 1) * 2 powi (bitlen d - 1)" by (simp add: k_def flip: power_int_add)
    also have "\<dots> \<le> 2 powi (k + 1) * of_int d" using rd(1) by simp
    finally show ?thesis using d by (simp add: x field_simps)
  qed
  have e: "ilog2 x = (if 2 powi k \<le> x then k else k - 1)" by (simp add: ilog2_def q k_def Let_def)
  show "2 powi ilog2 x \<le> x" using lo by (simp add: e)
  show "x < 2 powi (ilog2 x + 1)" using hi by (simp add: e)
qed

lemma powi_le_iff: "(2::rat) powi a \<le> 2 powi b \<longleftrightarrow> a \<le> b"
  by (metis linorder_not_le order_less_imp_le power_int_increasing power_int_strict_increasing one_less_numeral_iff
      semiring_norm(76) less_imp_le)

lemma powi_less_iff: "(2::rat) powi a < 2 powi b \<longleftrightarrow> a < b"
  by (simp only: not_le [symmetric] powi_le_iff)

lemma ilog2_unique:
  assumes "0 < x" and "2 powi e \<le> x" and "x < 2 powi (e + 1)"
  shows "ilog2 x = e"
proof -
  have "(2::rat) powi e < 2 powi (ilog2 x + 1)" using assms(2) ilog2_bounds(2) [OF assms(1)] by linarith
  moreover have "(2::rat) powi ilog2 x < 2 powi (e + 1)" using assms(3) ilog2_bounds(1) [OF assms(1)] by linarith
  ultimately show ?thesis by (simp only: powi_less_iff)
qed

lemma ilog2_mono: "0 < x \<Longrightarrow> x \<le> y \<Longrightarrow> ilog2 x \<le> ilog2 y"
proof -
  assume x: "0 < x" and "x \<le> y"
  then have "(2::rat) powi ilog2 x < 2 powi (ilog2 y + 1)"
    using ilog2_bounds(1) [of x] ilog2_bounds(2) [of y] by linarith
  then show ?thesis by (simp only: powi_less_iff)
qed

section \<open>Rounding is monotone and exact on small integers\<close>

lemma f32_round_0 [simp]: "f32_round 0 = 0"
  by (simp add: f32_round_def)

lemma f32_round_nonneg: "0 \<le> x \<Longrightarrow> 0 \<le> f32_round x"
  using round_half_even_ge [of 0 "x / 2 powi quantum x"] by (simp add: f32_round_def)

lemma powi_of_int: "0 \<le> a \<Longrightarrow> (2::rat) powi a = of_int (2 ^ nat a)"
  by (simp add: power_int_def)

lemma powi_quot: "q \<le> b \<Longrightarrow> (2 powi b / 2 powi q :: rat) = of_int (2 ^ nat (b - q))"
  using powi_of_int [of "b - q"] power_int_diff [of "2 :: rat" b q] by simp

lemma round_at_le:
  assumes "x \<le> 2 powi b" and "q \<le> b"
  shows "of_int (round_half_even (x / 2 powi q)) * 2 powi q \<le> (2 powi b :: rat)"
proof -
  have "x / 2 powi q \<le> 2 powi b / 2 powi q" using assms(1) by (simp add: divide_right_mono)
  also have "\<dots> = of_int (2 ^ nat (b - q))"
    using powi_quot [OF assms(2)] by simp
  finally have "round_half_even (x / 2 powi q) \<le> 2 ^ nat (b - q)" by (rule round_half_even_le)
  then have "(of_int (round_half_even (x / 2 powi q)) :: rat) \<le> of_int (2 ^ nat (b - q))"
    by (simp only: of_int_le_iff)
  also have "\<dots> = 2 powi b / 2 powi q"
    using powi_quot [OF assms(2)] by simp
  finally show ?thesis by (simp add: field_simps)
qed

lemma round_at_ge:
  assumes "2 powi b \<le> x" and "q \<le> b"
  shows "(2 powi b :: rat) \<le> of_int (round_half_even (x / 2 powi q)) * 2 powi q"
proof -
  have "of_int (2 ^ nat (b - q)) = 2 powi b / (2 powi q :: rat)"
    using powi_quot [OF assms(2)] by simp
  also have "\<dots> \<le> x / 2 powi q" using assms(1) by (simp add: divide_right_mono)
  finally have "2 ^ nat (b - q) \<le> round_half_even (x / 2 powi q)" by (rule round_half_even_ge)
  then have "of_int (2 ^ nat (b - q)) * 2 powi q \<le> (of_int (round_half_even (x / 2 powi q)) * 2 powi q :: rat)"
    by (intro mult_right_mono) (simp_all only: of_int_le_iff, simp)
  moreover have "of_int (2 ^ nat (b - q)) * 2 powi q = (2 powi b :: rat)"
    using powi_quot [OF assms(2)] by (simp add: field_simps)
  ultimately show ?thesis by (simp only:)
qed

lemma f32_round_mono_pos:
  assumes x: "0 < x" and xy: "x \<le> y"
  shows "f32_round x \<le> f32_round y"
proof -
  have y: "0 < y" using assms by linarith
  have qx: "quantum x = max (ilog2 x - 23) (- 149)" and qy: "quantum y = max (ilog2 y - 23) (- 149)"
    using x y by (simp_all add: quantum_def)
  have rx: "f32_round x = of_int (round_half_even (x / 2 powi quantum x)) * 2 powi quantum x"
    and ry: "f32_round y = of_int (round_half_even (y / 2 powi quantum y)) * 2 powi quantum y"
    using x y by (simp_all add: f32_round_def)
  have le: "quantum x \<le> quantum y" using ilog2_mono [OF x xy] qx qy by linarith
  show ?thesis
  proof (cases "quantum x = quantum y")
    case True
    have "x / 2 powi quantum y \<le> y / 2 powi quantum y" using xy by (simp add: divide_right_mono)
    then have "round_half_even (x / 2 powi quantum y) \<le> round_half_even (y / 2 powi quantum y)"
      by (rule round_half_even_mono)
    then show ?thesis unfolding rx ry True by simp
  next
    case False
    define b where "b = ilog2 y"
    have b: "quantum y = b - 23" "quantum x < b - 23" using False le qx qy by (auto simp: b_def)
    have "x < 2 powi (ilog2 x + 1)" by (rule ilog2_bounds(2) [OF x])
    also have "(2 powi (ilog2 x + 1) :: rat) \<le> 2 powi b" using b qx by (intro power_int_increasing) auto
    finally have "f32_round x \<le> 2 powi b" unfolding rx using b by (intro round_at_le) auto
    also have "\<dots> \<le> f32_round y"
      unfolding ry using b ilog2_bounds(1) [OF y] by (intro round_at_ge) (auto simp: b_def)
    finally show ?thesis .
  qed
qed

lemma f32_round_mono: "0 \<le> x \<Longrightarrow> x \<le> y \<Longrightarrow> f32_round x \<le> f32_round y"
  using f32_round_mono_pos [of x y] f32_round_nonneg [of y] by (cases "x = 0") auto

lemma f32_round_small: "n < 2 ^ 24 \<Longrightarrow> f32_round (of_nat n) = of_nat n"
proof (cases "n = 0")
  case False
  assume n: "n < 2 ^ 24"
  let ?x = "of_nat n :: rat"
  have pos: "0 < ?x" using False by simp
  have "2 powi ilog2 ?x < (2 powi 24 :: rat)"
    using ilog2_bounds(1) [OF pos] n by (simp add: power_int_def)
  then have "ilog2 ?x \<le> 23" by (simp only: powi_less_iff)
  then have q: "quantum ?x \<le> 0" using pos by (simp add: quantum_def)
  define m where "m = int n * 2 ^ nat (- quantum ?x)"
  have m: "?x / 2 powi quantum ?x = of_int m"
    using q by (cases "quantum ?x = 0") (simp_all add: m_def power_int_def field_simps)
  have "f32_round ?x = of_int m * 2 powi quantum ?x"
    using False unfolding f32_round_def m round_half_even_of_int by simp
  also have "\<dots> = ?x" unfolding m [symmetric] by simp
  finally show ?thesis .
qed simp

lemma nat_as_f32_small: "n < 2 ^ 24 \<Longrightarrow> nat_as_f32 n = of_nat n"
  by (simp add: nat_as_f32_def f32_round_small)

lemma nat_as_f32_mono: "m \<le> n \<Longrightarrow> nat_as_f32 m \<le> nat_as_f32 n"
  by (simp add: nat_as_f32_def f32_round_mono)

lemma nat_as_f32_nonneg [simp]: "0 \<le> nat_as_f32 n"
  by (simp add: nat_as_f32_def f32_round_nonneg)

end
