(* ===== verification/Cgn_Admission.thy ===== *)
theory Cgn_Admission
  imports Cgn_Prelude
begin

text \<open>
  Router-side queue admission (\<open>cgn-router/src/admission.rs\<close>). Each critical section under
  the pool's mutex is one function. A parked request waits on a oneshot channel: \<open>Open\<close>
  while the receiver waits, \<open>Delivered\<close> once a slot was sent and not yet taken, \<open>Gone\<close>
  when the receiver no longer exists. The life of permits and waiters is the step relation
  \<open>adm_step\<close>; counters exported to Prometheus are left out.
\<close>

section \<open>State\<close>

type_synonym waiter = nat

datatype chan = Open | Delivered | Gone

record PoolInner =
  po_inflight :: nat
  po_waiting :: "string \<rightharpoonup> waiter list"
  po_turn :: "string list"

definition PoolInner_default :: PoolInner where
  "PoolInner_default = \<lparr> po_inflight = 0, po_waiting = Map.empty, po_turn = [] \<rparr>"

datatype Rejected = QueueFull | WaitTimeout

datatype NodeRole = Unspecified | RolePrefill | RoleDecode | RoleBoth

fun role_i32 :: "NodeRole \<Rightarrow> int" where
  "role_i32 Unspecified = 0"
| "role_i32 RolePrefill = 1"
| "role_i32 RoleDecode = 2"
| "role_i32 RoleBoth = 3"

definition role_try_from :: "int \<Rightarrow> NodeRole option" where
  "role_try_from i = (if i = 0 then Some Unspecified else if i = 1 then Some RolePrefill
     else if i = 2 then Some RoleDecode else if i = 3 then Some RoleBoth else None)"

text \<open>The pools by (model, role), created on first use.\<close>

type_synonym Admission = "(string \<times> int) \<rightharpoonup> PoolInner"

definition adm_pool :: "Admission \<Rightarrow> string \<Rightarrow> int \<Rightarrow> PoolInner" where
  "adm_pool a model role = (case a (model, role) of None \<Rightarrow> PoolInner_default | Some p \<Rightarrow> p)"

section \<open>Operations\<close>

definition queue_of :: "PoolInner \<Rightarrow> string \<Rightarrow> waiter list" where
  "queue_of g t = (case po_waiting g t of None \<Rightarrow> [] | Some q \<Rightarrow> q)"

text \<open>One round of the loop of \<open>Pool::release\<close> for the tenant popped from \<open>turn\<close>: the
  popped waiter, if any, and the state after re-queueing or removing the tenant.\<close>

definition serve_tenant :: "string \<Rightarrow> string list \<Rightarrow> PoolInner \<Rightarrow> waiter option \<times> PoolInner" where
  "serve_tenant tenant rest g =
     (case po_waiting g tenant of
        None \<Rightarrow> (None, g\<lparr> po_turn := rest \<rparr>)
      | Some [] \<Rightarrow> (None, g\<lparr> po_turn := rest, po_waiting := (po_waiting g)(tenant := None) \<rparr>)
      | Some (w # ws) \<Rightarrow>
          (Some w,
           if ws = [] then g\<lparr> po_turn := rest, po_waiting := (po_waiting g)(tenant := None) \<rparr>
           else g\<lparr> po_turn := rest @ [tenant], po_waiting := (po_waiting g)(tenant \<mapsto> ws) \<rparr>))"

definition backlog :: "PoolInner \<Rightarrow> nat" where
  "backlog g = (\<Sum>t \<in> set (po_turn g). length (queue_of g t))"

lemma serve_tenant_None:
  assumes "po_turn g = tenant # rest" and "serve_tenant tenant rest g = (None, g')"
  shows "backlog g' \<le> backlog g \<and> length (po_turn g') < length (po_turn g)"
proof -
  have "queue_of g' t = queue_of g t" for t
    using assms(2) by (auto simp: serve_tenant_def queue_of_def split: option.splits list.splits if_splits)
  moreover have "po_turn g' = rest"
    using assms(2) by (auto simp: serve_tenant_def split: option.splits list.splits if_splits)
  ultimately show ?thesis
    using assms(1) by (simp add: backlog_def) (rule sum_mono2, auto)
qed

lemma serve_tenant_Some:
  assumes turn: "po_turn g = tenant # rest" and serve: "serve_tenant tenant rest g = (Some w, g')"
  shows "backlog g' < backlog g"
proof -
  from serve obtain ws where ws: "po_waiting g tenant = Some (w # ws)"
    and g': "g' = (if ws = [] then g\<lparr> po_turn := rest, po_waiting := (po_waiting g)(tenant := None) \<rparr>
           else g\<lparr> po_turn := rest @ [tenant], po_waiting := (po_waiting g)(tenant \<mapsto> ws) \<rparr>)"
    by (auto simp: serve_tenant_def split: option.splits list.splits)
  have q: "queue_of g' = (queue_of g)(tenant := ws)" unfolding g' by (auto simp: queue_of_def fun_eq_iff)
  have sub: "set (po_turn g') \<subseteq> set (po_turn g)" unfolding g' turn by auto
  have "backlog g' \<le> (\<Sum>t \<in> set (po_turn g). length (queue_of g' t))"
    unfolding backlog_def by (rule sum_mono2) (use sub in auto)
  also have "\<dots> < backlog g"
    unfolding backlog_def
  proof (rule sum_strict_mono_ex1)
    show "\<forall>t \<in> set (po_turn g). length (queue_of g' t) \<le> length (queue_of g t)"
      using ws by (auto simp: q queue_of_def)
    show "\<exists>t \<in> set (po_turn g). length (queue_of g' t) < length (queue_of g t)"
      using ws turn by (intro bexI [of _ tenant]) (auto simp: q queue_of_def)
  qed simp
  finally show ?thesis .
qed

function release_loop :: "(waiter \<Rightarrow> chan) \<Rightarrow> PoolInner \<Rightarrow> waiter option \<times> PoolInner" where
  "release_loop chan g =
     (case po_turn g of
        [] \<Rightarrow> (None, g)
      | tenant # rest \<Rightarrow>
          (case serve_tenant tenant rest g of
             (None, g') \<Rightarrow> release_loop chan g'
           | (Some w, g') \<Rightarrow> if chan w = Open then (Some w, g') else release_loop chan g'))"
  by auto
termination
proof (relation "inv_image (less_than <*lex*> less_than) (\<lambda>(_, g). (backlog g, length (po_turn g)))")
  show "wf (inv_image (less_than <*lex*> less_than) (\<lambda>(_, g). (backlog g, length (po_turn g))))" by auto
next
  fix chan :: "waiter \<Rightarrow> chan" and g tenant rest x g'
  assume "po_turn g = tenant # rest" "(x, g') = serve_tenant tenant rest g" "x = None"
  then show "((chan, g'), (chan, g)) \<in> inv_image (less_than <*lex*> less_than) (\<lambda>(_, g). (backlog g, length (po_turn g)))"
    using serve_tenant_None [of g tenant rest g'] by auto
next
  fix chan :: "waiter \<Rightarrow> chan" and g tenant rest x g' w
  assume "po_turn g = tenant # rest" "(x, g') = serve_tenant tenant rest g" "x = Some w"
  then show "((chan, g'), (chan, g)) \<in> inv_image (less_than <*lex*> less_than) (\<lambda>(_, g). (backlog g, length (po_turn g)))"
    using serve_tenant_Some [of g tenant rest w g'] by auto
qed

declare release_loop.simps [simp del]

text \<open>\<open>Pool::release\<close>: the slot goes to the waiter found, or is freed.\<close>

definition pool_release :: "(waiter \<Rightarrow> chan) \<Rightarrow> PoolInner \<Rightarrow> PoolInner \<times> (waiter \<Rightarrow> chan)" where
  "pool_release chan g =
     (case release_loop chan g of
        (Some w, g') \<Rightarrow> (g', chan(w := Delivered))
      | (None, g') \<Rightarrow> (g'\<lparr> po_inflight := po_inflight g' - 1 \<rparr>, chan))"

definition try_admit :: "nat \<Rightarrow> PoolInner \<Rightarrow> PoolInner option" where
  "try_admit max_q g =
     (if po_inflight g \<ge> max_q \<or> po_turn g \<noteq> [] then None
      else Some (g\<lparr> po_inflight := po_inflight g + 1 \<rparr>))"

datatype parked = Slot PoolInner | Parked PoolInner | Full PoolInner

text \<open>The second critical section of \<open>admit\<close>, with \<open>w\<close> the sender of the fresh channel.\<close>

definition admit_section :: "nat \<Rightarrow> nat \<Rightarrow> string \<Rightarrow> waiter \<Rightarrow> PoolInner \<Rightarrow> parked" where
  "admit_section max_q per_tenant tenant w g =
     (if po_inflight g < max_q \<and> po_turn g = [] then Slot (g\<lparr> po_inflight := po_inflight g + 1 \<rparr>)
      else
        let queue = queue_of g tenant;
            g = g\<lparr> po_waiting := (po_waiting g)(tenant \<mapsto> queue) \<rparr>
        in if length queue \<ge> per_tenant
           then Full (if queue = [] then g\<lparr> po_waiting := (po_waiting g)(tenant := None) \<rparr> else g)
           else
             let queue = queue @ [w];
                 g = g\<lparr> po_waiting := (po_waiting g)(tenant \<mapsto> queue) \<rparr>
             in Parked (if length queue = 1 then g\<lparr> po_turn := po_turn g @ [tenant] \<rparr> else g))"

text \<open>The outcome of the timed wait: a slot that has arrived wins over the timer, also when the
  timer fires first and the channel is then closed; \<open>None\<close> while the request stays parked.\<close>

definition wait_outcome :: "bool \<Rightarrow> bool \<Rightarrow> bool \<Rightarrow> (Rejected, unit) result option" where
  "wait_outcome delivered sender_dropped timer_fired =
     (if delivered then Some (Inr ())
      else if sender_dropped then Some (Inl QueueFull)
      else if timer_fired then Some (Inl WaitTimeout)
      else None)"

definition role_for_dispatch :: "bool \<Rightarrow> nat \<Rightarrow> nat \<Rightarrow> int" where
  "role_for_dispatch disagg_enabled colocate_below prompt_tokens =
     (if disagg_enabled \<and> prompt_tokens \<ge> colocate_below then role_i32 RoleDecode else role_i32 RoleBoth)"

definition role_label :: "int \<Rightarrow> string" where
  "role_label role =
     (case (case role_try_from role of None \<Rightarrow> Unspecified | Some r \<Rightarrow> r) of
        RolePrefill \<Rightarrow> ''prefill'' | RoleDecode \<Rightarrow> ''decode'' | RoleBoth \<Rightarrow> ''both''
      | Unspecified \<Rightarrow> ''unspecified'')"

fun rejection :: "Rejected \<Rightarrow> string \<times> string" where
  "rejection QueueFull = (''queue_full'', ''tenant wait queue full'')"
| "rejection WaitTimeout = (''wait_timeout'', ''wait timed out'')"

section \<open>Permits and waiters over time\<close>

record adm_world =
  aw_pool :: PoolInner
  aw_chan :: "waiter \<Rightarrow> chan"
  aw_permits :: nat
  aw_next :: waiter

definition adm_init :: adm_world where
  "adm_init = \<lparr> aw_pool = PoolInner_default, aw_chan = (\<lambda>_. Gone), aw_permits = 0, aw_next = 0 \<rparr>"

text \<open>\<open>leak\<close> says whether a parked future may be dropped after its slot was sent.\<close>

inductive adm_step :: "nat \<Rightarrow> nat \<Rightarrow> bool \<Rightarrow> adm_world \<Rightarrow> adm_world \<Rightarrow> bool" for max_q per_tenant leak where
  fast: "try_admit max_q (aw_pool v) = Some g \<Longrightarrow>
    adm_step max_q per_tenant leak v (v\<lparr> aw_pool := g, aw_permits := aw_permits v + 1 \<rparr>)"
| slot: "admit_section max_q per_tenant t (aw_next v) (aw_pool v) = Slot g \<Longrightarrow>
    adm_step max_q per_tenant leak v (v\<lparr> aw_pool := g, aw_permits := aw_permits v + 1 \<rparr>)"
| park: "admit_section max_q per_tenant t (aw_next v) (aw_pool v) = Parked g \<Longrightarrow>
    adm_step max_q per_tenant leak v
      (v\<lparr> aw_pool := g, aw_chan := (aw_chan v)(aw_next v := Open), aw_next := aw_next v + 1 \<rparr>)"
| full: "admit_section max_q per_tenant t (aw_next v) (aw_pool v) = Full g \<Longrightarrow>
    adm_step max_q per_tenant leak v (v\<lparr> aw_pool := g \<rparr>)"
| wake: "aw_chan v w = Delivered \<Longrightarrow>
    adm_step max_q per_tenant leak v (v\<lparr> aw_chan := (aw_chan v)(w := Gone), aw_permits := aw_permits v + 1 \<rparr>)"
| leave: "aw_chan v w = Open \<Longrightarrow> adm_step max_q per_tenant leak v (v\<lparr> aw_chan := (aw_chan v)(w := Gone) \<rparr>)"
| drop: "0 < aw_permits v \<Longrightarrow> pool_release (aw_chan v) (aw_pool v) = (g, c) \<Longrightarrow>
    adm_step max_q per_tenant leak v (v\<lparr> aw_pool := g, aw_chan := c, aw_permits := aw_permits v - 1 \<rparr>)"
| abandon: "leak \<Longrightarrow> aw_chan v w = Delivered \<Longrightarrow>
    adm_step max_q per_tenant leak v (v\<lparr> aw_chan := (aw_chan v)(w := Gone) \<rparr>)"

section \<open>Invariants\<close>

text \<open>Tenants in line are exactly those with a parked request, each once; whoever is parked has a
  channel of its own; and nobody is parked while a slot is free.\<close>

definition pool_wf :: "nat \<Rightarrow> PoolInner \<Rightarrow> bool" where
  "pool_wf max_q g \<longleftrightarrow> distinct (po_turn g) \<and> set (po_turn g) = dom (po_waiting g)
     \<and> (\<forall>t q. po_waiting g t = Some q \<longrightarrow> q \<noteq> [])
     \<and> po_inflight g \<le> max_q \<and> (po_turn g \<noteq> [] \<longrightarrow> po_inflight g = max_q)"

lemma serve_tenant_wf:
  assumes "pool_wf max_q g" and "po_turn g = tenant # rest"
  shows "\<exists>w ws. po_waiting g tenant = Some (w # ws) \<and> queue_of g tenant = w # ws
    \<and> serve_tenant tenant rest g =
        (Some w, if ws = [] then g\<lparr> po_turn := rest, po_waiting := (po_waiting g)(tenant := None) \<rparr>
           else g\<lparr> po_turn := rest @ [tenant], po_waiting := (po_waiting g)(tenant \<mapsto> ws) \<rparr>)"
proof -
  from assms have "tenant \<in> dom (po_waiting g)" by (auto simp: pool_wf_def)
  then obtain q where "po_waiting g tenant = Some q" by blast
  moreover with assms(1) have "q \<noteq> []" by (auto simp: pool_wf_def)
  ultimately show ?thesis by (cases q) (auto simp: serve_tenant_def queue_of_def)
qed

lemma serve_tenant_keeps:
  assumes "pool_wf max_q g" and "po_turn g = tenant # rest" and "serve_tenant tenant rest g = (Some w, g')"
  shows "pool_wf max_q g' \<and> po_inflight g' = po_inflight g \<and> po_inflight g = max_q"
proof -
  from serve_tenant_wf [OF assms(1,2)] assms(3) obtain ws where
    q: "po_waiting g tenant = Some (w # ws)" and
    g': "g' = (if ws = [] then g\<lparr> po_turn := rest, po_waiting := (po_waiting g)(tenant := None) \<rparr>
           else g\<lparr> po_turn := rest @ [tenant], po_waiting := (po_waiting g)(tenant \<mapsto> ws) \<rparr>)" by auto
  show ?thesis using assms(1,2) q unfolding g' pool_wf_def by (auto split: if_splits)
qed

lemma release_loop_wf:
  assumes "pool_wf max_q g" and "release_loop chan g = (r, g')"
  shows "pool_wf max_q g' \<and> po_inflight g' = po_inflight g
    \<and> (case r of None \<Rightarrow> po_turn g' = [] | Some w \<Rightarrow> chan w = Open \<and> po_inflight g = max_q)"
  using assms
proof (induction chan g rule: release_loop.induct)
  case (1 chan g)
  show ?case
  proof (cases "po_turn g")
    case Nil
    with "1.prems" show ?thesis by (auto simp: release_loop.simps [of chan g])
  next
    case (Cons tenant rest)
    from serve_tenant_wf [OF "1.prems"(1) Cons] obtain w g1 where
      s: "serve_tenant tenant rest g = (Some w, g1)" by blast
    note k = serve_tenant_keeps [OF "1.prems"(1) Cons s]
    show ?thesis
    proof (cases "chan w = Open")
      case True
      with "1.prems"(2) Cons s have "r = Some w" "g' = g1" by (auto simp: release_loop.simps [of chan g])
      with k True show ?thesis by simp
    next
      case False
      with "1.prems"(2) Cons s have "release_loop chan g1 = (r, g')" by (auto simp: release_loop.simps [of chan g])
      from "1.IH"(2) [OF Cons s [symmetric] refl False _ this] k show ?thesis by (auto split: option.splits)
    qed
  qed
qed

definition delivered :: "(waiter \<Rightarrow> chan) \<Rightarrow> waiter set" where
  "delivered c = {w. c w = Delivered}"

definition in_flight :: "adm_world \<Rightarrow> nat" where
  "in_flight v = aw_permits v + card (delivered (aw_chan v))"

definition adm_inv :: "nat \<Rightarrow> adm_world \<Rightarrow> bool" where
  "adm_inv max_q v \<longleftrightarrow> pool_wf max_q (aw_pool v) \<and> finite (delivered (aw_chan v))
     \<and> (\<forall>w. aw_chan v w \<noteq> Gone \<longrightarrow> w < aw_next v)"

lemma pool_wf_default: "pool_wf max_q PoolInner_default"
  by (simp add: pool_wf_def PoolInner_default_def)

lemma admit_section_wf:
  assumes "pool_wf max_q g"
  shows "case admit_section max_q per_tenant t w g of
     Slot g' \<Rightarrow> pool_wf max_q g' \<and> po_inflight g' = po_inflight g + 1 \<and> po_inflight g < max_q
   | Parked g' \<Rightarrow> pool_wf max_q g' \<and> po_inflight g' = po_inflight g
   | Full g' \<Rightarrow> g' = g"
proof -
  consider "po_inflight g < max_q" "po_turn g = []" | "po_inflight g = max_q"
    by (cases "po_inflight g < max_q") (use assms in \<open>auto simp: pool_wf_def\<close>)
  then show ?thesis
  proof cases
    case 1
    with assms show ?thesis by (simp add: admit_section_def pool_wf_def)
  next
    case 2
    show ?thesis
    proof (cases "po_waiting g t")
      case None
      then have "t \<notin> set (po_turn g)" using assms by (auto simp: pool_wf_def)
      with None 2 assms show ?thesis
        by (auto simp: admit_section_def queue_of_def Let_def pool_wf_def)
    next
      case (Some q)
      then have "t \<in> set (po_turn g)" "q \<noteq> []" using assms by (auto simp: pool_wf_def)
      moreover from Some have "g\<lparr> po_waiting := (po_waiting g)(t \<mapsto> q) \<rparr> = g" by (simp add: map_upd_triv)
      ultimately show ?thesis using Some 2 assms
        by (auto simp: admit_section_def queue_of_def Let_def pool_wf_def)
    qed
  qed
qed

lemma try_admit_wf:
  "pool_wf max_q g \<Longrightarrow> try_admit max_q g = Some g' \<Longrightarrow>
   pool_wf max_q g' \<and> po_inflight g' = po_inflight g + 1"
proof -
  assume wf: "pool_wf max_q g" and adm: "try_admit max_q g = Some g'"
  then have "g' = g\<lparr> po_inflight := po_inflight g + 1 \<rparr>" "po_inflight g < max_q" "po_turn g = []"
    by (auto simp: try_admit_def split: if_splits)
  with wf show ?thesis by (simp add: pool_wf_def)
qed

lemma pool_release_wf:
  assumes "pool_wf max_q g" and "pool_release chan g = (g', c)"
  shows "pool_wf max_q g' \<and>
    ((\<exists>w. chan w = Open \<and> c = chan(w := Delivered) \<and> po_inflight g' = po_inflight g)
     \<or> (c = chan \<and> po_turn g' = [] \<and> po_inflight g' = po_inflight g - 1))"
proof -
  obtain r g1 where r: "release_loop chan g = (r, g1)" by fastforce
  note w = release_loop_wf [OF assms(1) r]
  show ?thesis
  proof (cases r)
    case None
    with r assms(2) have "g' = g1\<lparr> po_inflight := po_inflight g1 - 1 \<rparr>" "c = chan" by (auto simp: pool_release_def)
    with w None show ?thesis by (auto simp: pool_wf_def)
  next
    case (Some x)
    with r assms(2) have "g' = g1" "c = chan(x := Delivered)" by (auto simp: pool_release_def)
    with w Some show ?thesis by auto
  qed
qed

lemma delivered_upd [simp]:
  "delivered (c(w := d)) = (if d = Delivered then insert w (delivered c) else delivered c - {w})"
  by (auto simp: delivered_def)

lemma delivered_iff [simp]: "w \<in> delivered c \<longleftrightarrow> c w = Delivered"
  by (simp add: delivered_def)

lemma adm_step_inv: "adm_step max_q per_tenant leak v v' \<Longrightarrow> adm_inv max_q v \<Longrightarrow> adm_inv max_q v'"
proof (cases rule: adm_step.cases, assumption, goal_cases)
  case (1 g)
  then show ?thesis by (auto simp: adm_inv_def dest: try_admit_wf)
next
  case (2 t g)
  then show ?thesis using admit_section_wf [of max_q "aw_pool v" per_tenant t "aw_next v"] by (simp add: adm_inv_def)
next
  case (3 t g)
  have "pool_wf max_q g"
    using 3 admit_section_wf [of max_q "aw_pool v" per_tenant t "aw_next v"] by (simp add: adm_inv_def)
  then show ?thesis using 3 by (simp add: adm_inv_def less_Suc_eq)
next
  case (4 t g)
  then show ?thesis using admit_section_wf [of max_q "aw_pool v" per_tenant t "aw_next v"] by (simp add: adm_inv_def)
next
  case (7 g c)
  then have "pool_wf max_q g \<and> ((\<exists>w. aw_chan v w = Open \<and> c = (aw_chan v)(w := Delivered)) \<or> c = aw_chan v)"
    using pool_release_wf [of max_q "aw_pool v" "aw_chan v" g c] by (auto simp: adm_inv_def)
  with 7 show ?thesis by (auto simp: adm_inv_def split: if_splits)
qed (auto simp: adm_inv_def)

text \<open>The difference between the slots counted and the slots somebody can still give back never
  shrinks, and grows only when a parked future is dropped after its slot was sent.\<close>

lemma adm_step_count:
  assumes "adm_step max_q per_tenant leak v v'" and "adm_inv max_q v"
    and le: "in_flight v \<le> po_inflight (aw_pool v)"
  shows "in_flight v' \<le> po_inflight (aw_pool v')
    \<and> po_inflight (aw_pool v) - in_flight v \<le> po_inflight (aw_pool v') - in_flight v'
    \<and> (\<not> leak \<longrightarrow> in_flight v = po_inflight (aw_pool v) \<longrightarrow> in_flight v' = po_inflight (aw_pool v'))"
  using assms(1)
proof (cases rule: adm_step.cases)
  case (fast g)
  then show ?thesis using assms(2) le by (auto simp: adm_inv_def in_flight_def dest: try_admit_wf)
next
  case (slot t g)
  then show ?thesis using assms(2) le admit_section_wf [of max_q "aw_pool v" per_tenant t "aw_next v"]
    by (simp add: adm_inv_def in_flight_def)
next
  case (park t g)
  have "aw_chan v (aw_next v) = Gone" using assms(2) unfolding adm_inv_def by blast
  with park show ?thesis using assms(2) le admit_section_wf [of max_q "aw_pool v" per_tenant t "aw_next v"]
    by (simp add: adm_inv_def in_flight_def)
next
  case (full t g)
  then show ?thesis using assms(2) le admit_section_wf [of max_q "aw_pool v" per_tenant t "aw_next v"]
    by (simp add: adm_inv_def)
next
  case (wake w)
  then have "0 < card (delivered (aw_chan v))" using assms(2) by (auto simp: adm_inv_def card_gt_0_iff)
  with wake le show ?thesis using assms(2) by (simp add: in_flight_def card_Diff_singleton)
next
  case (leave w)
  then show ?thesis using le by (simp add: in_flight_def)
next
  case (drop g c)
  from pool_release_wf [OF _ drop(3)] assms(2) have
    "(\<exists>w. aw_chan v w = Open \<and> c = (aw_chan v)(w := Delivered) \<and> po_inflight g = po_inflight (aw_pool v))
     \<or> (c = aw_chan v \<and> po_inflight g = po_inflight (aw_pool v) - 1)" by (auto simp: adm_inv_def)
  then show ?thesis
  proof (elim disjE exE)
    fix w assume "aw_chan v w = Open \<and> c = (aw_chan v)(w := Delivered) \<and> po_inflight g = po_inflight (aw_pool v)"
    with drop le assms(2) show ?thesis by (simp add: in_flight_def adm_inv_def card_insert_if)
  next
    assume "c = aw_chan v \<and> po_inflight g = po_inflight (aw_pool v) - 1"
    with drop le show ?thesis by (auto simp: in_flight_def)
  qed
next
  case (abandon w)
  then show ?thesis using le assms(2) by (simp add: in_flight_def adm_inv_def card_Diff_singleton) arith
qed

lemma adm_steps_inv:
  assumes "(adm_step max_q per_tenant leak)\<^sup>*\<^sup>* adm_init v"
  shows "adm_inv max_q v \<and> in_flight v \<le> po_inflight (aw_pool v)
    \<and> (\<not> leak \<longrightarrow> in_flight v = po_inflight (aw_pool v))"
  using assms
proof (induction rule: rtranclp_induct)
  case base
  show ?case by (simp add: adm_inv_def adm_init_def pool_wf_def in_flight_def delivered_def PoolInner_default_def)
next
  case (step v v')
  then show ?case using adm_step_inv [OF step.hyps(2)] adm_step_count [OF step.hyps(2)] by blast
qed

section \<open>Round robin\<close>

definition parked_waiters :: "PoolInner \<Rightarrow> waiter list" where
  "parked_waiters g = concat (map (queue_of g) (po_turn g))"

fun release_n :: "nat \<Rightarrow> (waiter \<Rightarrow> chan) \<Rightarrow> PoolInner \<Rightarrow> PoolInner \<times> (waiter \<Rightarrow> chan)" where
  "release_n 0 chan g = (g, chan)"
| "release_n (Suc k) chan g = (case pool_release chan g of (g', chan') \<Rightarrow> release_n k chan' g')"

lemma pool_release_head:
  assumes wf: "pool_wf max_q g" and turn: "po_turn g = t # rest"
    and live: "\<forall>w \<in> set (parked_waiters g). chan w = Open"
  obtains w ws where "queue_of g t = w # ws"
    "pool_release chan g =
       (if ws = [] then g\<lparr> po_turn := rest, po_waiting := (po_waiting g)(t := None) \<rparr>
        else g\<lparr> po_turn := rest @ [t], po_waiting := (po_waiting g)(t \<mapsto> ws) \<rparr>, chan(w := Delivered))"
proof -
  from serve_tenant_wf [OF wf turn] obtain w ws where q: "queue_of g t = w # ws"
    and s: "serve_tenant t rest g =
        (Some w, if ws = [] then g\<lparr> po_turn := rest, po_waiting := (po_waiting g)(t := None) \<rparr>
           else g\<lparr> po_turn := rest @ [t], po_waiting := (po_waiting g)(t \<mapsto> ws) \<rparr>)" by blast
  have "chan w = Open" using live q turn by (simp add: parked_waiters_def)
  then have "release_loop chan g = serve_tenant t rest g"
    using turn s by (simp add: release_loop.simps [of chan g])
  with q s show ?thesis by (intro that [of w ws]) (simp_all add: pool_release_def)
qed

lemma release_n_delivers:
  assumes "pool_wf max_q g" and "distinct (parked_waiters g)" and "\<forall>w \<in> set (parked_waiters g). chan w = Open"
    and "k < length (po_turn g)" and "queue_of g (po_turn g ! k) = w # ws"
  shows "snd (release_n (Suc k) chan g) w = Delivered"
  using assms
proof (induction k arbitrary: g chan)
  case 0
  then obtain t rest where turn: "po_turn g = t # rest" by (cases "po_turn g") auto
  show ?case
  proof (rule pool_release_head [OF "0.prems"(1) turn "0.prems"(3)])
    fix w' ws'
    assume "queue_of g t = w' # ws'" "pool_release chan g =
       (if ws' = [] then g\<lparr> po_turn := rest, po_waiting := (po_waiting g)(t := None) \<rparr>
        else g\<lparr> po_turn := rest @ [t], po_waiting := (po_waiting g)(t \<mapsto> ws') \<rparr>, chan(w' := Delivered))"
    with "0.prems"(5) turn show ?thesis by simp
  qed
next
  case (Suc k)
  then obtain t rest where turn: "po_turn g = t # rest" by (cases "po_turn g") auto
  have dist: "distinct (t # rest)" using Suc.prems(1) turn by (simp add: pool_wf_def)
  obtain w0 ws0 where q0: "queue_of g t = w0 # ws0"
    and rel: "pool_release chan g =
       (if ws0 = [] then g\<lparr> po_turn := rest, po_waiting := (po_waiting g)(t := None) \<rparr>
        else g\<lparr> po_turn := rest @ [t], po_waiting := (po_waiting g)(t \<mapsto> ws0) \<rparr>, chan(w0 := Delivered))"
    by (rule pool_release_head [OF Suc.prems(1) turn Suc.prems(3)])
  define g1 where "g1 = (if ws0 = [] then g\<lparr> po_turn := rest, po_waiting := (po_waiting g)(t := None) \<rparr>
        else g\<lparr> po_turn := rest @ [t], po_waiting := (po_waiting g)(t \<mapsto> ws0) \<rparr>)"
  have q1: "queue_of g1 = (queue_of g)(t := ws0)" by (auto simp: g1_def queue_of_def fun_eq_iff)
  have t1: "po_turn g1 = rest @ (if ws0 = [] then [] else [t])" by (simp add: g1_def)
  have map_eq: "map (queue_of g1) rest = map (queue_of g) rest" using dist by (auto simp: q1)
  have "mset (parked_waiters g) = add_mset w0 (mset (parked_waiters g1))"
    by (simp add: parked_waiters_def turn q0 t1 map_eq [unfolded q1] q1)
  then have "distinct (w0 # parked_waiters g1)" "set (parked_waiters g) = insert w0 (set (parked_waiters g1))"
    using Suc.prems(2) by (metis mset.simps(2) mset_eq_imp_distinct_iff, metis list.simps(15) mset.simps(2) mset_eq_setD)
  then have d1: "distinct (parked_waiters g1)" and o1: "\<forall>w \<in> set (parked_waiters g1). (chan(w0 := Delivered)) w = Open"
    using Suc.prems(3) by auto
  have wf1: "pool_wf max_q g1"
    using pool_release_wf [OF Suc.prems(1) rel] by (simp add: g1_def)
  have k: "k < length rest" "po_turn g ! Suc k = rest ! k" using Suc.prems(4) turn by simp_all
  then have k1: "k < length (po_turn g1)" "po_turn g1 ! k = rest ! k" by (simp_all add: t1 nth_append)
  have "rest ! k \<noteq> t" using dist k(1) nth_mem [OF k(1)] by auto
  then have qw: "queue_of g1 (po_turn g1 ! k) = w # ws" using Suc.prems(5) k k1 by (simp add: q1)
  have "snd (release_n (Suc k) (chan(w0 := Delivered)) g1) w = Delivered"
    by (rule Suc.IH [OF wf1 d1 o1 k1(1) qw])
  then show ?case unfolding release_n.simps(2) [of "Suc k"] rel [folded g1_def] prod.case .
qed

section \<open>Properties\<close>

text \<open>C14: in every reachable state of a pool the slots held by permits or already handed to a parked
  request never exceed the counter, the counter never exceeds \<open>max_queue\<close>, and nobody is parked
  while a slot is free; and as long as no request is abandoned between being handed a slot and taking
  it, the counter is exact.\<close>

theorem admission_slots_conserved:
  assumes "(adm_step max_q per_tenant leak)\<^sup>*\<^sup>* adm_init v"
  shows "in_flight v \<le> po_inflight (aw_pool v) \<and> po_inflight (aw_pool v) \<le> max_q
    \<and> (po_turn (aw_pool v) \<noteq> [] \<longrightarrow> po_inflight (aw_pool v) = max_q)
    \<and> (\<not> leak \<longrightarrow> in_flight v = po_inflight (aw_pool v))"
  using adm_steps_inv [OF assms] by (simp add: adm_inv_def pool_wf_def)

definition demo_busy :: adm_world where
  "demo_busy = \<lparr> aw_pool = \<lparr> po_inflight = 1, po_waiting = Map.empty, po_turn = [] \<rparr>,
     aw_chan = (\<lambda>_. Gone), aw_permits = 1, aw_next = 0 \<rparr>"

definition demo_parked :: adm_world where
  "demo_parked = \<lparr> aw_pool = \<lparr> po_inflight = 1, po_waiting = [''a'' \<mapsto> [0]], po_turn = [''a''] \<rparr>,
     aw_chan = (\<lambda>_. Gone)(0 := Open), aw_permits = 1, aw_next = 1 \<rparr>"

lemma demo_reach:
  "(adm_step 1 2 leak)\<^sup>*\<^sup>* adm_init demo_busy" "(adm_step 1 2 leak)\<^sup>*\<^sup>* adm_init demo_parked"
proof -
  have "adm_step 1 2 leak adm_init demo_busy"
    using adm_step.fast [of 1 adm_init "\<lparr> po_inflight = 1, po_waiting = Map.empty, po_turn = [] \<rparr>"]
    by (simp add: adm_init_def demo_busy_def try_admit_def PoolInner_default_def)
  moreover have "adm_step 1 2 leak demo_busy demo_parked"
    using adm_step.park [of 1 2 "''a''" demo_busy
        "\<lparr> po_inflight = 1, po_waiting = [''a'' \<mapsto> [0]], po_turn = [''a''] \<rparr>"]
    by (simp add: demo_busy_def demo_parked_def admit_section_def queue_of_def Let_def)
  ultimately show "(adm_step 1 2 leak)\<^sup>*\<^sup>* adm_init demo_busy" "(adm_step 1 2 leak)\<^sup>*\<^sup>* adm_init demo_parked"
    by auto
qed

theorem admission_slots_conserved_witness:
  "in_flight demo_parked = 1 \<and> po_turn (aw_pool demo_parked) = [''a'']"
  using admission_slots_conserved [OF demo_reach(2) [of False]] by (simp add: demo_parked_def)

text \<open>C15: released slots go round the tenants. With \<open>k\<close> tenants ahead in line and every parked
  request still waiting, the first request of the next tenant has its slot after \<open>k + 1\<close>
  releases, however many requests the tenants ahead have queued.\<close>

theorem release_round_robin:
  assumes "pool_wf max_q g" and "distinct (parked_waiters g)" and "\<forall>w \<in> set (parked_waiters g). chan w = Open"
    and "k < length (po_turn g)" and "queue_of g (po_turn g ! k) = w # ws"
  shows "snd (release_n (Suc k) chan g) w = Delivered"
  by (rule release_n_delivers [OF assms])

definition demo_line :: PoolInner where
  "demo_line = \<lparr> po_inflight = 3, po_waiting = [''a'' \<mapsto> [0, 1, 2], ''b'' \<mapsto> [3]], po_turn = [''a'', ''b''] \<rparr>"

theorem release_round_robin_witness: "snd (release_n 2 (\<lambda>_. Open) demo_line) 3 = Delivered"
proof -
  have "pool_wf 3 demo_line" by (auto simp: pool_wf_def demo_line_def split: if_splits)
  moreover have "parked_waiters demo_line = [0, 1, 2, 3]" "queue_of demo_line (po_turn demo_line ! 1) = [3]"
    "length (po_turn demo_line) = 2" by (simp_all add: demo_line_def parked_waiters_def queue_of_def)
  ultimately show ?thesis
    using release_round_robin [of 3 demo_line "\<lambda>_. Open" 1 3 "[]"] by (simp add: numeral_2_eq_2)
qed

text \<open>C16: a slot that is handed to a parked request whose future has been dropped by then is never
  returned: the slots that are counted but that nobody holds stay lost in every later state, so the
  pool's capacity is smaller by that number for good.\<close>

theorem abandoned_slot_lost_forever:
  assumes "(adm_step max_q per_tenant True)\<^sup>*\<^sup>* adm_init v" and "(adm_step max_q per_tenant True)\<^sup>*\<^sup>* v v'"
    and "in_flight v + k \<le> po_inflight (aw_pool v)"
  shows "in_flight v' + k \<le> po_inflight (aw_pool v') \<and> in_flight v' + k \<le> max_q"
proof -
  from assms(2) have "(adm_step max_q per_tenant True)\<^sup>*\<^sup>* adm_init v'
      \<and> in_flight v' + k \<le> po_inflight (aw_pool v')"
  proof (induction rule: rtranclp_induct)
    case base
    with assms(1,3) show ?case by simp
  next
    case (step v1 v2)
    then have "adm_inv max_q v1" "in_flight v1 \<le> po_inflight (aw_pool v1)" using adm_steps_inv by blast+
    from adm_step_count [OF step.hyps(2) this] step show ?case by auto
  qed
  with adm_steps_inv [of max_q per_tenant True v'] show ?thesis by (auto simp: adm_inv_def pool_wf_def)
qed

definition demo_sent :: adm_world where
  "demo_sent = demo_parked\<lparr> aw_pool := \<lparr> po_inflight = 1, po_waiting = Map.empty, po_turn = [] \<rparr>,
     aw_chan := (\<lambda>_. Gone)(0 := Delivered), aw_permits := 0 \<rparr>"

definition demo_lost :: adm_world where
  "demo_lost = demo_sent\<lparr> aw_chan := (\<lambda>_. Gone) \<rparr>"

theorem abandoned_slot_lost_forever_witness:
  "in_flight demo_lost + 1 \<le> 1 \<and> try_admit 1 (aw_pool demo_lost) = None"
proof -
  have "pool_release (aw_chan demo_parked) (aw_pool demo_parked) = (aw_pool demo_sent, aw_chan demo_sent)"
    by (simp add: demo_parked_def demo_sent_def pool_release_def release_loop.simps serve_tenant_def)
  then have "adm_step 1 2 True demo_parked demo_sent"
    using adm_step.drop [of demo_parked "aw_pool demo_sent" "aw_chan demo_sent" 1 2 True]
    by (simp add: demo_parked_def demo_sent_def)
  moreover have "adm_step 1 2 True demo_sent demo_lost"
    using adm_step.abandon [of True demo_sent 0 1 2] by (simp add: demo_sent_def demo_lost_def fun_upd_idem)
  ultimately have r: "(adm_step 1 2 True)\<^sup>*\<^sup>* adm_init demo_lost"
    using demo_reach(2) [of True] by (meson rtranclp.rtrancl_into_rtrancl)
  have "in_flight demo_lost + 1 \<le> po_inflight (aw_pool demo_lost)"
    by (simp add: in_flight_def demo_lost_def demo_sent_def delivered_def)
  with abandoned_slot_lost_forever [OF r rtranclp.rtrancl_refl] show ?thesis
    by (simp add: try_admit_def demo_lost_def demo_sent_def)
qed

end
