(* ===== verification/Cgn_Cluster.thy ===== *)
theory Cgn_Cluster
  imports Cgn_PrefixIndex Cgn_Str Cgn_F32 Cgn_Admission
begin

text \<open>
  Cluster state. Router side: the node registry (\<open>cluster/registry.rs\<close>), prefix-claim
  reconciliation (\<open>cluster/cache_state.rs\<close>), the etcd watcher (\<open>cluster/watcher.rs\<close>) and
  the gossip watcher (\<open>cluster/gossip.rs\<close>). Agent side: the KV epoch
  (\<open>kv_cache_state.rs\<close>), the node record and the confirmed-KV publisher (\<open>health.rs\<close>).
  The four watch tasks of the router interleave: one etcd event is one atomic step. A value
  that serde could not decode is \<open>None\<close>, as is a key that is not UTF-8. The order in which a
  concurrent map is iterated is an argument.
\<close>

section \<open>Node registry\<close>

record NodeEntry =
  ne_node_id :: node_id
  ne_address :: string
  ne_role :: int
  ne_gpu_index :: "nat option"
  ne_model :: "string option"
  ne_queue_depth :: nat
  ne_free_blocks :: nat
  ne_total_blocks :: nat
  ne_power_watts :: f32
  ne_watt_limit :: f32
  ne_gpu_name :: string
  ne_gpu_vendor :: string
  ne_vram_total_mb :: nat
  ne_cordoned :: bool
  ne_kv_epoch :: nat
  ne_ready :: bool
  ne_draining :: bool
  ne_adapters :: "string list"
  ne_last_heartbeat :: instant

definition serves :: "NodeEntry \<Rightarrow> string \<Rightarrow> bool" where
  "serves n model \<longleftrightarrow> ne_model n = Some model \<or> model \<in> set (ne_adapters n)"

definition role_enum :: "NodeEntry \<Rightarrow> NodeRole" where
  "role_enum n = (case role_try_from (ne_role n) of None \<Rightarrow> Unspecified | Some r \<Rightarrow> r)"

definition fresh :: "instant \<Rightarrow> NodeEntry \<Rightarrow> duration \<Rightarrow> bool" where
  "fresh now n ttl \<longleftrightarrow> now - ne_last_heartbeat n < ttl"

type_synonym NodeRegistry = "node_id \<rightharpoonup> NodeEntry"

definition upsert :: "NodeEntry \<Rightarrow> NodeRegistry \<Rightarrow> NodeRegistry" where
  "upsert entry r = r(ne_node_id entry \<mapsto> entry)"

definition registry_forget :: "node_id \<Rightarrow> NodeRegistry \<Rightarrow> NodeRegistry" where
  "registry_forget nid r = r(nid := None)"

definition set_cordon :: "node_id \<Rightarrow> bool \<Rightarrow> NodeRegistry \<Rightarrow> NodeRegistry" where
  "set_cordon nid c r =
     (case r nid of
        None \<Rightarrow> r
      | Some n \<Rightarrow> if ne_cordoned n = c then r else r(nid \<mapsto> n\<lparr> ne_cordoned := c \<rparr>))"

definition snapshot :: "node_id list \<Rightarrow> NodeRegistry \<Rightarrow> NodeEntry list" where
  "snapshot order r = List.map_filter r order"

definition routable :: "NodeRole \<Rightarrow> string option \<Rightarrow> NodeEntry \<Rightarrow> bool" where
  "routable role model n \<longleftrightarrow>
     \<not> (ne_cordoned n \<or> ne_draining n \<or> \<not> ne_ready n) \<and>
     (role = Unspecified \<or> role_enum n = role \<or> role_enum n = RoleBoth) \<and>
     (case model of None \<Rightarrow> True | Some m \<Rightarrow> serves n m)"

definition nodes_for :: "node_id list \<Rightarrow> NodeRole \<Rightarrow> string option \<Rightarrow> NodeRegistry \<Rightarrow> NodeEntry list" where
  "nodes_for order role model r = filter (routable role model) (snapshot order r)"

definition enumerates :: "node_id list \<Rightarrow> NodeRegistry \<Rightarrow> bool" where
  "enumerates order r \<longleftrightarrow> distinct order \<and> set order = dom r"

definition registry_wf :: "NodeRegistry \<Rightarrow> bool" where
  "registry_wf r \<longleftrightarrow> (\<forall>nid n. r nid = Some n \<longrightarrow> ne_node_id n = nid)"

section \<open>Reconciliation of prefix claims\<close>

datatype PruneReason = EpochReset | EvictionBurst | Pressure

record CacheSnapshot =
  cs_kv_epoch :: nat
  cs_free_blocks :: nat
  cs_total_blocks :: nat

type_synonym CacheStateTracker = "node_id \<rightharpoonup> CacheSnapshot"

definition CacheSnapshot_default :: CacheSnapshot where
  "CacheSnapshot_default = \<lparr> cs_kv_epoch = 0, cs_free_blocks = 0, cs_total_blocks = 0 \<rparr>"

text \<open>\<open>(free as f32 / total as f32) < 0.05\<close>.\<close>

definition low_blocks :: "nat \<Rightarrow> nat \<Rightarrow> bool" where
  "low_blocks free_blks total_blks \<longleftrightarrow>
     fdiv (nat_as_f32 free_blks) (nat_as_f32 total_blks) < f32_round (5 / 100)"

definition reconcile ::
  "instant \<Rightarrow> PrefixIndex \<Rightarrow> NodeEntry \<Rightarrow> CacheStateTracker \<Rightarrow>
   PruneReason option \<times> PrefixIndex \<times> CacheStateTracker" where
  "reconcile now idx entry trk =
     (let nid = ne_node_id entry;
          had_prev = (trk nid \<noteq> None);
          prev = (case trk nid of None \<Rightarrow> CacheSnapshot_default | Some s \<Rightarrow> s);
          (reason, idx') =
            (if had_prev \<and> ne_kv_epoch entry \<noteq> cs_kv_epoch prev
             then (Some EpochReset, forget_node nid idx)
             else if 0 < ne_total_blocks entry \<and> 0 < cs_total_blocks prev
             then if max (ne_total_blocks entry div 10) 32 \<le> cs_free_blocks prev - ne_free_blocks entry
                  then (Some EvictionBurst, forget_node_stale now nid (pi_ttl idx div 4) idx)
                  else if low_blocks (ne_free_blocks entry) (ne_total_blocks entry)
                  then (Some Pressure, forget_node_stale now nid (pi_ttl idx div 2) idx)
                  else (None, idx)
             else if 0 < ne_total_blocks entry \<and> low_blocks (ne_free_blocks entry) (ne_total_blocks entry)
             then (Some Pressure, forget_node_stale now nid (pi_ttl idx div 2) idx)
             else (None, idx))
      in (reason, idx',
          trk(nid \<mapsto> \<lparr> cs_kv_epoch = ne_kv_epoch entry, cs_free_blocks = ne_free_blocks entry,
                       cs_total_blocks = ne_total_blocks entry \<rparr>)))"

definition tracker_forget :: "node_id \<Rightarrow> CacheStateTracker \<Rightarrow> CacheStateTracker" where
  "tracker_forget nid trk = trk(nid := None)"

fun prune_label :: "PruneReason \<Rightarrow> string" where
  "prune_label EpochReset = ''epoch_reset''"
| "prune_label EvictionBurst = ''eviction_burst''"
| "prune_label Pressure = ''pressure''"

section \<open>Watchers\<close>

definition NODES :: string where "NODES = ''/cognitora/nodes/''"
definition CORDON :: string where "CORDON = ''/cognitora/cordon/''"
definition KV_CONFIRMED :: string where "KV_CONFIRMED = ''/cognitora/kv/''"

definition parse_kv_confirmed_key :: "string \<Rightarrow> (node_id \<times> bytes) option" where
  "parse_kv_confirmed_key key =
     do { rest \<leftarrow> strip_prefix KV_CONFIRMED key;
          (nid, hex) \<leftarrow> rsplit_once (CHR ''/'') rest;
          if nid = [] \<or> length hex \<noteq> 64 then None
          else do { digest \<leftarrow> hex_pairs hex; Some (nid, digest) } }"

record RoutingPolicy =
  rp_kv :: f32
  rp_load :: f32
  rp_power :: f32
  rp_capacity :: f32
  rp_session :: f32

record Cluster =
  cl_nodes :: NodeRegistry
  cl_prefix :: PrefixIndex
  cl_tracker :: CacheStateTracker
  cl_policy :: RoutingPolicy

datatype cl_event =
    NodePut "NodeEntry option"
  | NodeDelete "string option"
  | PolicyPut "RoutingPolicy option"
  | CordonPut "string option"
  | CordonDelete "string option"
  | KvPut "string option"
  | KvDelete "string option"

text \<open>A decoded heartbeat: reconcile the claims, then store the entry.\<close>

definition heartbeat :: "instant \<Rightarrow> NodeEntry \<Rightarrow> Cluster \<Rightarrow> Cluster" where
  "heartbeat now entry c =
     (let (_, idx', trk') = reconcile now (cl_prefix c) entry (cl_tracker c)
      in c\<lparr> cl_prefix := idx', cl_tracker := trk', cl_nodes := upsert entry (cl_nodes c) \<rparr>)"

definition node_gone :: "node_id \<Rightarrow> Cluster \<Rightarrow> Cluster" where
  "node_gone nid c =
     c\<lparr> cl_nodes := registry_forget nid (cl_nodes c), cl_tracker := tracker_forget nid (cl_tracker c),
        cl_prefix := forget_node nid (cl_prefix c) \<rparr>"

definition on_node_put :: "instant \<Rightarrow> NodeEntry option \<Rightarrow> Cluster \<Rightarrow> Cluster" where
  [simp]: "on_node_put now v c = (case v of None \<Rightarrow> c | Some entry \<Rightarrow> heartbeat now entry c)"

definition on_node_delete :: "string option \<Rightarrow> Cluster \<Rightarrow> Cluster" where
  [simp]: "on_node_delete k c =
     (case Option.bind k (strip_prefix NODES) of None \<Rightarrow> c | Some nid \<Rightarrow> node_gone nid c)"

definition on_policy_put :: "RoutingPolicy option \<Rightarrow> Cluster \<Rightarrow> Cluster" where
  [simp]: "on_policy_put v c = (case v of None \<Rightarrow> c | Some p \<Rightarrow> c\<lparr> cl_policy := p \<rparr>)"

definition on_cordon :: "bool \<Rightarrow> string option \<Rightarrow> Cluster \<Rightarrow> Cluster" where
  [simp]: "on_cordon flag k c =
     (case Option.bind k (strip_prefix CORDON) of
        None \<Rightarrow> c | Some nid \<Rightarrow> c\<lparr> cl_nodes := set_cordon nid flag (cl_nodes c) \<rparr>)"

definition on_kv_put :: "instant \<Rightarrow> string option \<Rightarrow> Cluster \<Rightarrow> Cluster" where
  [simp]: "on_kv_put now k c =
     (case Option.bind k parse_kv_confirmed_key of
        None \<Rightarrow> c | Some (nid, d) \<Rightarrow> c\<lparr> cl_prefix := prefix_insert now d nid (cl_prefix c) \<rparr>)"

definition on_kv_delete :: "string option \<Rightarrow> Cluster \<Rightarrow> Cluster" where
  [simp]: "on_kv_delete k c =
     (case Option.bind k parse_kv_confirmed_key of
        None \<Rightarrow> c | Some (nid, d) \<Rightarrow> c\<lparr> cl_prefix := forget_claim d nid (cl_prefix c) \<rparr>)"

text \<open>The event types the watch tasks distinguish, by the task that receives them.\<close>

fun handle_event :: "instant \<Rightarrow> cl_event \<Rightarrow> Cluster \<Rightarrow> Cluster" where
  "handle_event now (NodePut v) c = on_node_put now v c"
| "handle_event now (NodeDelete k) c = on_node_delete k c"
| "handle_event now (PolicyPut v) c = on_policy_put v c"
| "handle_event now (CordonPut k) c = on_cordon True k c"
| "handle_event now (CordonDelete k) c = on_cordon False k c"
| "handle_event now (KvPut k) c = on_kv_put now k c"
| "handle_event now (KvDelete k) c = on_kv_delete k c"

text \<open>Events with the instants at which they are handled.\<close>

fun handle_events :: "(instant \<times> cl_event) list \<Rightarrow> Cluster \<Rightarrow> Cluster" where
  "handle_events [] c = c"
| "handle_events ((now, e) # es) c = handle_events es (handle_event now e c)"

text \<open>A run of the watcher starts with a fresh tracker and the keys present in etcd: the node
  values, the policy value if any and the cordon keys. The confirmed-KV task starts with the
  confirmed keys.\<close>

definition initial_snapshot ::
  "instant \<Rightarrow> NodeEntry option list \<Rightarrow> RoutingPolicy option \<Rightarrow> string option list \<Rightarrow> Cluster \<Rightarrow> Cluster" where
  "initial_snapshot now node_vals pol cordons c =
     handle_events (map (\<lambda>v. (now, NodePut v)) node_vals @ [(now, PolicyPut pol)] @
         map (\<lambda>k. (now, CordonPut k)) cordons) (c\<lparr> cl_tracker := Map.empty \<rparr>)"

definition kv_snapshot :: "instant \<Rightarrow> string option list \<Rightarrow> Cluster \<Rightarrow> Cluster" where
  "kv_snapshot now kvs c = handle_events (map (\<lambda>k. (now, KvPut k)) kvs) c"

text \<open>One round of the gossip loop, with the decoded live-member records and the order in
  which the registry snapshot lists the nodes.\<close>

fun gossip_upserts :: "instant \<Rightarrow> NodeEntry option list \<Rightarrow> node_id set \<Rightarrow> Cluster \<Rightarrow> node_id set \<times> Cluster" where
  "gossip_upserts now [] alive c = (alive, c)"
| "gossip_upserts now (v # vs) alive c =
     (case v of
        None \<Rightarrow> gossip_upserts now vs alive c
      | Some entry \<Rightarrow> gossip_upserts now vs (insert (ne_node_id entry) alive) (heartbeat now entry c))"

fun gossip_removals :: "node_id set \<Rightarrow> NodeEntry list \<Rightarrow> Cluster \<Rightarrow> Cluster" where
  "gossip_removals alive [] c = c"
| "gossip_removals alive (n # ns) c =
     gossip_removals alive ns (if ne_node_id n \<in> alive then c else node_gone (ne_node_id n) c)"

definition gossip_tick :: "instant \<Rightarrow> (NodeRegistry \<Rightarrow> node_id list) \<Rightarrow> NodeEntry option list \<Rightarrow> Cluster \<Rightarrow> Cluster" where
  "gossip_tick now order records c =
     (let (alive, c1) = gossip_upserts now records {} c
      in gossip_removals alive (snapshot (order (cl_nodes c1)) (cl_nodes c1)) c1)"

section \<open>Agent\<close>

record EngineStats =
  es_queue_depth :: nat
  es_free_blocks :: nat
  es_total_blocks :: nat

record KvCacheState =
  kc_kv_epoch :: nat
  kc_was_ready :: bool
  kc_saw_ready :: bool
  kc_last_free :: nat
  kc_last_total :: nat

definition KvCacheState_default :: KvCacheState where
  "KvCacheState_default = \<lparr> kc_kv_epoch = 0, kc_was_ready = False, kc_saw_ready = False,
     kc_last_free = 0, kc_last_total = 0 \<rparr>"

text \<open>\<open>u64::saturating_add(1)\<close>.\<close>

definition kc_bump :: "KvCacheState \<Rightarrow> KvCacheState" where
  "kc_bump s = s\<lparr> kc_kv_epoch := min (2 ^ 64 - 1) (kc_kv_epoch s + 1) \<rparr>"

definition observe :: "bool \<Rightarrow> EngineStats \<Rightarrow> KvCacheState \<Rightarrow> KvCacheState" where
  "observe ready stats s0 =
     (let s1 = (if kc_saw_ready s0 \<and> kc_was_ready s0 \<and> \<not> ready then kc_bump s0 else s0);
          s2 = (if ready then
            (let a = (if kc_saw_ready s1 \<and> \<not> kc_was_ready s1 then kc_bump s1 else s1);
                 b = (if 0 < es_total_blocks stats then
                   (let b1 = (if 0 < kc_last_total a \<and> es_total_blocks stats \<noteq> kc_last_total a
                              then kc_bump a else a)
                    in if 0 < kc_last_total b1 \<and> 0 < kc_last_free b1 \<and>
                          int (max (es_total_blocks stats div 6) 32)
                            \<le> int (es_free_blocks stats) - int (kc_last_free b1)
                       then kc_bump b1 else b1)
                   else a)
             in b\<lparr> kc_saw_ready := True, kc_last_free := es_free_blocks stats,
                   kc_last_total := es_total_blocks stats \<rparr>)
            else s1)
      in s2\<lparr> kc_was_ready := ready \<rparr>)"

datatype NodeRoleCfg = CfgPrefill | CfgDecode | CfgBoth

fun role_to_int :: "NodeRoleCfg \<Rightarrow> int" where
  "role_to_int CfgDecode = role_i32 RoleDecode"
| "role_to_int CfgPrefill = role_i32 RolePrefill"
| "role_to_int CfgBoth = role_i32 RoleBoth"

record GpuSnapshot =
  gs_power_watts :: f32
  gs_gpu_name :: string
  gs_gpu_vendor :: string
  gs_vram_total_mb :: nat

text \<open>What the agent's configuration and supervisor contribute to the record; the models are
  in the iteration order of their map, each with its adapter names.\<close>

record AgentInfo =
  ag_node_id :: node_id
  ag_listen :: string
  ag_role :: NodeRoleCfg
  ag_gpu_index :: "nat option"
  ag_models :: "(string \<times> string list) list"
  ag_watt_limit :: f32
  ag_require_mtls :: bool
  ag_draining :: bool

text \<open>The record as the router decodes it: the record has no \<open>cordoned\<close> key, so the field
  takes its default, and the heartbeat instant is the instant of decoding.\<close>

definition node_record :: "instant \<Rightarrow> AgentInfo \<Rightarrow> bool \<Rightarrow> GpuSnapshot \<Rightarrow> EngineStats \<Rightarrow> nat \<Rightarrow> NodeEntry" where
  "node_record now ag ready gpu stats kv_epoch =
     \<lparr> ne_node_id = ag_node_id ag,
       ne_address = (if ag_require_mtls ag then ''https'' else ''http'') @ ''://'' @ ag_listen ag,
       ne_role = role_to_int (ag_role ag), ne_gpu_index = ag_gpu_index ag,
       ne_model = (case ag_models ag of [] \<Rightarrow> None | (m, _) # _ \<Rightarrow> Some m),
       ne_queue_depth = es_queue_depth stats, ne_free_blocks = es_free_blocks stats,
       ne_total_blocks = es_total_blocks stats, ne_power_watts = gs_power_watts gpu,
       ne_watt_limit = ag_watt_limit ag, ne_gpu_name = gs_gpu_name gpu,
       ne_gpu_vendor = gs_gpu_vendor gpu, ne_vram_total_mb = gs_vram_total_mb gpu,
       ne_cordoned = False, ne_kv_epoch = kv_epoch, ne_ready = ready,
       ne_draining = ag_draining ag,
       ne_adapters = (case ag_models ag of [] \<Rightarrow> [] | (_, l) # _ \<Rightarrow> l),
       ne_last_heartbeat = now \<rparr>"

definition KV_CONFIRMED_MAX_KEYS :: nat where "KV_CONFIRMED_MAX_KEYS = 4096"

definition kv_key :: "node_id \<Rightarrow> bytes \<Rightarrow> string" where
  "kv_key nid digest = KV_CONFIRMED @ nid @ ''/'' @ hex_string digest"

text \<open>The publisher talks to etcd through \<open>put_ok\<close> and \<open>delete_ok\<close>, which say whether a
  call on a key succeeds. The result is the error flag, the deque and the events the etcd
  watch delivers, in order.\<close>

fun kv_puts :: "(string \<Rightarrow> bool) \<Rightarrow> node_id \<Rightarrow> bytes list \<Rightarrow> string list \<Rightarrow> bool \<times> string list \<times> cl_event list" where
  "kv_puts put_ok nid [] published = (True, published, [])"
| "kv_puts put_ok nid (digest # pending) published =
     (if length digest \<noteq> 32 then kv_puts put_ok nid pending published
      else let key = kv_key nid digest in
        if key \<in> set published then kv_puts put_ok nid pending published
        else if \<not> put_ok key then (False, published, [])
        else let (ok, published', evs) = kv_puts put_ok nid pending (published @ [key])
             in (ok, published', KvPut (Some key) # evs))"

fun kv_evict :: "(string \<Rightarrow> bool) \<Rightarrow> nat \<Rightarrow> string list \<Rightarrow> bool \<times> string list \<times> cl_event list" where
  "kv_evict delete_ok target [] = (True, [], [])"
| "kv_evict delete_ok target (key # published) =
     (if target < length (key # published)
      then if \<not> delete_ok key then (False, published, [])
           else let (ok, published', evs) = kv_evict delete_ok target published
                in (ok, published', KvDelete (Some key) # evs)
      else (True, key # published, []))"

definition publish_kv_confirmed ::
  "(string \<Rightarrow> bool) \<Rightarrow> (string \<Rightarrow> bool) \<Rightarrow> node_id \<Rightarrow> EngineStats \<Rightarrow> bytes list \<Rightarrow> string list \<Rightarrow>
   bool \<times> string list \<times> cl_event list" where
  "publish_kv_confirmed put_ok delete_ok nid stats pending published =
     (let (ok, p1, evs1) = kv_puts put_ok nid pending published in
      if \<not> ok then (False, p1, evs1)
      else let under_pressure = (0 < es_total_blocks stats \<and>
                                 low_blocks (es_free_blocks stats) (es_total_blocks stats));
               target = (if under_pressure then length p1 div 2 else KV_CONFIRMED_MAX_KEYS);
               (ok2, p2, evs2) = kv_evict delete_ok target p1
           in (ok2, p2, evs1 @ evs2))"

section \<open>Registry\<close>

lemma map_filter_set: "set (List.map_filter f xs) = {y. \<exists>x \<in> set xs. f x = Some y}"
  by (induction xs) (auto simp: List.map_filter_simps split: option.splits)

lemma set_snapshot: "enumerates order r \<Longrightarrow> set (snapshot order r) = ran r"
  by (auto simp: snapshot_def map_filter_set enumerates_def ran_def dom_def)

lemma set_nodes_for:
  "enumerates order r \<Longrightarrow> set (nodes_for order role model r) = {n \<in> ran r. routable role model n}"
  by (auto simp: nodes_for_def set_snapshot)

lemma heartbeat_nodes [simp]: "cl_nodes (heartbeat now e c) = upsert e (cl_nodes c)"
  by (simp add: heartbeat_def split: prod.splits)

lemma node_gone_nodes [simp]: "cl_nodes (node_gone nid c) = (cl_nodes c)(nid := None)"
  by (simp add: node_gone_def registry_forget_def)

lemma set_cordon_apply:
  "set_cordon nid b r nid' =
     (if nid' = nid then map_option (\<lambda>n. n\<lparr> ne_cordoned := b \<rparr>) (r nid) else r nid')"
  by (auto simp: set_cordon_def split: option.splits)

lemma dom_set_cordon [simp]: "dom (set_cordon nid b r) = dom r"
  by (auto simp: dom_def set_cordon_apply)

lemma dom_upsert: "dom (upsert e r) = insert (ne_node_id e) (dom r)"
  by (simp add: upsert_def)

lemma registry_wf_upd:
  "registry_wf r \<Longrightarrow> registry_wf (upsert e r)"
  "registry_wf r \<Longrightarrow> registry_wf (r(nid := None))"
  "registry_wf r \<Longrightarrow> registry_wf (set_cordon nid b r)"
  by (auto simp: registry_wf_def upsert_def set_cordon_apply split: if_splits)

lemma handle_event_registry_wf:
  "registry_wf (cl_nodes c) \<Longrightarrow> registry_wf (cl_nodes (handle_event now e c))"
  by (cases e) (auto simp: registry_wf_upd split: option.splits)

section \<open>Reconciliation\<close>

lemma reconcile_cases:
  obtains (epoch) s where "trk (ne_node_id e) = Some s" "ne_kv_epoch e \<noteq> cs_kv_epoch s"
      "fst (reconcile now p e trk) = Some EpochReset"
      "fst (snd (reconcile now p e trk)) = forget_node (ne_node_id e) p"
  | (stale) k where "fst (reconcile now p e trk) \<in> {Some EvictionBurst, Some Pressure}"
      "fst (snd (reconcile now p e trk)) = forget_node_stale now (ne_node_id e) (pi_ttl p div k) p"
      "k \<in> {2, 4}" "\<forall>s. trk (ne_node_id e) = Some s \<longrightarrow> ne_kv_epoch e = cs_kv_epoch s"
  | (keep) "fst (reconcile now p e trk) = None" "fst (snd (reconcile now p e trk)) = p"
      "\<forall>s. trk (ne_node_id e) = Some s \<longrightarrow> ne_kv_epoch e = cs_kv_epoch s"
  by (cases "trk (ne_node_id e)") (force simp: reconcile_def Let_def split: if_splits)+

lemma reconcile_tracker:
  "snd (snd (reconcile now p e trk)) = trk(ne_node_id e \<mapsto>
     \<lparr> cs_kv_epoch = ne_kv_epoch e, cs_free_blocks = ne_free_blocks e, cs_total_blocks = ne_total_blocks e \<rparr>)"
  by (simp add: reconcile_def Let_def split: prod.splits)

lemma heartbeat_prefix: "cl_prefix (heartbeat now e c) = fst (snd (reconcile now (cl_prefix c) e (cl_tracker c)))"
  by (simp add: heartbeat_def split: prod.splits)

lemma reconcile_wf:
  "index_wf p \<Longrightarrow> index_wf (fst (snd (reconcile now p e trk)))"
  by (rule reconcile_cases [of trk e now p]) (simp_all add: pidx.del_node_ok pidx.del_stale_ok)

end
