(* ===== verification/Cgn_Cluster_Props.thy ===== *)
theory Cgn_Cluster_Props
  imports Cgn_Cluster
begin

text \<open>
  Properties of the cluster state: what the registry holds after any history of etcd events or
  a gossip round, how an engine restart reaches the prefix index through the KV epoch, and
  that the router's claims follow the keys the agent publishes.
\<close>

section \<open>Registry and event histories\<close>

definition puts_node :: "node_id \<Rightarrow> cl_event \<Rightarrow> bool" where
  "puts_node nid e \<longleftrightarrow> (case e of NodePut (Some n) \<Rightarrow> ne_node_id n = nid | _ \<Rightarrow> False)"

definition deletes_node :: "node_id \<Rightarrow> cl_event \<Rightarrow> bool" where
  "deletes_node nid e \<longleftrightarrow> e = NodeDelete (Some (NODES @ nid))"

lemma registered_step:
  "nid \<in> dom (cl_nodes (handle_event now e c)) \<longleftrightarrow>
     puts_node nid e \<or> (\<not> deletes_node nid e \<and> nid \<in> dom (cl_nodes c))"
proof (cases e)
  case (NodeDelete k)
  then show ?thesis
    by (cases k) (auto simp: puts_node_def deletes_node_def strip_prefix_Some split: option.splits)
qed (auto simp: puts_node_def deletes_node_def upsert_def set_cordon_apply
        split: option.splits if_splits)

lemma registered_events:
  "nid \<in> dom (cl_nodes (handle_events es c)) \<longleftrightarrow>
     (\<exists>pre now e post. es = pre @ (now, e) # post \<and> puts_node nid e \<and>
        (\<forall>x \<in> set post. \<not> deletes_node nid (snd x))) \<or>
     (nid \<in> dom (cl_nodes c) \<and> (\<forall>x \<in> set es. \<not> deletes_node nid (snd x)))"
proof (induction es c rule: handle_events.induct)
  case (2 now e es c)
  have split: "(\<exists>pre t x post. (now, e) # es = pre @ (t, x) # post \<and> puts_node nid x \<and>
        (\<forall>y \<in> set post. \<not> deletes_node nid (snd y))) \<longleftrightarrow>
      (puts_node nid e \<and> (\<forall>y \<in> set es. \<not> deletes_node nid (snd y))) \<or>
      (\<exists>pre t x post. es = pre @ (t, x) # post \<and> puts_node nid x \<and>
        (\<forall>y \<in> set post. \<not> deletes_node nid (snd y)))" (is "?L \<longleftrightarrow> ?R")
  proof
    assume ?L
    then obtain pre t x post where *: "(now, e) # es = pre @ (t, x) # post" "puts_node nid x"
      "\<forall>y \<in> set post. \<not> deletes_node nid (snd y)" by blast
    show ?R
    proof (cases pre)
      case Nil
      with * show ?thesis by auto
    next
      case (Cons a pre')
      with *(1) have "es = pre' @ (t, x) # post" by simp
      with * show ?thesis by blast
    qed
  next
    assume ?R
    then show ?L by (metis append_Cons append_Nil)
  qed
  show ?case unfolding handle_events.simps "2.IH" split registered_step by auto
qed simp

text \<open>C19: After any history of etcd events a node is in the registry exactly when some decodable
  heartbeat put it there and no later event deleted its key, or it was there at the start and
  was never deleted; and every entry is stored under its own id.\<close>

theorem registry_follows_history:
  assumes "registry_wf (cl_nodes c)"
  shows "registry_wf (cl_nodes (handle_events es c)) \<and>
    (nid \<in> dom (cl_nodes (handle_events es c)) \<longleftrightarrow>
     (\<exists>pre now e post. es = pre @ (now, e) # post \<and> puts_node nid e \<and>
        (\<forall>x \<in> set post. \<not> deletes_node nid (snd x))) \<or>
     (nid \<in> dom (cl_nodes c) \<and> (\<forall>x \<in> set es. \<not> deletes_node nid (snd x))))"
proof
  show "registry_wf (cl_nodes (handle_events es c))"
    using assms by (induction es c rule: handle_events.induct) (auto simp: handle_event_registry_wf)
qed (rule registered_events)

definition demo_agent :: AgentInfo where
  "demo_agent = \<lparr> ag_node_id = ''n1'', ag_listen = ''10.0.0.1:7070'', ag_role = CfgBoth, ag_gpu_index = None,
     ag_models = [(''m'', [])], ag_watt_limit = 0, ag_require_mtls = False, ag_draining = False \<rparr>"

definition demo_gpu :: GpuSnapshot where
  "demo_gpu = \<lparr> gs_power_watts = 0, gs_gpu_name = [], gs_gpu_vendor = [], gs_vram_total_mb = 0 \<rparr>"

definition no_stats :: EngineStats where
  "no_stats = \<lparr> es_queue_depth = 0, es_free_blocks = 0, es_total_blocks = 0 \<rparr>"

definition demo_entry :: "nat \<Rightarrow> NodeEntry" where
  "demo_entry epoch = node_record 5 demo_agent True demo_gpu no_stats epoch"

definition demo_cluster :: Cluster where
  "demo_cluster = \<lparr> cl_nodes = Map.empty, cl_prefix = prefix_new 60, cl_tracker = Map.empty,
     cl_policy = \<lparr> rp_kv = 0, rp_load = 0, rp_power = 0, rp_capacity = 0, rp_session = 0 \<rparr> \<rparr>"

theorem registry_follows_history_witness:
  "''n1'' \<in> dom (cl_nodes (handle_events [(5, NodePut (Some (demo_entry 0)))] demo_cluster))"
proof -
  have "registry_wf (cl_nodes demo_cluster)" by (simp add: registry_wf_def demo_cluster_def)
  moreover have "puts_node ''n1'' (NodePut (Some (demo_entry 0)))"
    by (simp add: puts_node_def demo_entry_def node_record_def demo_agent_def)
  ultimately show ?thesis
    by (subst registry_follows_history [THEN conjunct2]) (auto intro!: exI [of _ "[]"])
qed

section \<open>Cordoning\<close>

text \<open>The cordon flag lasts only until the next heartbeat. The record an agent publishes has
  no \<open>cordoned\<close> key, so handling it stores an entry with the flag cleared: a node
  cordoned just before is a candidate again for every role and model it serves, although its
  cordon key is still in etcd.\<close>

lemma heartbeat_uncordons:
  assumes "enumerates order (cl_nodes c')"
    and "c' = handle_events [(t1, CordonPut (Some (CORDON @ ag_node_id ag))),
                             (t2, NodePut (Some (node_record t2 ag True gpu stats epoch)))] c"
    and "\<not> ag_draining ag" and "ag_models ag = (m, loras) # ms"
    and "role = Unspecified \<or> role_i32 role = role_to_int (ag_role ag) \<or> ag_role ag = CfgBoth"
  shows "node_record t2 ag True gpu stats epoch \<in> set (nodes_for order role (Some m) (cl_nodes c'))"
proof -
  let ?n = "node_record t2 ag True gpu stats epoch"
  have "?n \<in> ran (cl_nodes c')"
    by (auto simp: assms(2) upsert_def node_record_def ran_def split: option.splits)
  moreover have "role_enum ?n = role \<or> role_enum ?n = RoleBoth \<or> role = Unspecified"
    using assms(5) by (cases "ag_role ag"; cases role) (auto simp: role_enum_def node_record_def role_try_from_def)
  then have "routable role (Some m) ?n"
    using assms(3,4) by (auto simp: routable_def serves_def node_record_def)
  ultimately show ?thesis using set_nodes_for [OF assms(1)] by auto
qed

lemma heartbeat_uncordons_witness:
  "demo_entry 0 \<in> set (nodes_for [''n1''] RoleDecode (Some ''m'')
     (cl_nodes (handle_events [(4, CordonPut (Some (CORDON @ ''n1''))), (5, NodePut (Some (demo_entry 0)))]
        demo_cluster)))"
proof -
  let ?c = "handle_events [(4, CordonPut (Some (CORDON @ ''n1''))), (5, NodePut (Some (demo_entry 0)))] demo_cluster"
  have "cl_nodes ?c = [''n1'' \<mapsto> demo_entry 0]"
    by (simp add: demo_cluster_def set_cordon_def upsert_def demo_entry_def node_record_def demo_agent_def)
  then have "enumerates [''n1''] (cl_nodes ?c)" by (simp add: enumerates_def)
  from heartbeat_uncordons [OF this, of 4 demo_agent 5 demo_gpu no_stats 0 demo_cluster "''m''" "[]" "[]" RoleDecode]
  show ?thesis unfolding demo_entry_def by (simp add: demo_agent_def del: handle_events.simps)
qed

section \<open>Resynchronisation\<close>

lemma snapshot_keeps:
  assumes "\<forall>x \<in> set es. \<not> puts_node nid (snd x) \<and> \<not> deletes_node nid (snd x)"
    and "\<forall>x \<in> set es. \<forall>k. snd x = CordonPut k \<or> snd x = CordonDelete k \<longrightarrow> k \<noteq> Some (CORDON @ nid)"
  shows "cl_nodes (handle_events es c) nid = cl_nodes c nid"
  using assms
proof (induction es c rule: handle_events.induct)
  case (2 now e es c)
  have "cl_nodes (handle_event now e c) nid = cl_nodes c nid"
  proof (cases e)
    case (NodeDelete k)
    with 2 show ?thesis by (cases k) (auto simp: deletes_node_def strip_prefix_Some split: option.splits)
  next
    case (CordonPut k)
    with 2 show ?thesis by (cases k) (auto simp: set_cordon_apply strip_prefix_Some split: option.splits)
  next
    case (CordonDelete k)
    with 2 show ?thesis by (cases k) (auto simp: set_cordon_apply strip_prefix_Some split: option.splits)
  qed (use 2 in \<open>auto simp: puts_node_def upsert_def split: option.splits\<close>)
  with 2 show ?case by simp
qed simp

text \<open>Reconnecting to etcd applies the snapshot of the keys that are still there and removes
  nothing: a node whose key disappeared while the watch was down keeps its old entry, and
  with it stays a routing candidate.\<close>

lemma resync_keeps_dead_nodes:
  assumes "\<forall>n. Some n \<in> set node_vals \<longrightarrow> ne_node_id n \<noteq> nid"
    and "Some (CORDON @ nid) \<notin> set cordons"
    and "cl_nodes c nid = Some n" and "routable role model n"
    and "c' = initial_snapshot now node_vals pol cordons c" and "enumerates order (cl_nodes c')"
  shows "n \<in> set (nodes_for order role model (cl_nodes c'))"
proof -
  have "cl_nodes c' nid = cl_nodes (c\<lparr> cl_tracker := Map.empty \<rparr>) nid"
    unfolding assms(5) initial_snapshot_def
    by (rule snapshot_keeps)
       (use assms(1,2) in \<open>auto simp: puts_node_def deletes_node_def split: option.splits\<close>)
  then have "n \<in> ran (cl_nodes c')" using assms(3) by (auto simp: ran_def)
  then show ?thesis using set_nodes_for [OF assms(6)] assms(4) by auto
qed

lemma resync_keeps_dead_nodes_witness:
  "demo_entry 0 \<in> set (nodes_for [''n1''] Unspecified (Some ''m'')
     (cl_nodes (initial_snapshot 9 [] None [] (demo_cluster\<lparr> cl_nodes := [''n1'' \<mapsto> demo_entry 0] \<rparr>))))"
  by (rule resync_keeps_dead_nodes [OF _ _ _ _ refl, where nid = "''n1''"])
     (simp_all add: initial_snapshot_def enumerates_def routable_def serves_def demo_entry_def
        node_record_def demo_agent_def)

section \<open>Gossip\<close>

lemma gossip_upserts_spec:
  "gossip_upserts now vs alive c = (alive', c') \<Longrightarrow>
     alive' = alive \<union> ne_node_id ` {n. Some n \<in> set vs} \<and>
     dom (cl_nodes c') = dom (cl_nodes c) \<union> ne_node_id ` {n. Some n \<in> set vs} \<and>
     (registry_wf (cl_nodes c) \<longrightarrow> registry_wf (cl_nodes c')) \<and>
     (index_wf (cl_prefix c) \<longrightarrow> index_wf (cl_prefix c'))"
proof (induction now vs alive c rule: gossip_upserts.induct)
  case (2 now v vs alive c)
  show ?case
  proof (cases v)
    case None
    with 2 show ?thesis by simp
  next
    case (Some e)
    have *: "{n. Some n \<in> set (v # vs)} = insert e {n. Some n \<in> set vs}" using Some by auto
    from Some "2.prems" have "gossip_upserts now vs (insert (ne_node_id e) alive) (heartbeat now e c) = (alive', c')"
      by simp
    from "2.IH"(2) [OF Some this] show ?thesis
      unfolding * by (simp add: dom_upsert registry_wf_upd(1) heartbeat_prefix reconcile_wf)
  qed
qed simp

lemma gossip_removals_spec:
  assumes "index_wf (cl_prefix c)"
  shows "cl_nodes (gossip_removals alive ns c) =
      (\<lambda>nid. if nid \<in> ne_node_id ` set ns - alive then None else cl_nodes c nid)"
    and "claim (cl_prefix (gossip_removals alive ns c)) (d, nid) =
      (if nid \<in> ne_node_id ` set ns - alive then None else claim (cl_prefix c) (d, nid))"
  using assms
proof (induction alive ns c rule: gossip_removals.induct)
  case (2 alive n ns c)
  {
    case 1
    with 2 show ?case by (auto simp: fun_eq_iff node_gone_def registry_forget_def pidx.del_node_ok)
  next
    case 2
    with "2.IH"(2) show ?case
      by (auto simp: node_gone_def pidx.del_node_ok pidx.del_node_view)
  }
qed simp_all

text \<open>After a gossip round the registry holds exactly the nodes with a decodable live record,
  and a node that lost its record has lost all its prefix claims.\<close>

lemma gossip_tick_exact:
  assumes "registry_wf (cl_nodes c)" and "index_wf (cl_prefix c)"
    and "r1 = cl_nodes (snd (gossip_upserts now records {} c))" and "enumerates (order r1) r1"
    and "c' = gossip_tick now order records c" and "alive = ne_node_id ` {n. Some n \<in> set records}"
  shows "dom (cl_nodes c') = alive \<and>
    (nid \<in> dom (cl_nodes c) - alive \<longrightarrow> claim (cl_prefix c') (d, nid) = None)"
proof (intro conjI impI)
  obtain al c1 where up: "gossip_upserts now records {} c = (al, c1)" by (cases "gossip_upserts now records {} c")
  from gossip_upserts_spec [OF up] assms(1,2,6) have al: "al = alive"
    and d1: "dom (cl_nodes c1) = dom (cl_nodes c) \<union> alive"
    and wf: "registry_wf (cl_nodes c1)" "index_wf (cl_prefix c1)" by auto
  have "set (snapshot (order (cl_nodes c1)) (cl_nodes c1)) = ran (cl_nodes c1)"
    using assms(3,4) up by (simp add: set_snapshot)
  moreover have "ne_node_id ` ran (cl_nodes c1) = dom (cl_nodes c1)"
    using wf(1) by (fastforce simp: registry_wf_def ran_def image_iff dom_def)
  ultimately have ids: "ne_node_id ` set (snapshot (order (cl_nodes c1)) (cl_nodes c1)) = dom (cl_nodes c1)"
    by simp
  have c': "c' = gossip_removals alive (snapshot (order (cl_nodes c1)) (cl_nodes c1)) c1"
    by (simp add: assms(5) gossip_tick_def up al)
  show "dom (cl_nodes c') = alive"
    unfolding c' gossip_removals_spec(1) [OF wf(2)] ids
    using d1 by (auto simp: set_eq_iff domIff split: if_splits)
  assume "nid \<in> dom (cl_nodes c) - alive"
  then show "claim (cl_prefix c') (d, nid) = None"
    unfolding c' gossip_removals_spec(2) [OF wf(2)] ids using d1 by auto
qed

lemma gossip_tick_exact_witness:
  "dom (cl_nodes (gossip_tick 9 (\<lambda>_. [''n1'']) [None]
     (demo_cluster\<lparr> cl_nodes := [''n1'' \<mapsto> demo_entry 0] \<rparr>))) = {}"
proof -
  let ?c = "demo_cluster\<lparr> cl_nodes := [''n1'' \<mapsto> demo_entry 0] \<rparr>"
  have "registry_wf (cl_nodes ?c)"
    by (simp add: registry_wf_def demo_entry_def node_record_def demo_agent_def)
  moreover have "index_wf (cl_prefix ?c)" by (simp add: demo_cluster_def index_wf_new)
  moreover have "enumerates [''n1''] (cl_nodes (snd (gossip_upserts 9 [None] {} ?c)))"
    by (simp add: enumerates_def)
  ultimately show ?thesis
    using gossip_tick_exact [of ?c _ 9 "[None]" "\<lambda>_. [''n1'']"] by simp
qed

section \<open>KV epochs\<close>

fun observe_all :: "(bool \<times> EngineStats) list \<Rightarrow> KvCacheState \<Rightarrow> KvCacheState" where
  "observe_all [] s = s"
| "observe_all ((ready, stats) # obs) s = observe_all obs (observe ready stats s)"

definition epoch_ok :: "KvCacheState \<Rightarrow> bool" where
  "epoch_ok s \<longleftrightarrow> kc_kv_epoch s \<le> 2 ^ 64 - 1"

lemma kc_bump_simps [simp]:
  "kc_was_ready (kc_bump s) = kc_was_ready s" "kc_saw_ready (kc_bump s) = kc_saw_ready s"
  "kc_last_free (kc_bump s) = kc_last_free s" "kc_last_total (kc_bump s) = kc_last_total s"
  "kc_kv_epoch (kc_bump s) = min (2 ^ 64 - 1) (kc_kv_epoch s + 1)"
  by (simp_all add: kc_bump_def)

lemma observe_epoch:
  assumes "epoch_ok s"
  shows "epoch_ok (observe ready stats s)" "kc_kv_epoch s \<le> kc_kv_epoch (observe ready stats s)"
  using assms by (auto simp: observe_def epoch_ok_def Let_def)

lemma observe_flags [simp]:
  "kc_was_ready (observe ready stats s) = ready"
  "kc_saw_ready (observe ready stats s) \<longleftrightarrow> ready \<or> kc_saw_ready s"
  by (auto simp: observe_def Let_def)

lemma observe_all_epoch:
  "epoch_ok s \<Longrightarrow> kc_kv_epoch s \<le> kc_kv_epoch (observe_all obs s)"
  by (induction obs s rule: observe_all.induct) (auto intro: observe_epoch order_trans)

lemma restart_bumps_epoch:
  assumes "kc_was_ready s" "kc_saw_ready s" "\<exists>st. (False, st) \<in> set obs" "kc_kv_epoch s < 2 ^ 64 - 1"
  shows "kc_kv_epoch s < kc_kv_epoch (observe_all obs s)"
  using assms
proof (induction obs s rule: observe_all.induct)
  case (2 ready stats obs s)
  let ?s = "observe ready stats s"
  have ok: "epoch_ok s" using 2 by (simp add: epoch_ok_def)
  show ?case
  proof (cases ready)
    case False
    with 2 have "kc_kv_epoch s < kc_kv_epoch ?s" by (simp add: observe_def)
    with observe_all_epoch [OF observe_epoch(1) [OF ok], of ready stats obs] show ?thesis by simp
  next
    case True
    show ?thesis
    proof (cases "kc_kv_epoch ?s < 2 ^ 64 - 1")
      case True
      with 2 \<open>ready\<close> have "kc_kv_epoch ?s < kc_kv_epoch (observe_all obs ?s)" by auto
      with observe_epoch(2) [OF ok, of ready stats] show ?thesis by simp
    next
      case False
      with "2.prems"(4) observe_all_epoch [OF observe_epoch(1) [OF ok], of ready stats obs]
      show ?thesis by simp
    qed
  qed
qed simp

lemma heartbeat_epoch_change:
  assumes "index_wf (cl_prefix c)" "cl_tracker c (ne_node_id n) = Some snap" "cs_kv_epoch snap \<noteq> ne_kv_epoch n"
  shows "claim (cl_prefix (heartbeat now n c)) =
    (\<lambda>(d, nid). if nid = ne_node_id n then None else claim (cl_prefix c) (d, nid))"
  using assms
  by (simp add: heartbeat_prefix reconcile_def Let_def pidx.del_node_view)

text \<open>C17: An engine outage reaches the prefix index even when heartbeats are lost. If the agent
  had a ready engine at the heartbeat the router last saw, and its engine was observed not
  ready at some later heartbeat, then the next record the router decodes carries another
  epoch: handling it removes every claim of that node and no claim of any other node.\<close>

theorem engine_restart_purges_claims:
  assumes "kc_was_ready s" and "kc_saw_ready s" and "kc_kv_epoch s < 2 ^ 64 - 1"
    and "(False, st) \<in> set obs"
    and "cl_tracker c (ag_node_id ag) = Some snap" and "cs_kv_epoch snap = kc_kv_epoch s"
    and "index_wf (cl_prefix c)"
    and "n = node_record now ag ready gpu stats (kc_kv_epoch (observe_all obs s))"
  shows "claim (cl_prefix (handle_event now (NodePut (Some n)) c)) (d, nid) =
    (if nid = ag_node_id ag then None else claim (cl_prefix c) (d, nid))"
proof -
  have "kc_kv_epoch s < kc_kv_epoch (observe_all obs s)"
    using restart_bumps_epoch assms(1-4) by blast
  then have "cs_kv_epoch snap \<noteq> ne_kv_epoch n" using assms(6,8) by (simp add: node_record_def)
  moreover have "ne_node_id n = ag_node_id ag" using assms(8) by (simp add: node_record_def)
  ultimately show ?thesis using heartbeat_epoch_change [OF assms(7), of n snap now] assms(5) by simp
qed

definition demo_ready :: KvCacheState where
  "demo_ready = observe True no_stats KvCacheState_default"

definition demo_known :: Cluster where
  "demo_known = demo_cluster\<lparr> cl_tracker := [''n1'' \<mapsto> CacheSnapshot_default],
     cl_prefix := prefix_insert 3 [1] ''n1'' (prefix_new 60) \<rparr>"

theorem engine_restart_purges_claims_witness:
  "claim (cl_prefix demo_known) ([1], ''n1'') = Some 3 \<and>
   claim (cl_prefix (handle_event 5 (NodePut (Some (demo_entry 2))) demo_known)) ([1], ''n1'') = None"
proof -
  let ?obs = "[(False, no_stats), (True, no_stats)]"
  have r: "kc_was_ready demo_ready" "kc_saw_ready demo_ready" "kc_kv_epoch demo_ready = 0"
    "kc_kv_epoch (observe_all ?obs demo_ready) = 2"
    by (simp_all add: demo_ready_def observe_def KvCacheState_default_def no_stats_def)
  have k: "cl_tracker demo_known (ag_node_id demo_agent) = Some CacheSnapshot_default"
    "cs_kv_epoch CacheSnapshot_default = kc_kv_epoch demo_ready" "index_wf (cl_prefix demo_known)"
    by (simp_all add: demo_known_def demo_agent_def CacheSnapshot_default_def r index_wf_insert index_wf_new)
  have n: "demo_entry 2 = node_record 5 demo_agent True demo_gpu no_stats (kc_kv_epoch (observe_all ?obs demo_ready))"
    by (simp only: r demo_entry_def)
  have "claim (cl_prefix demo_known) ([1], ''n1'') = Some 3"
    by (simp add: demo_known_def claim_insert)
  with engine_restart_purges_claims [OF r(1,2) _ _ k n, of no_stats "[1]" "''n1''"] r(3) show ?thesis
    by (simp add: demo_agent_def)
qed

section \<open>Confirmed-KV keys\<close>

lemma parse_kv_key:
  "nid \<noteq> [] \<Longrightarrow> length d = 32 \<Longrightarrow> parse_kv_confirmed_key (kv_key nid d) = Some (nid, d)"
  by (simp add: parse_kv_confirmed_key_def kv_key_def hex_pairs_hex_string slash_not_in_hex)

text \<open>The router reads back exactly the node and the digest that the agent wrote into a
  confirmed-KV key, for every non-empty node id, also one that contains a slash.\<close>

lemma kv_key_round_trip:
  assumes "nid \<noteq> []" and "length d = 32"
  shows "parse_kv_confirmed_key (kv_key nid d) = Some (nid, d)"
  by (rule parse_kv_key [OF assms])

lemma kv_key_round_trip_witness:
  "parse_kv_confirmed_key (kv_key ''rack/1'' (replicate 32 171)) = Some (''rack/1'', replicate 32 171)"
  by (rule kv_key_round_trip) simp_all

lemma kv_key_inject [simp]: "kv_key nid d = kv_key nid e \<longleftrightarrow> d = e"
  by (simp add: kv_key_def)

text \<open>The deque holds keys of claims the router has, each once; and it holds all of them.\<close>

definition tracks :: "node_id \<Rightarrow> string list \<Rightarrow> PrefixIndex \<Rightarrow> bool" where
  "tracks nid published idx \<longleftrightarrow> distinct published \<and>
     (\<forall>key \<in> set published. \<exists>d. length d = 32 \<and> key = kv_key nid d \<and> claim idx (d, nid) \<noteq> None)"

definition complete :: "node_id \<Rightarrow> string list \<Rightarrow> PrefixIndex \<Rightarrow> bool" where
  "complete nid published idx \<longleftrightarrow> (\<forall>d. claim idx (d, nid) \<noteq> None \<longrightarrow> kv_key nid d \<in> set published)"

definition deliver :: "instant \<Rightarrow> cl_event list \<Rightarrow> Cluster \<Rightarrow> Cluster" where
  "deliver now evs c = handle_events (map (\<lambda>e. (now, e)) evs) c"

lemma deliver_simps [simp]:
  "deliver now [] c = c" "deliver now (e # evs) c = deliver now evs (handle_event now e c)"
  by (simp_all add: deliver_def)

lemma deliver_append [simp]: "deliver now (xs @ ys) c = deliver now ys (deliver now xs c)"
  by (induction xs arbitrary: c) auto

definition mirror_step :: "node_id \<Rightarrow> bool \<Rightarrow> string list \<Rightarrow> PrefixIndex \<Rightarrow> string list \<Rightarrow> PrefixIndex \<Rightarrow> bool" where
  "mirror_step nid ok p idx p' idx' \<longleftrightarrow>
     index_wf idx' \<and> tracks nid p' idx' \<and> (ok \<and> complete nid p idx \<longrightarrow> complete nid p' idx') \<and>
     (\<forall>d n. n \<noteq> nid \<longrightarrow> claim idx' (d, n) = claim idx (d, n))"

lemma mirror_refl: "index_wf idx \<Longrightarrow> tracks nid p idx \<Longrightarrow> mirror_step nid ok p idx p idx"
  by (simp add: mirror_step_def)

lemma mirror_trans:
  "mirror_step nid True p idx p1 idx1 \<Longrightarrow> mirror_step nid ok p1 idx1 p2 idx2 \<Longrightarrow> mirror_step nid ok p idx p2 idx2"
  by (simp add: mirror_step_def)

lemma mirror_put:
  assumes "index_wf idx" "tracks nid p idx" "length d = 32" "kv_key nid d \<notin> set p"
  shows "mirror_step nid True p idx (p @ [kv_key nid d]) (prefix_insert now d nid idx)"
  using assms
  by (force simp: mirror_step_def tracks_def complete_def claim_insert index_wf_insert)

lemma mirror_delete:
  assumes "index_wf idx" "tracks nid (kv_key nid d # p) idx"
  shows "mirror_step nid True (kv_key nid d # p) idx p (forget_claim d nid idx)"
  using assms unfolding mirror_step_def tracks_def complete_def
  by (auto simp: claim_forget_claim index_wf_forget_claim) force+

lemma kv_puts_mirror:
  "kv_puts put_ok nid pending p = (ok, p', evs) \<Longrightarrow> nid \<noteq> [] \<Longrightarrow> index_wf (cl_prefix c) \<Longrightarrow>
   tracks nid p (cl_prefix c) \<Longrightarrow> mirror_step nid True p (cl_prefix c) p' (cl_prefix (deliver now evs c))"
proof (induction put_ok nid pending p arbitrary: p' evs c rule: kv_puts.induct)
  case (2 put_ok nid digest pending p)
  let ?key = "kv_key nid digest"
  show ?case
  proof (cases "length digest = 32 \<and> ?key \<notin> set p \<and> put_ok ?key")
    case True
    obtain evs' where evs: "evs = KvPut (Some ?key) # evs'"
      and rest: "kv_puts put_ok nid pending (p @ [?key]) = (ok, p', evs')"
      using "2.prems"(1) True by (auto simp: Let_def split: prod.splits)
    let ?c = "c\<lparr> cl_prefix := prefix_insert now digest nid (cl_prefix c) \<rparr>"
    have put: "mirror_step nid True p (cl_prefix c) (p @ [?key]) (cl_prefix ?c)"
      using mirror_put "2.prems" True by simp
    then have "mirror_step nid True (p @ [?key]) (cl_prefix ?c) p' (cl_prefix (deliver now evs' ?c))"
      using "2.IH"(3) [of ?key p' evs' ?c] rest True "2.prems"(2) by (simp add: mirror_step_def)
    with put have "mirror_step nid True p (cl_prefix c) p' (cl_prefix (deliver now evs' ?c))"
      by (rule mirror_trans)
    then show ?thesis using True "2.prems"(2) by (simp add: evs parse_kv_key)
  next
    case False
    with 2 show ?thesis by (auto simp: Let_def mirror_refl split: if_splits)
  qed
qed (simp add: mirror_refl)

lemma kv_evict_mirror:
  "kv_evict delete_ok target p = (ok, p', evs) \<Longrightarrow> nid \<noteq> [] \<Longrightarrow> index_wf (cl_prefix c) \<Longrightarrow>
   tracks nid p (cl_prefix c) \<Longrightarrow> mirror_step nid ok p (cl_prefix c) p' (cl_prefix (deliver now evs c))"
proof (induction delete_ok target p arbitrary: p' evs c rule: kv_evict.induct)
  case (2 delete_ok target key p)
  from "2.prems"(4) obtain d where d: "length d = 32" "key = kv_key nid d" by (auto simp: tracks_def)
  consider (stop) "\<not> target < length (key # p)" | (fail) "target < length (key # p)" "\<not> delete_ok key"
    | (go) "target < length (key # p)" "delete_ok key" by blast
  then show ?case
  proof cases
    case stop
    with "2.prems" show ?thesis by (simp add: mirror_refl)
  next
    case fail
    with "2.prems" show ?thesis by (auto simp: mirror_step_def tracks_def)
  next
    case go
    obtain evs' where evs: "evs = KvDelete (Some key) # evs'"
      and rest: "kv_evict delete_ok target p = (ok, p', evs')"
      using "2.prems"(1) go by (auto simp: Let_def split: prod.splits)
    let ?c = "c\<lparr> cl_prefix := forget_claim d nid (cl_prefix c) \<rparr>"
    have del: "mirror_step nid True (key # p) (cl_prefix c) p (cl_prefix ?c)"
      using mirror_delete "2.prems"(3,4) d by simp
    then have "mirror_step nid ok p (cl_prefix ?c) p' (cl_prefix (deliver now evs' ?c))"
      using "2.IH" [of p' evs' ?c] rest go "2.prems"(2) by (simp add: mirror_step_def)
    with del have "mirror_step nid ok (key # p) (cl_prefix c) p' (cl_prefix (deliver now evs' ?c))"
      by (rule mirror_trans)
    then show ?thesis using d "2.prems"(2) by (simp add: evs parse_kv_key)
  qed
qed (simp add: mirror_refl)

lemma kv_evict_length:
  "kv_evict delete_ok target p = (True, p', evs) \<Longrightarrow> length p' \<le> target"
  by (induction delete_ok target p arbitrary: p' evs rule: kv_evict.induct)
     (auto simp: Let_def split: if_splits prod.splits)

lemma kv_puts_length:
  "kv_puts put_ok nid pending p = (ok, p', evs) \<Longrightarrow> length p' \<le> length p + length pending"
  by (induction put_ok nid pending p arbitrary: p' evs rule: kv_puts.induct)
     (fastforce simp: Let_def split: if_splits prod.splits)+

lemma publish_mirror:
  assumes "publish_kv_confirmed put_ok delete_ok nid stats pending p = (ok, p', evs)"
    and "nid \<noteq> []" and "index_wf (cl_prefix c)" and "tracks nid p (cl_prefix c)"
  shows "mirror_step nid ok p (cl_prefix c) p' (cl_prefix (deliver now evs c))"
    and "ok \<Longrightarrow> length p + length pending \<le> 2 * KV_CONFIRMED_MAX_KEYS \<Longrightarrow> length p' \<le> KV_CONFIRMED_MAX_KEYS"
proof -
  obtain ok1 p1 evs1 where puts: "kv_puts put_ok nid pending p = (ok1, p1, evs1)"
    by (cases "kv_puts put_ok nid pending p")
  have m1: "mirror_step nid True p (cl_prefix c) p1 (cl_prefix (deliver now evs1 c))"
    by (rule kv_puts_mirror [OF puts assms(2-4)])
  have "mirror_step nid ok p (cl_prefix c) p' (cl_prefix (deliver now evs c)) \<and>
    (ok \<longrightarrow> length p + length pending \<le> 2 * KV_CONFIRMED_MAX_KEYS \<longrightarrow> length p' \<le> KV_CONFIRMED_MAX_KEYS)"
  proof (cases ok1)
    case False
    with assms(1) puts m1 show ?thesis by (simp add: publish_kv_confirmed_def mirror_step_def)
  next
    case True
    let ?target = "if 0 < es_total_blocks stats \<and> low_blocks (es_free_blocks stats) (es_total_blocks stats)
                   then length p1 div 2 else KV_CONFIRMED_MAX_KEYS"
    obtain evs2 where evict: "kv_evict delete_ok ?target p1 = (ok, p', evs2)" and evs: "evs = evs1 @ evs2"
      using assms(1) puts True by (auto simp: publish_kv_confirmed_def Let_def split: prod.splits)
    have "mirror_step nid ok p1 (cl_prefix (deliver now evs1 c)) p' (cl_prefix (deliver now evs2 (deliver now evs1 c)))"
      using kv_evict_mirror [OF evict assms(2)] m1 by (simp add: mirror_step_def)
    with m1 have m: "mirror_step nid ok p (cl_prefix c) p' (cl_prefix (deliver now evs c))"
      unfolding evs deliver_append by (rule mirror_trans)
    have "ok \<Longrightarrow> length p' \<le> ?target" using evict by (auto dest: kv_evict_length)
    with m kv_puts_length [OF puts] show ?thesis by (auto split: if_splits)
  qed
  then show "mirror_step nid ok p (cl_prefix c) p' (cl_prefix (deliver now evs c))"
    and "ok \<Longrightarrow> length p + length pending \<le> 2 * KV_CONFIRMED_MAX_KEYS \<Longrightarrow> length p' \<le> KV_CONFIRMED_MAX_KEYS"
    by simp_all
qed

text \<open>C18: The router's claims follow the publisher. Whatever the engine confirmed and whichever
  etcd calls fail, after the router handles the events of one publishing pass every key the
  agent still tracks is a claim of the router, held once, and no other node's claims changed.
  When all calls succeed, a claim set that was exactly the tracked keys still is, and at most
  4096 keys are left unless more than 8192 were tracked and pending.\<close>

theorem published_claims_mirrored:
  assumes "publish_kv_confirmed put_ok delete_ok nid stats pending p = (ok, p', evs)"
    and "nid \<noteq> []" and "index_wf (cl_prefix c)" and "tracks nid p (cl_prefix c)"
    and "c' = deliver now evs c"
  shows "tracks nid p' (cl_prefix c') \<and>
    (\<forall>d n. n \<noteq> nid \<longrightarrow> claim (cl_prefix c') (d, n) = claim (cl_prefix c) (d, n)) \<and>
    (ok \<longrightarrow> complete nid p (cl_prefix c) \<longrightarrow> complete nid p' (cl_prefix c')) \<and>
    (ok \<longrightarrow> length p + length pending \<le> 2 * KV_CONFIRMED_MAX_KEYS \<longrightarrow> length p' \<le> KV_CONFIRMED_MAX_KEYS)"
  using publish_mirror [OF assms(1-4)] assms(5) by (simp add: mirror_step_def)

theorem published_claims_mirrored_witness:
  "claim (cl_prefix (deliver 7 (snd (snd (publish_kv_confirmed (\<lambda>_. True) (\<lambda>_. True) ''n1'' no_stats
     [replicate 32 1] []))) demo_cluster)) (replicate 32 1, ''n1'') \<noteq> None"
proof -
  let ?out = "publish_kv_confirmed (\<lambda>_. True) (\<lambda>_. True) ''n1'' no_stats [replicate 32 1] []"
  have out: "?out = (True, [kv_key ''n1'' (replicate 32 1)], snd (snd ?out))"
    by (simp add: publish_kv_confirmed_def no_stats_def KV_CONFIRMED_MAX_KEYS_def Let_def)
  have "index_wf (cl_prefix demo_cluster)" by (simp add: demo_cluster_def index_wf_new)
  moreover have "tracks ''n1'' [] (cl_prefix demo_cluster)" by (simp add: tracks_def)
  ultimately have "tracks ''n1'' [kv_key ''n1'' (replicate 32 1)]
      (cl_prefix (deliver 7 (snd (snd ?out)) demo_cluster))"
    by (intro published_claims_mirrored [THEN conjunct1, OF out _ _ _ refl]) simp_all
  then show ?thesis by (simp add: tracks_def del: not_None_eq)
qed

text \<open>A failed delete leaves the key in etcd while the agent no longer tracks it: the claim then
  stays with the router until the lease of the node ends.\<close>

lemma failed_delete_forgets_key:
  assumes "target < length (key # p)" and "\<not> delete_ok key"
  shows "kv_evict delete_ok target (key # p) = (False, p, [])"
  using assms by simp

text \<open>A failed put drops the rest of the pending digests: they were taken out of the queue before
  the first call.\<close>

lemma failed_put_drops_pending:
  assumes "length d = 32" and "kv_key nid d \<notin> set p" and "\<not> put_ok (kv_key nid d)"
  shows "kv_puts put_ok nid (d # pending) p = (False, p, [])"
  using assms by simp

end
