(* ===== verification/Cgn_Error.thy ===== *)
theory Cgn_Error
  imports Cgn_Prelude
begin

text \<open>
  The workspace error type (\<open>cgn-core/src/error.rs\<close>): constructors, messages, process exit
  codes and the conversion to a gRPC status. A foreign error is the text it prints; of an I/O
  error the kind \<open>AddrInUse\<close> is kept as a flag.
\<close>

datatype Code = C_Ok | C_Cancelled | C_Unknown | C_InvalidArgument | C_DeadlineExceeded | C_NotFound
  | C_AlreadyExists | C_PermissionDenied | C_ResourceExhausted | C_FailedPrecondition | C_Aborted
  | C_OutOfRange | C_Unimplemented | C_Internal | C_Unavailable | C_DataLoss | C_Unauthenticated

type_synonym status = "Code \<times> string"

datatype Error =
    Io bool string
  | Config string
  | Toml string
  | Json string
  | Tls string
  | Transport string
  | Status status
  | Etcd string
  | Gossip string
  | InvalidArgument string
  | NotFound string
  | Unavailable string
  | Internal string
  | Other string

text \<open>\<open>Display\<close> of the error; \<open>show_status\<close> is how tonic prints a status.\<close>

fun display :: "(status \<Rightarrow> string) \<Rightarrow> Error \<Rightarrow> string" where
  "display show_status (Io _ s) = ''io: '' @ s"
| "display show_status (Config s) = ''config: '' @ s"
| "display show_status (Toml s) = ''toml: '' @ s"
| "display show_status (Json s) = ''json: '' @ s"
| "display show_status (Tls s) = ''tls: '' @ s"
| "display show_status (Transport s) = ''transport: '' @ s"
| "display show_status (Status st) = ''rpc: '' @ show_status st"
| "display show_status (Etcd s) = ''etcd: '' @ s"
| "display show_status (Gossip s) = ''gossip: '' @ s"
| "display show_status (InvalidArgument s) = ''invalid argument: '' @ s"
| "display show_status (NotFound s) = ''not found: '' @ s"
| "display show_status (Unavailable s) = ''unavailable: '' @ s"
| "display show_status (Internal s) = ''internal: '' @ s"
| "display show_status (Other s) = s"

fun exit_code :: "Error \<Rightarrow> int" where
  "exit_code (Config _) = 3"
| "exit_code (Toml _) = 3"
| "exit_code (InvalidArgument _) = 2"
| "exit_code (Tls _) = 5"
| "exit_code (Etcd _) = 4"
| "exit_code (Gossip _) = 4"
| "exit_code (Unavailable _) = 4"
| "exit_code (NotFound _) = 4"
| "exit_code (Io addr_in_use _) = (if addr_in_use then 7 else 8)"
| "exit_code (Transport _) = 4"
| "exit_code (Status _) = 4"
| "exit_code (Json _) = 3"
| "exit_code (Internal _) = 1"
| "exit_code (Other _) = 1"

definition status_code :: "Error \<Rightarrow> Code" where
  "status_code e =
     (case e of InvalidArgument _ \<Rightarrow> C_InvalidArgument | NotFound _ \<Rightarrow> C_NotFound
      | Unavailable _ \<Rightarrow> C_Unavailable | Status (c, _) \<Rightarrow> c | _ \<Rightarrow> C_Internal)"

definition into_status :: "(status \<Rightarrow> string) \<Rightarrow> Error \<Rightarrow> status" where
  "into_status show_status e =
     (case e of Status s \<Rightarrow> s | _ \<Rightarrow> (status_code e, display show_status e))"

text \<open>A status that passed through an error comes out unchanged.\<close>

lemma status_round_trip [simp]: "into_status show_status (Status s) = s"
  by (simp add: into_status_def)

lemma fst_into_status: "fst (into_status show_status e) = status_code e"
  by (cases e) (auto simp: into_status_def status_code_def)

lemma exit_code_nonzero: "exit_code e \<in> {1, 2, 3, 4, 5, 7, 8}"
  by (cases e) auto

end
