(* ===== verification/Cgn_Text.thy ===== *)
theory Cgn_Text
  imports Cgn_Str
begin

text \<open>
  The text operations of Rust's \<open>str\<close> that the key file and the header parsers use:
  \<open>lines\<close>, \<open>split_whitespace\<close>, \<open>rsplit\<close>, \<open>join\<close>, suffixes and ASCII case, with their
  behaviour on text that is built line by line. White space is ASCII white space.
\<close>

definition NL :: char where "NL = CHR 0x0A"

definition strip_cr :: "string \<Rightarrow> string" where
  "strip_cr l = (if l \<noteq> [] \<and> last l = CHR 0x0D then butlast l else l)"

text \<open>\<open>str::lines\<close>: pieces that end in a line feed lose it and one carriage return before it;
  a last piece without a line feed is kept as it is, unless it is empty.\<close>

definition lines :: "string \<Rightarrow> string list" where
  "lines s =
     (let ps = split_on NL s
      in map strip_cr (butlast ps) @ (if last ps = [] then [] else [last ps]))"

definition split_whitespace :: "string \<Rightarrow> string list" where
  "split_whitespace s =
     filter (\<lambda>w. w \<noteq> []) (split_on (CHR '' '') (map (\<lambda>c. if is_space c then CHR '' '' else c) s))"

definition strip_suffix_char :: "char \<Rightarrow> string \<Rightarrow> string option" where
  "strip_suffix_char c s = (if s \<noteq> [] \<and> last s = c then Some (butlast s) else None)"

definition starts_with :: "string \<Rightarrow> string \<Rightarrow> bool" where
  "starts_with p s \<longleftrightarrow> take (length p) s = p"

definition ascii_lower :: "char \<Rightarrow> char" where
  "ascii_lower c = (let n = (of_char c :: nat) in if 65 \<le> n \<and> n \<le> 90 then char_of (n + 32) else c)"

definition to_ascii_lowercase :: "string \<Rightarrow> string" where
  "to_ascii_lowercase s = map ascii_lower s"

fun join_nl :: "string list \<Rightarrow> string" where
  "join_nl [] = []"
| "join_nl [l] = l"
| "join_nl (l # k # ls) = l @ NL # join_nl (k # ls)"

definition unlines :: "string list \<Rightarrow> string" where
  "unlines ls = concat (map (\<lambda>l. l @ [NL]) ls)"

text \<open>\<open>Iterator::find_map\<close>.\<close>

fun find_map :: "('a \<Rightarrow> 'b option) \<Rightarrow> 'a list \<Rightarrow> 'b option" where
  "find_map f [] = None"
| "find_map f (x # xs) = (case f x of None \<Rightarrow> find_map f xs | Some y \<Rightarrow> Some y)"

lemma find_map_None [simp]: "find_map f xs = None \<longleftrightarrow> (\<forall>x \<in> set xs. f x = None)"
  by (induction xs) (auto split: option.splits)

lemma find_map_Some: "find_map f xs = Some y \<Longrightarrow> \<exists>x \<in> set xs. f x = Some y"
  by (induction xs) (auto split: option.splits)

section \<open>Lines\<close>

lemma lines_Nil [simp]: "lines [] = []"
  by (simp add: lines_def)

lemma lines_last: "NL \<notin> set l \<Longrightarrow> l \<noteq> [] \<Longrightarrow> lines l = [l]"
  by (simp add: lines_def split_on_single)

lemma lines_step: "NL \<notin> set l \<Longrightarrow> lines (l @ NL # t) = strip_cr l # lines t"
  by (simp add: lines_def split_on_append Let_def)

lemma lines_unlines: "\<forall>l \<in> set ls. NL \<notin> set l \<Longrightarrow> lines (unlines ls) = map strip_cr ls"
  by (induction ls) (auto simp: unlines_def lines_step)

definition ends_line :: "string \<Rightarrow> bool" where
  "ends_line s \<longleftrightarrow> s = [] \<or> last s = NL"

lemma ends_line_split:
  assumes "ends_line s" and "s \<noteq> []"
  obtains l t where "s = l @ NL # t" "NL \<notin> set l" "ends_line t"
proof -
  have "NL \<in> set s" using assms unfolding ends_line_def by (metis last_in_set)
  then obtain l t where *: "s = l @ NL # t" "NL \<notin> set l" by (metis split_list_first)
  moreover have "ends_line t" using assms * by (auto simp: ends_line_def split: if_splits)
  ultimately show thesis using that by blast
qed

lemma lines_append: "ends_line s \<Longrightarrow> lines (s @ t) = lines s @ lines t"
proof (induction "length s" arbitrary: s rule: less_induct)
  case less
  show ?case
  proof (cases "s = []")
    case False
    obtain l r where s: "s = l @ NL # r" "NL \<notin> set l" "ends_line r"
      by (rule ends_line_split [OF less.prems False])
    with less.hyps [of r] show ?thesis by (simp add: lines_step)
  qed simp
qed

lemma set_strip_cr: "set (strip_cr p) \<subseteq> set p"
  by (auto simp: strip_cr_def dest: in_set_butlastD)

lemma split_on_subset: "p \<in> set (split_on c t) \<Longrightarrow> set p \<subseteq> set t"
proof (induction t arbitrary: p)
  case (Cons a t)
  obtain y ys where y: "split_on c t = y # ys" using split_on_nonempty by (metis list.exhaust)
  have "set q \<subseteq> set t" if "q \<in> set (y # ys)" for q using Cons.IH that y by simp
  with Cons.prems y show ?case by (fastforce split: if_splits)
qed simp

lemma lines_piece: "l \<in> set (lines s) \<Longrightarrow> \<exists>p \<in> set (split_on NL s). set l \<subseteq> set p"
proof -
  assume l: "l \<in> set (lines s)"
  have lst: "last (split_on NL s) \<in> set (split_on NL s)" by simp
  from l have "l \<in> strip_cr ` set (butlast (split_on NL s)) \<or> l = last (split_on NL s)"
    by (auto simp: lines_def Let_def split: if_splits)
  then show ?thesis
  proof
    assume "l \<in> strip_cr ` set (butlast (split_on NL s))"
    then obtain p where "p \<in> set (split_on NL s)" "l = strip_cr p" by (blast dest: in_set_butlastD)
    with set_strip_cr show ?thesis by blast
  next
    assume "l = last (split_on NL s)"
    with lst show ?thesis by blast
  qed
qed

lemma NL_not_in_lines: "l \<in> set (lines s) \<Longrightarrow> NL \<notin> set l"
  using lines_piece split_on_sep_free by blast

lemma lines_subset: "l \<in> set (lines s) \<Longrightarrow> set l \<subseteq> set s"
  using lines_piece split_on_subset by blast

lemma unlines_join: "ls \<noteq> [] \<Longrightarrow> unlines ls = join_nl ls @ [NL]"
  by (induction ls rule: join_nl.induct) (simp_all add: unlines_def)

lemma join_nl_snoc: "ls \<noteq> [] \<Longrightarrow> join_nl (ls @ [l]) = unlines ls @ l"
  by (induction ls rule: join_nl.induct) (simp_all add: unlines_def)

lemma unlines_append: "unlines (ls @ ks) = unlines ls @ unlines ks"
  by (simp add: unlines_def)

lemma ends_line_unlines [simp]: "ends_line (unlines ls)"
  by (cases ls rule: rev_cases) (simp_all add: unlines_def ends_line_def)

section \<open>Words\<close>

definition word_like :: "string \<Rightarrow> bool" where
  "word_like w \<longleftrightarrow> w \<noteq> [] \<and> (\<forall>c \<in> set w. \<not> is_space c)"

lemma is_space_blank [simp]: "is_space (CHR '' '')"
  by (simp add: is_space_def)

lemma is_space_NL [simp]: "is_space NL" "is_space (CHR 0x0D)" "is_space (CHR 0x0A)"
  by (simp_all add: is_space_def NL_def)

lemma blank_not_NL [simp]: "CHR '' '' \<noteq> NL" "NL \<noteq> CHR '' ''"
  by (simp_all add: NL_def)

lemma map_blank_word: "\<forall>c \<in> set w. \<not> is_space c \<Longrightarrow> map (\<lambda>c. if is_space c then CHR '' '' else c) w = w"
  by (induction w) auto

lemma split_ws_Nil [simp]: "split_whitespace [] = []"
  by (simp add: split_whitespace_def)

lemma split_ws_space [simp]: "is_space c \<Longrightarrow> split_whitespace (c # s) = split_whitespace s"
  by (simp add: split_whitespace_def)

lemma split_ws_word: "word_like w \<Longrightarrow> split_whitespace w = [w]"
proof -
  assume w: "word_like w"
  then have "CHR '' '' \<notin> set w" by (auto simp: word_like_def)
  with w show ?thesis by (simp add: split_whitespace_def map_blank_word word_like_def split_on_single)
qed

lemma split_ws_append:
  assumes "word_like w" and "is_space c"
  shows "split_whitespace (w @ c # s) = w # split_whitespace s"
proof -
  have "CHR '' '' \<notin> set w" using assms by (auto simp: word_like_def)
  with assms show ?thesis
    by (simp add: split_whitespace_def map_blank_word word_like_def split_on_append)
qed

lemma split_on_butlast_sep: "split_on c (s @ [c]) = split_on c s @ [[]]"
  by (induction s) (auto split: list.splits)

lemma split_ws_snoc [simp]: "is_space c \<Longrightarrow> split_whitespace (s @ [c]) = split_whitespace s"
  by (simp add: split_whitespace_def split_on_butlast_sep)

lemma split_ws_dropWhile [simp]: "split_whitespace (dropWhile is_space s) = split_whitespace s"
  by (induction s) auto

lemma split_ws_rev_drop: "split_whitespace (rev (dropWhile is_space s)) = split_whitespace (rev s)"
  by (induction s) auto

lemma split_ws_trim [simp]: "split_whitespace (trim s) = split_whitespace s"
  by (simp add: trim_def split_ws_rev_drop)

lemma split_ws_strip_cr [simp]: "split_whitespace (strip_cr s) = split_whitespace s"
proof (cases "s \<noteq> [] \<and> last s = CHR 0x0D")
  case True
  then have "s = butlast s @ [CHR 0x0D]" by (metis append_butlast_last_id)
  then have "split_whitespace s = split_whitespace (butlast s)" by (metis split_ws_snoc is_space_NL(2))
  with True show ?thesis by (simp add: strip_cr_def)
next
  case False
  then have "strip_cr s = s" by (auto simp: strip_cr_def)
  then show ?thesis by simp
qed

lemma split_ws_words:
  assumes "w \<in> set (split_whitespace s)"
  shows "word_like w" "set w \<subseteq> set s"
proof -
  let ?f = "\<lambda>c. if is_space c then CHR '' '' else c"
  from assms have w: "w \<in> set (split_on (CHR '' '') (map ?f s))" "w \<noteq> []"
    by (auto simp: split_whitespace_def)
  from split_on_sep_free [OF w(1)] split_on_subset [OF w(1)] have *: "\<forall>c \<in> set w. c \<noteq> CHR '' '' \<and> c \<in> ?f ` set s"
    by auto
  then show "word_like w" "set w \<subseteq> set s" using w(2) by (auto simp: word_like_def split: if_splits)
qed

lemma split_ws_eq_Nil: "split_whitespace s = [] \<longleftrightarrow> trim s = []"
proof
  assume "trim s = []"
  then show "split_whitespace s = []" by (metis split_ws_trim split_ws_Nil)
next
  assume ws: "split_whitespace s = []"
  have *: "split_whitespace t = [] \<Longrightarrow> dropWhile is_space t = []" for t
  proof (induction t)
    case (Cons c t)
    show ?case
    proof (cases "is_space c")
      case False
      let ?f = "\<lambda>c. if is_space c then CHR '' '' else c"
      have "c \<noteq> CHR '' ''" using False by auto
      with Cons.prems False show ?thesis
        by (auto simp: split_whitespace_def split: list.splits)
    qed (use Cons in simp)
  qed simp
  show "trim s = []" by (simp add: trim_def * [OF ws])
qed

lemma strip_cr_word:
  assumes "word_like w"
  shows "strip_cr (s @ w) = s @ w"
proof -
  have "last w \<in> set w" using assms by (simp add: word_like_def)
  then have "last w \<noteq> CHR 0x0D" using assms is_space_NL(2) unfolding word_like_def by metis
  with assms show ?thesis by (simp add: strip_cr_def word_like_def)
qed

end
