(* ===== verification/Cgn_Selector.thy ===== *)
theory Cgn_Selector
  imports Cgn_Cluster Cgn_Error Cgn_Text "HOL-Library.List_Lexorder"
begin

text \<open>
  Node selection: the per-node score (\<open>routing/score.rs\<close>), the digest salt, session affinity
  by rendezvous hashing and the two pickers (\<open>routing/selector.rs\<close>), with the parts of
  \<open>state.rs\<close> they read. Scores are computed in binary32 arithmetic. The registry is listed
  in the order \<open>order\<close> gives; metrics and log lines are left out.
\<close>

section \<open>Router state\<close>

record ModelCaps =
  mc_min_vram_mb :: "nat option"
  mc_require_gpu :: "string option"

record SharedState =
  st_cluster :: Cluster
  st_inflight :: "node_id \<rightharpoonup> nat"
  st_isolation :: bool
  st_models :: "string \<rightharpoonup> ModelCaps"
  st_discovery :: bool
  st_draining :: bool

definition node_inflight :: "SharedState \<Rightarrow> node_id \<Rightarrow> nat" where
  "node_inflight st nid = (case st_inflight st nid of None \<Rightarrow> 0 | Some c \<Rightarrow> c)"

definition track_node :: "node_id \<Rightarrow> SharedState \<Rightarrow> SharedState" where
  "track_node nid st = st\<lparr> st_inflight := (st_inflight st)(nid \<mapsto> node_inflight st nid + 1) \<rparr>"

text \<open>Dropping the guard; the counter of a live guard is positive.\<close>

definition drop_guard :: "node_id \<Rightarrow> SharedState \<Rightarrow> SharedState" where
  "drop_guard nid st = st\<lparr> st_inflight := (st_inflight st)(nid \<mapsto> node_inflight st nid - 1) \<rparr>"

definition effective_queue :: "SharedState \<Rightarrow> NodeEntry \<Rightarrow> nat" where
  "effective_queue st n = max (ne_queue_depth n) (node_inflight st (ne_node_id n))"

definition readiness :: "(NodeRegistry \<Rightarrow> node_id list) \<Rightarrow> SharedState \<Rightarrow> string + unit" where
  "readiness order st =
     (if st_draining st then Inl ''draining''
      else let r = cl_nodes (st_cluster st) in
        if st_discovery st \<and> nodes_for (order r) Unspecified None r = [] then Inl ''no ready nodes''
        else Inr ())"

section \<open>Score\<close>

record Score =
  sc_total :: f32
  sc_kv :: f32
  sc_load :: f32
  sc_power :: f32
  sc_capacity :: f32

definition clamp01 :: "f32 \<Rightarrow> f32" where
  "clamp01 x = (if x < 0 then 0 else if 1 < x then 1 else x)"

definition score_node :: "RoutingPolicy \<Rightarrow> NodeEntry \<Rightarrow> nat \<Rightarrow> f32 \<Rightarrow> f32 \<Rightarrow> Score" where
  "score_node policy node queue_depth kv_overlap peer_max_power =
     (let load = clamp01 (fsub 1 (fdiv (nat_as_f32 queue_depth) 64));
          power = (if 0 < peer_max_power then clamp01 (fsub 1 (fdiv (ne_power_watts node) peer_max_power)) else 1);
          capacity = (if 0 < ne_total_blocks node
                      then clamp01 (fdiv (nat_as_f32 (ne_free_blocks node)) (nat_as_f32 (ne_total_blocks node)))
                      else 0);
          tot = fadd (fadd (fadd (fmul (rp_kv policy) kv_overlap) (fmul (rp_load policy) load))
                        (fmul (rp_power policy) power)) (fmul (rp_capacity policy) capacity)
      in \<lparr> sc_total = tot, sc_kv = kv_overlap, sc_load = load, sc_power = power, sc_capacity = capacity \<rparr>)"

section \<open>Selection\<close>

record RoutingDecision =
  rd_node :: NodeEntry
  rd_score :: Score
  rd_overlap :: f32
  rd_n_candidates :: nat
  rd_digests :: "bytes list"

record RouteKey =
  rk_model :: string
  rk_salt :: string
  rk_session :: "string option"
  rk_token_ids :: "u32 list"

definition prefix_salt :: "bool \<Rightarrow> string \<Rightarrow> string \<Rightarrow> string" where
  "prefix_salt kv_tenant_isolation model tenant =
     (if tenant = [] \<or> \<not> kv_tenant_isolation then model else model @ CHR 0x00 # tenant)"

definition session_msg :: "string \<Rightarrow> NodeEntry \<Rightarrow> bytes" where
  "session_msg session n = str_bytes session @ [0] @ str_bytes (ne_node_id n)"

definition rendezvous :: "(bytes \<Rightarrow> bytes) \<Rightarrow> string \<Rightarrow> NodeEntry list \<Rightarrow> NodeEntry option" where
  "rendezvous blake3 session nodes = max_by_key (\<lambda>n. blake3 (session_msg session n)) nodes"

definition str_contains :: "string \<Rightarrow> string \<Rightarrow> bool" where
  "str_contains hay needle \<longleftrightarrow>
     list_ex (\<lambda>i. take (length needle) (drop i hay) = needle) [0..<length hay + 1]"

definition capable :: "ModelCaps option \<Rightarrow> NodeEntry \<Rightarrow> bool" where
  "capable mc n \<longleftrightarrow>
     (case mc of None \<Rightarrow> True
      | Some m \<Rightarrow>
          (case mc_min_vram_mb m of None \<Rightarrow> True
             | Some v \<Rightarrow> ne_vram_total_mb n = 0 \<or> v \<le> ne_vram_total_mb n) \<and>
          (case mc_require_gpu m of None \<Rightarrow> True
             | Some g \<Rightarrow> let req = to_ascii_lowercase g in
                 ne_gpu_name n = [] \<and> ne_gpu_vendor n = []
                 \<or> str_contains (to_ascii_lowercase (ne_gpu_name n)) req
                 \<or> str_contains (to_ascii_lowercase (ne_gpu_vendor n)) req))"

definition under_cap :: "NodeEntry \<Rightarrow> bool" where
  "under_cap n \<longleftrightarrow> ne_watt_limit n \<le> 0 \<or> ne_power_watts n < ne_watt_limit n"

text \<open>\<open>if candidates.iter().any(..) { candidates.retain(..) }\<close>.\<close>

definition prefer_under_cap :: "NodeEntry list \<Rightarrow> NodeEntry list" where
  "prefer_under_cap ns = (if list_ex under_cap ns then filter under_cap ns else ns)"

definition peer_max :: "NodeEntry list \<Rightarrow> f32" where
  "peer_max ns = fold (\<lambda>n m. max m (ne_power_watts n)) ns 0"

text \<open>The scoring loops keep the first of several best nodes.\<close>

fun best_of :: "(NodeEntry \<Rightarrow> Score) \<Rightarrow> (NodeEntry \<times> Score) option \<Rightarrow> NodeEntry list \<Rightarrow> (NodeEntry \<times> Score) option" where
  "best_of sc best [] = best"
| "best_of sc best (n # ns) =
     best_of sc (case best of
                   Some (p, s) \<Rightarrow> if sc_total (sc n) \<le> sc_total s then Some (p, s) else Some (n, sc n)
                 | None \<Rightarrow> Some (n, sc n)) ns"

definition candidates_for :: "(NodeRegistry \<Rightarrow> node_id list) \<Rightarrow> SharedState \<Rightarrow> string \<Rightarrow> NodeRole \<Rightarrow> string list \<Rightarrow> NodeEntry list" where
  "candidates_for order st model role exclude =
     (let r = cl_nodes (st_cluster st)
      in filter (capable (st_models st model))
           (filter (\<lambda>n. ne_node_id n \<notin> set exclude) (nodes_for (order r) role (Some model) r)))"

definition overlap_of :: "(node_id \<rightharpoonup> nat) \<Rightarrow> bytes list \<Rightarrow> NodeEntry \<Rightarrow> f32" where
  "overlap_of lens digests n =
     (if digests = [] then 0
      else fdiv (nat_as_f32 (case lens (ne_node_id n) of None \<Rightarrow> 0 | Some k \<Rightarrow> k)) (nat_as_f32 (length digests)))"

definition prefix_lens :: "instant \<Rightarrow> SharedState \<Rightarrow> bytes list \<Rightarrow> (node_id \<rightharpoonup> nat)" where
  "prefix_lens now st digests =
     (if digests = [] then Map.empty else longest_prefix_overlap now (cl_prefix (st_cluster st)) digests)"

text \<open>The score of one node inside the loop, the session bonus included.\<close>

definition node_score :: "SharedState \<Rightarrow> (node_id \<rightharpoonup> nat) \<Rightarrow> bytes list \<Rightarrow> node_id option \<Rightarrow> f32 \<Rightarrow> NodeEntry \<Rightarrow> Score" where
  "node_score st lens digests session_node peer_max_power n =
     (let policy = cl_policy (st_cluster st);
          s = score_node policy n (effective_queue st n) (overlap_of lens digests n) peer_max_power
      in if session_node = Some (ne_node_id n) then s\<lparr> sc_total := fadd (sc_total s) (rp_session policy) \<rparr> else s)"

text \<open>\<open>{:?}\<close> of a role.\<close>

fun role_debug :: "NodeRole \<Rightarrow> string" where
  "role_debug Unspecified = ''Unspecified''"
| "role_debug RolePrefill = ''Prefill''"
| "role_debug RoleDecode = ''Decode''"
| "role_debug RoleBoth = ''Both''"

text \<open>\<open>{:?}\<close> of a string of printable and ASCII control characters.\<close>

definition escape_char :: "char \<Rightarrow> string" where
  "escape_char c =
     (let n = (of_char c :: nat) in
      if c = CHR 0x22 \<or> c = CHR 0x5C then [CHR 0x5C, c]
      else if n = 9 then [CHR 0x5C, CHR ''t''] else if n = 10 then [CHR 0x5C, CHR ''n''] else if n = 13 then [CHR 0x5C, CHR ''r'']
      else if n = 0 then [CHR 0x5C, CHR ''0'']
      else if n < 32 \<or> n = 127
      then CHR 0x5C # ''u{'' @ (if n < 16 then [HEX ! n] else [HEX ! (n div 16), HEX ! (n mod 16)]) @ ''}''
      else [c])"

definition debug_str :: "string \<Rightarrow> string" where
  "debug_str s = CHR 0x22 # concat (map escape_char s) @ [CHR 0x22]"

fun debug_items :: "string list \<Rightarrow> string" where
  "debug_items [] = []"
| "debug_items [x] = debug_str x"
| "debug_items (x # xs) = debug_str x @ '', '' @ debug_items xs"

definition unavailable_msg :: "string \<Rightarrow> NodeRole \<Rightarrow> string list \<Rightarrow> string" where
  "unavailable_msg model role exclude =
     ''no live node serving model '' @ model @ '' for role '' @ role_debug role @
     (if exclude = [] then []
      else '' (excluded after failed dispatch: ['' @ debug_items exclude @ ''])'')"

definition pick_excluding ::
  "(bytes \<Rightarrow> bytes) \<Rightarrow> (NodeRegistry \<Rightarrow> node_id list) \<Rightarrow> instant \<Rightarrow> SharedState \<Rightarrow> RouteKey \<Rightarrow> NodeRole \<Rightarrow>
   string list \<Rightarrow> (Error, RoutingDecision) result" where
  "pick_excluding blake3 order now st key role exclude =
     (let candidates = prefer_under_cap (candidates_for order st (rk_model key) role exclude) in
      if candidates = [] then Inl (Unavailable (unavailable_msg (rk_model key) role exclude))
      else
        let digests = hash_seq_chunks blake3 (rk_salt key) (rk_token_ids key);
            lens = prefix_lens now st digests;
            session_node = map_option ne_node_id
              (Option.bind (rk_session key) (\<lambda>s. rendezvous blake3 s candidates));
            sc = node_score st lens digests session_node (peer_max candidates)
        in case best_of sc None candidates of
             None \<Rightarrow> Inl (Internal ''non-empty candidates'')
           | Some (node, s) \<Rightarrow> Inr \<lparr> rd_node = node, rd_score = s, rd_overlap = overlap_of lens digests node,
                 rd_n_candidates = length candidates, rd_digests = digests \<rparr>)"

definition pick ::
  "(bytes \<Rightarrow> bytes) \<Rightarrow> (NodeRegistry \<Rightarrow> node_id list) \<Rightarrow> instant \<Rightarrow> SharedState \<Rightarrow> RouteKey \<Rightarrow> NodeRole \<Rightarrow>
   (Error, RoutingDecision) result" where
  "pick blake3 order now st key role = pick_excluding blake3 order now st key role []"

definition pick_pair ::
  "(bytes \<Rightarrow> bytes) \<Rightarrow> (NodeRegistry \<Rightarrow> node_id list) \<Rightarrow> instant \<Rightarrow> SharedState \<Rightarrow> RouteKey \<Rightarrow> NodeRole \<Rightarrow>
   NodeRole \<Rightarrow> string list \<Rightarrow> (Error, RoutingDecision \<times> RoutingDecision) result" where
  "pick_pair blake3 order now st key prefill_role decode_role exclude =
     (case pick_excluding blake3 order now st key prefill_role exclude of
        Inl e \<Rightarrow> Inl e
      | Inr prefill \<Rightarrow>
          let r = cl_nodes (st_cluster st);
              distinct_nodes = prefer_under_cap
                (filter (\<lambda>n. ne_node_id n \<noteq> ne_node_id (rd_node prefill) \<and> ne_node_id n \<notin> set exclude)
                   (nodes_for (order r) decode_role (Some (rk_model key)) r))
          in if distinct_nodes = [] then Inr (prefill, prefill)
             else case best_of (\<lambda>n. score_node (cl_policy (st_cluster st)) n (effective_queue st n) 0
                                      (peer_max distinct_nodes)) None distinct_nodes of
                    None \<Rightarrow> Inl (Internal ''non-empty distinct'')
                  | Some (n, s) \<Rightarrow> Inr (prefill, \<lparr> rd_node = n, rd_score = s, rd_overlap = 0,
                      rd_n_candidates = length distinct_nodes, rd_digests = rd_digests prefill \<rparr>))"

section \<open>Candidates\<close>

lemma prefer_under_cap_empty [simp]: "prefer_under_cap ns = [] \<longleftrightarrow> ns = []"
  by (auto simp: prefer_under_cap_def list_ex_iff filter_empty_conv)

lemma set_prefer_under_cap:
  "n \<in> set (prefer_under_cap ns) \<longleftrightarrow> n \<in> set ns \<and> ((\<exists>m \<in> set ns. under_cap m) \<longrightarrow> under_cap n)"
  by (auto simp: prefer_under_cap_def list_ex_iff)

lemma best_of_None: "best_of sc None ns = None \<longleftrightarrow> ns = []"
proof -
  have some: "best_of sc (Some b) ms \<noteq> None" for b ms
    by (induction ms arbitrary: b) (auto split: prod.splits)
  show ?thesis by (cases ns) (auto simp: some simp del: not_None_eq)
qed

lemma best_of_from_Some:
  "best_of sc (Some (p, s)) ns = Some (n, t) \<Longrightarrow>
     (n, t) \<in> insert (p, s) ((\<lambda>m. (m, sc m)) ` set ns) \<and> sc_total s \<le> sc_total t \<and>
     (\<forall>m \<in> set ns. sc_total (sc m) \<le> sc_total t)"
proof (induction ns arbitrary: p s)
  case (Cons m ns)
  show ?case
  proof (cases "sc_total (sc m) \<le> sc_total s")
    case True
    with Cons.prems have "best_of sc (Some (p, s)) ns = Some (n, t)" by simp
    from Cons.IH [OF this] True show ?thesis by force
  next
    case False
    with Cons.prems have "best_of sc (Some (m, sc m)) ns = Some (n, t)" by simp
    from Cons.IH [OF this] False show ?thesis by force
  qed
qed simp

lemma best_of_max:
  assumes "best_of sc None ns = Some (n, t)"
  shows "n \<in> set ns \<and> t = sc n \<and> (\<forall>m \<in> set ns. sc_total (sc m) \<le> sc_total (sc n))"
proof (cases ns)
  case Nil
  with assms show ?thesis by simp
next
  case (Cons m ms)
  with assms have "best_of sc (Some (m, sc m)) ms = Some (n, t)" by simp
  from best_of_from_Some [OF this] Cons show ?thesis by auto
qed

section \<open>Session affinity\<close>

lemma max_by_key_cong: "(\<And>x. x \<in> set xs \<Longrightarrow> f x = g x) \<Longrightarrow> max_by_key f xs = max_by_key g xs"
proof (induction xs)
  case (Cons x xs)
  then have "max_by_key f xs = max_by_key g xs" by simp
  with Cons.prems show ?case by (auto split: option.splits dest!: max_by_key_Some)
qed simp

lemma max_by_key_unique:
  assumes "m \<in> set xs" and "\<And>x. x \<in> set xs \<Longrightarrow> x \<noteq> m \<Longrightarrow> f x < f m"
  shows "max_by_key f xs = Some m"
proof -
  obtain k where k: "max_by_key f xs = Some k" using assms(1) by (cases "max_by_key f xs") auto
  from max_by_key_Some [OF k] have "k \<in> set xs" "f m \<le> f k" using assms(1) by auto
  with assms(2) [of k] k show ?thesis by (metis leD)
qed

lemma max_by_key_perm:
  assumes "inj_on f (set xs)" and "set xs = set ys"
  shows "max_by_key f xs = max_by_key f ys"
proof (cases "max_by_key f xs")
  case None
  then have "xs = []" by simp
  with assms(2) show ?thesis by simp
next
  case (Some m)
  note m = max_by_key_Some [OF Some]
  have "f x < f m" if "x \<in> set ys" "x \<noteq> m" for x
    using m that assms by (metis inj_onD order_le_imp_less_or_eq)
  with m assms(2) have "max_by_key f ys = Some m" by (auto intro: max_by_key_unique)
  with Some show ?thesis by simp
qed

lemma max_by_key_insert:
  "max_by_key f (xs @ y # ys) \<in> {Some y, max_by_key f (xs @ ys)}"
proof (induction xs)
  case Nil
  show ?case by (auto split: option.splits)
next
  case (Cons x xs)
  show ?case
  proof (cases "max_by_key f (xs @ y # ys) = Some y")
    case True
    show ?thesis
    proof (cases "max_by_key f (xs @ ys)")
      case None
      with True show ?thesis by auto
    next
      case (Some z)
      have "f z \<le> f y" using max_by_key_Some [OF True] max_by_key_Some [OF Some] by auto
      with True Some show ?thesis by auto
    qed
  next
    case False
    with Cons show ?thesis by auto
  qed
qed

end
