(* ===== verification/Cgn_Selector_Props.thy ===== *)
theory Cgn_Selector_Props
  imports Cgn_Selector
begin

text \<open>
  Properties of node selection: the pickers return a best-scoring eligible node and fail only
  without one, scores respond to load and cache overlap in the right direction also under
  binary32 rounding, and session affinity moves only the sessions it has to.
\<close>

section \<open>Picking\<close>

definition eligible :: "SharedState \<Rightarrow> string \<Rightarrow> NodeRole \<Rightarrow> string list \<Rightarrow> NodeEntry \<Rightarrow> bool" where
  "eligible st model role exclude n \<longleftrightarrow>
     n \<in> ran (cl_nodes (st_cluster st)) \<and> routable role (Some model) n \<and>
     ne_node_id n \<notin> set exclude \<and> capable (st_models st model) n"

lemma set_candidates_for:
  "enumerates (order (cl_nodes (st_cluster st))) (cl_nodes (st_cluster st)) \<Longrightarrow>
   set (candidates_for order st model role exclude) = {n. eligible st model role exclude n}"
  by (auto simp: candidates_for_def Let_def set_nodes_for eligible_def)

text \<open>The score the loop of \<open>pick_excluding\<close> gives a node.\<close>

definition scoring ::
  "(bytes \<Rightarrow> bytes) \<Rightarrow> (NodeRegistry \<Rightarrow> node_id list) \<Rightarrow> instant \<Rightarrow> SharedState \<Rightarrow> RouteKey \<Rightarrow> NodeRole \<Rightarrow>
   string list \<Rightarrow> NodeEntry \<Rightarrow> Score" where
  "scoring blake3 order now st key role exclude =
     (let candidates = prefer_under_cap (candidates_for order st (rk_model key) role exclude);
          digests = hash_seq_chunks blake3 (rk_salt key) (rk_token_ids key)
      in node_score st (prefix_lens now st digests) digests
           (map_option ne_node_id (Option.bind (rk_session key) (\<lambda>s. rendezvous blake3 s candidates)))
           (peer_max candidates))"

lemma pick_excluding_Inr:
  assumes "pick_excluding blake3 order now st key role exclude = Inr d"
  shows "best_of (scoring blake3 order now st key role exclude) None
      (prefer_under_cap (candidates_for order st (rk_model key) role exclude)) = Some (rd_node d, rd_score d)"
    and "rd_digests d = hash_seq_chunks blake3 (rk_salt key) (rk_token_ids key)"
  using assms by (auto simp: pick_excluding_def scoring_def Let_def split: if_splits option.splits)

lemma pick_excluding_Inl:
  "(\<exists>e. pick_excluding blake3 order now st key role exclude = Inl e) \<longleftrightarrow>
     candidates_for order st (rk_model key) role exclude = []"
  using best_of_None
  by (auto simp: pick_excluding_def Let_def split: if_splits option.splits)

text \<open>C20: \<open>pick_excluding\<close> returns an eligible node (live, right role and model, not excluded,
  able to run the model), one under its power cap when there is any, and none of the nodes it
  compared scores higher; it fails exactly when no node is eligible.\<close>

theorem pick_chooses_best:
  assumes "enumerates (order (cl_nodes (st_cluster st))) (cl_nodes (st_cluster st))"
    and "elig = eligible st (rk_model key) role exclude"
  shows "case pick_excluding H order now st key role exclude of
      Inl e \<Rightarrow> \<not> (\<exists>n. elig n)
    | Inr d \<Rightarrow> elig (rd_node d) \<and> ((\<exists>n. elig n \<and> under_cap n) \<longrightarrow> under_cap (rd_node d)) \<and>
        (let sc = scoring H order now st key role exclude in
         rd_score d = sc (rd_node d) \<and>
         (\<forall>n. elig n \<and> (under_cap n \<or> \<not> under_cap (rd_node d)) \<longrightarrow> sc_total (sc n) \<le> sc_total (rd_score d)))"
proof (cases "pick_excluding H order now st key role exclude")
  case (Inl e)
  then have "candidates_for order st (rk_model key) role exclude = []"
    using pick_excluding_Inl by blast
  then have "set (candidates_for order st (rk_model key) role exclude) = {}" by simp
  with Inl set_candidates_for [of order st, OF assms(1)] show ?thesis by (auto simp: assms(2))
next
  case (Inr d)
  note best = best_of_max [OF pick_excluding_Inr(1) [OF Inr]]
  have "n \<in> set (prefer_under_cap (candidates_for order st (rk_model key) role exclude)) \<longleftrightarrow>
      elig n \<and> ((\<exists>m. elig m \<and> under_cap m) \<longrightarrow> under_cap n)" for n
    by (auto simp: set_prefer_under_cap set_candidates_for [of order st, OF assms(1)] assms(2))
  with best Inr show ?thesis by (auto simp: Let_def)
qed

definition demo_policy :: RoutingPolicy where
  "demo_policy = \<lparr> rp_kv = 1 / 2, rp_load = 1 / 4, rp_power = 0, rp_capacity = 0, rp_session = 0 \<rparr>"

definition demo_node :: "node_id \<Rightarrow> nat \<Rightarrow> NodeEntry" where
  "demo_node nid queue =
     \<lparr> ne_node_id = nid, ne_address = [], ne_role = 3, ne_gpu_index = None, ne_model = Some ''m'',
       ne_queue_depth = queue, ne_free_blocks = 0, ne_total_blocks = 0, ne_power_watts = 0,
       ne_watt_limit = 0, ne_gpu_name = [], ne_gpu_vendor = [], ne_vram_total_mb = 0,
       ne_cordoned = False, ne_kv_epoch = 0, ne_ready = True, ne_draining = False,
       ne_adapters = [], ne_last_heartbeat = 0 \<rparr>"

definition demo_state :: SharedState where
  "demo_state =
     \<lparr> st_cluster = \<lparr> cl_nodes = [''a'' \<mapsto> demo_node ''a'' 9, ''b'' \<mapsto> demo_node ''b'' 2],
         cl_prefix = prefix_new 60, cl_tracker = Map.empty, cl_policy = demo_policy \<rparr>,
       st_inflight = Map.empty, st_isolation = True, st_models = Map.empty,
       st_discovery = True, st_draining = False \<rparr>"

definition demo_key :: RouteKey where
  "demo_key = \<lparr> rk_model = ''m'', rk_salt = ''m'', rk_session = None, rk_token_ids = [] \<rparr>"

lemma demo_enumerates:
  "enumerates [''a'', ''b''] (cl_nodes (st_cluster demo_state))"
  by (auto simp: enumerates_def demo_state_def)

lemma demo_ran: "ran (cl_nodes (st_cluster demo_state)) = {demo_node ''a'' 9, demo_node ''b'' 2}"
proof -
  have "cl_nodes (st_cluster demo_state) = [''a'' \<mapsto> demo_node ''a'' 9, ''b'' \<mapsto> demo_node ''b'' 2]"
    by (simp add: demo_state_def)
  then show ?thesis by (simp add: ran_map_upd insert_commute)
qed

lemma demo_routable:
  "routable RoleDecode (Some ''m'') (demo_node ''a'' 9)" "routable RoleDecode (Some ''m'') (demo_node ''b'' 2)"
  by code_simp+

lemma demo_eligible: "eligible demo_state ''m'' RoleDecode [] (demo_node ''b'' 2)"
  unfolding eligible_def demo_ran using demo_routable by (simp add: capable_def demo_state_def)

theorem pick_chooses_best_witness:
  "\<exists>d. pick_excluding toy_hash (\<lambda>_. [''a'', ''b'']) 0 demo_state demo_key RoleDecode [] = Inr d \<and>
     eligible demo_state ''m'' RoleDecode [] (rd_node d)"
proof -
  have m: "rk_model demo_key = ''m''" by (simp add: demo_key_def)
  show ?thesis
    using pick_chooses_best [where order = "\<lambda>_. [''a'', ''b'']" and st = demo_state and key = demo_key
        and role = RoleDecode and exclude = "[]" and H = toy_hash and now = 0, OF demo_enumerates refl]
      demo_eligible
    unfolding m
    by (cases "pick_excluding toy_hash (\<lambda>_. [''a'', ''b'']) 0 demo_state demo_key RoleDecode []")
       (auto simp: Let_def)
qed

text \<open>A prefill/decode pair consists of two different nodes unless the prefill node is the only
  node left for decoding; the decode node is live, serves the model in the decode role and is not
  excluded, and no compared node scores higher.\<close>

lemma pick_pair_distinct:
  assumes "r = cl_nodes (st_cluster st)" and "enumerates (order r) r"
    and "pick_pair blake3 order now st key prole drole exclude = Inr (p, d)"
    and "dec = {n \<in> ran r. routable drole (Some (rk_model key)) n \<and> ne_node_id n \<notin> set exclude}"
  shows "pick_excluding blake3 order now st key prole exclude = Inr p \<and> rd_digests d = rd_digests p \<and>
    (if \<exists>n \<in> dec. ne_node_id n \<noteq> ne_node_id (rd_node p)
     then rd_node d \<in> dec \<and> ne_node_id (rd_node d) \<noteq> ne_node_id (rd_node p)
     else d = p)"
proof -
  from assms(3) obtain prefill where p: "pick_excluding blake3 order now st key prole exclude = Inr prefill"
    by (auto simp: pick_pair_def split: sum.splits)
  let ?others = "filter (\<lambda>n. ne_node_id n \<noteq> ne_node_id (rd_node prefill) \<and> ne_node_id n \<notin> set exclude)
                   (nodes_for (order r) drole (Some (rk_model key)) r)"
  have set_others: "set ?others = {n \<in> dec. ne_node_id n \<noteq> ne_node_id (rd_node prefill)}"
    by (auto simp: set_nodes_for [OF assms(2)] assms(4))
  show ?thesis
  proof (cases "?others = []")
    case True
    then have "set ?others = {}" by simp
    then have "\<not> (\<exists>n \<in> dec. ne_node_id n \<noteq> ne_node_id (rd_node prefill))" using set_others by auto
    moreover have "p = prefill" "d = prefill"
      using assms(3) True by (auto simp: pick_pair_def p Let_def simp flip: assms(1))
    ultimately show ?thesis using p by simp
  next
    case False
    then obtain n s where best: "best_of (\<lambda>n. score_node (cl_policy (st_cluster st)) n (effective_queue st n) 0
        (peer_max (prefer_under_cap ?others))) None (prefer_under_cap ?others) = Some (n, s)"
      and d: "p = prefill" "rd_node d = n" "rd_digests d = rd_digests prefill"
      using assms(3) by (auto simp: pick_pair_def p Let_def simp flip: assms(1) split: option.splits)
    from best_of_max [OF best] have "n \<in> set ?others" by (simp add: set_prefer_under_cap)
    with d p set_others show ?thesis by auto
  qed
qed

lemma pick_pair_Inl:
  "(\<exists>e. pick_pair H order now st key prole drole exclude = Inl e) \<longleftrightarrow>
     (\<exists>e. pick_excluding H order now st key prole exclude = Inl e)"
  using best_of_None by (auto simp: pick_pair_def Let_def split: sum.splits option.splits)

lemma pick_pair_distinct_witness:
  "\<exists>p d. pick_pair toy_hash (\<lambda>_. [''a'', ''b'']) 0 demo_state demo_key RoleDecode RoleDecode [] = Inr (p, d) \<and>
     ne_node_id (rd_node d) \<noteq> ne_node_id (rd_node p)"
proof -
  let ?r = "cl_nodes (st_cluster demo_state)" and ?order = "\<lambda>_. [''a'', ''b'']"
  let ?pp = "pick_pair toy_hash ?order 0 demo_state demo_key RoleDecode RoleDecode []"
  have m: "rk_model demo_key = ''m''" by (simp add: demo_key_def)
  have "demo_node ''b'' 2 \<in> set (candidates_for ?order demo_state (rk_model demo_key) RoleDecode [])"
    using demo_eligible by (simp add: set_candidates_for [of ?order, OF demo_enumerates] m)
  then have "\<not> (\<exists>e. ?pp = Inl e)" unfolding pick_pair_Inl pick_excluding_Inl by auto
  then obtain p d where pd: "?pp = Inr (p, d)" by (cases ?pp) auto
  have ids: "ne_node_id (demo_node ''a'' 9) = ''a''" "ne_node_id (demo_node ''b'' 2) = ''b''"
    by (simp_all add: demo_node_def)
  have "\<exists>n \<in> {n \<in> ran ?r. routable RoleDecode (Some (rk_model demo_key)) n \<and> ne_node_id n \<notin> set []}.
      ne_node_id n \<noteq> ne_node_id (rd_node p)"
    using demo_routable ids by (cases "ne_node_id (rd_node p) = ''a''") (auto simp: demo_ran m)
  with pick_pair_distinct [where order = ?order, OF refl demo_enumerates pd refl] pd show ?thesis by auto
qed

section \<open>Scores under rounding\<close>

lemma f32_round_nonpos: "x \<le> 0 \<Longrightarrow> f32_round x \<le> 0"
proof -
  assume "x \<le> 0"
  then have "x / 2 powi quantum x \<le> of_int 0" by (simp add: divide_le_0_iff)
  from round_half_even_le [OF this] show "f32_round x \<le> 0"
    by (simp add: f32_round_def mult_le_0_iff)
qed

lemma f32_one [simp]: "f32_round 1 = 1"
  using f32_round_small [of 1] by simp

lemma clamp01_range [simp]: "0 \<le> clamp01 x" "clamp01 x \<le> 1"
  by (simp_all add: clamp01_def)

lemma clamp01_mono: "x \<le> y \<Longrightarrow> clamp01 x \<le> clamp01 y"
  by (simp add: clamp01_def)

lemma clamp01_round_mono: "x \<le> y \<Longrightarrow> clamp01 (f32_round x) \<le> clamp01 (f32_round y)"
proof (cases "0 \<le> x")
  case True
  then show "x \<le> y \<Longrightarrow> ?thesis" by (intro clamp01_mono f32_round_mono)
next
  case False
  then have "f32_round x \<le> 0" by (intro f32_round_nonpos) simp
  then have "clamp01 (f32_round x) = 0" by (auto simp: clamp01_def)
  then show ?thesis by simp
qed

lemma f32_ops_mono:
  "0 \<le> a \<Longrightarrow> a \<le> a' \<Longrightarrow> 0 \<le> b \<Longrightarrow> b \<le> b' \<Longrightarrow> fadd a b \<le> fadd a' b'"
  "0 \<le> a \<Longrightarrow> 0 \<le> b \<Longrightarrow> b \<le> b' \<Longrightarrow> fmul a b \<le> fmul a b'"
  "0 \<le> a \<Longrightarrow> 0 \<le> b \<Longrightarrow> 0 \<le> fadd a b" "0 \<le> a \<Longrightarrow> 0 \<le> b \<Longrightarrow> 0 \<le> fmul a b"
  by (auto simp: fadd_def fmul_def intro!: f32_round_mono f32_round_nonneg mult_left_mono add_mono)

definition nonneg_policy :: "RoutingPolicy \<Rightarrow> bool" where
  "nonneg_policy p \<longleftrightarrow> 0 \<le> rp_kv p \<and> 0 \<le> rp_load p \<and> 0 \<le> rp_power p \<and> 0 \<le> rp_capacity p"

definition weighted :: "RoutingPolicy \<Rightarrow> f32 \<Rightarrow> f32 \<Rightarrow> f32 \<Rightarrow> f32 \<Rightarrow> f32" where
  "weighted p a b c d =
     fadd (fadd (fadd (fmul (rp_kv p) a) (fmul (rp_load p) b)) (fmul (rp_power p) c)) (fmul (rp_capacity p) d)"

lemma weighted_nonneg:
  "nonneg_policy p \<Longrightarrow> 0 \<le> a \<Longrightarrow> 0 \<le> b \<Longrightarrow> 0 \<le> c \<Longrightarrow> 0 \<le> d \<Longrightarrow> 0 \<le> weighted p a b c d"
  unfolding weighted_def nonneg_policy_def by (simp add: f32_ops_mono(3,4))

lemma weighted_mono:
  assumes "nonneg_policy p" "0 \<le> a" "0 \<le> b" "0 \<le> c" "0 \<le> d" "a \<le> a'" "b \<le> b'" "c \<le> c'" "d \<le> d'"
  shows "weighted p a b c d \<le> weighted p a' b' c' d'"
  unfolding weighted_def
  by (intro f32_ops_mono(1,2,3,4)) (use assms in \<open>simp_all add: nonneg_policy_def\<close>)

lemma total_weighted:
  "sc_total (score_node p n q o1 w) =
     weighted p o1 (sc_load (score_node p n q o1 w)) (sc_power (score_node p n q o1 w)) (sc_capacity (score_node p n q o1 w))"
  by (simp add: score_node_def Let_def weighted_def)

lemma load_antimono:
  assumes "q' \<le> q"
  shows "clamp01 (fsub 1 (fdiv (nat_as_f32 q) 64)) \<le> clamp01 (fsub 1 (fdiv (nat_as_f32 q') 64))"
proof -
  have "fdiv (nat_as_f32 q') 64 \<le> fdiv (nat_as_f32 q) 64"
    unfolding fdiv_def using assms by (intro f32_round_mono divide_right_mono nat_as_f32_mono) simp_all
  then show ?thesis unfolding fsub_def by (intro clamp01_round_mono) simp
qed

lemma score_node_range:
  assumes "0 \<le> o1" "o1 \<le> 1"
  shows "sc_kv (score_node p n q o1 w) \<in> {0..1}" "sc_load (score_node p n q o1 w) \<in> {0..1}"
    "sc_power (score_node p n q o1 w) \<in> {0..1}" "sc_capacity (score_node p n q o1 w) \<in> {0..1}"
  using assms by (auto simp: score_node_def Let_def)

text \<open>With non-negative weights the score is monotone in what it should reward, also after
  rounding: a node with at least the cache overlap and at most the queue of another, all else
  equal, never scores lower; every signal stays in [0, 1], and the total is between 0 and the
  rounded sum of the rounded weights.\<close>

lemma score_monotone_bounded:
  assumes "nonneg_policy p" and "0 \<le> o1" and "o1 \<le> o2" and "o2 \<le> 1" and "q2 \<le> q1"
  shows "sc_total (score_node p n q1 o1 w) \<le> sc_total (score_node p n q2 o2 w) \<and>
    0 \<le> sc_total (score_node p n q1 o1 w) \<and>
    sc_total (score_node p n q2 o2 w) \<le>
      fadd (fadd (fadd (fmul (rp_kv p) 1) (fmul (rp_load p) 1)) (fmul (rp_power p) 1)) (fmul (rp_capacity p) 1)"
proof -
  let ?s1 = "score_node p n q1 o1 w" and ?s2 = "score_node p n q2 o2 w"
  have same: "sc_power ?s1 = sc_power ?s2" "sc_capacity ?s1 = sc_capacity ?s2"
    by (simp_all add: score_node_def Let_def)
  have load: "sc_load ?s1 \<le> sc_load ?s2"
    using load_antimono [OF assms(5)] by (simp add: score_node_def Let_def)
  have o: "o1 \<le> 1" "0 \<le> o2" using assms(2-4) by simp_all
  note r1 = score_node_range [OF assms(2) o(1), of p n q1 w, unfolded atLeastAtMost_iff]
  note r2 = score_node_range [OF o(2) assms(4), of p n q2 w, unfolded atLeastAtMost_iff]
  have "sc_total ?s1 \<le> sc_total ?s2"
    unfolding total_weighted same
    by (rule weighted_mono) (use assms(1-3) load r1 r2 same in simp_all)
  moreover have "0 \<le> sc_total ?s1"
    unfolding total_weighted by (rule weighted_nonneg) (use assms(1,2) r1 in simp_all)
  moreover have "sc_total ?s2 \<le> weighted p 1 1 1 1"
    unfolding total_weighted by (rule weighted_mono) (use assms(1,4) o r2 in simp_all)
  ultimately show ?thesis unfolding weighted_def by blast
qed

lemma score_monotone_bounded_witness:
  "sc_total (score_node demo_policy (demo_node ''a'' 0) 9 0 0)
     \<le> sc_total (score_node demo_policy (demo_node ''a'' 0) 2 (1 / 2) 0)"
  using score_monotone_bounded [of demo_policy 0 "1 / 2" 2 9 "demo_node ''a'' 0" 0]
  by (simp add: nonneg_policy_def demo_policy_def)

section \<open>Session affinity\<close>

lemma session_msg_inject [simp]:
  "session_msg s n = session_msg s m \<longleftrightarrow> ne_node_id n = ne_node_id m"
  by (simp add: session_msg_def)

text \<open>C23: Rendezvous hashing moves only the sessions it has to. Adding a node anywhere in the list
  either gives it the session or leaves the owner unchanged, so removing a node changes only
  the sessions it owned; and when the hash does not collide on the messages in question, the
  owner does not depend on the order in which the registry lists the nodes.\<close>

theorem rendezvous_stable:
  assumes "inj_on ne_node_id (set ns)" and "inj_on H (session_msg s ` set ns)" and "set ms = set ns"
  shows "rendezvous H s (xs @ n # ys) \<in> {Some n, rendezvous H s (xs @ ys)} \<and>
    rendezvous H s ms = rendezvous H s ns"
proof
  show "rendezvous H s (xs @ n # ys) \<in> {Some n, rendezvous H s (xs @ ys)}"
    unfolding rendezvous_def by (rule max_by_key_insert)
  have "inj_on (\<lambda>n. H (session_msg s n)) (set ns)"
  proof (rule inj_onI)
    fix x y
    assume xy: "x \<in> set ns" "y \<in> set ns" and eq: "H (session_msg s x) = H (session_msg s y)"
    have "session_msg s x = session_msg s y" by (rule inj_onD [OF assms(2) eq]) (use xy in simp_all)
    then show "x = y" using inj_onD [OF assms(1) _ xy] by simp
  qed
  from max_by_key_perm [OF this assms(3) [symmetric]] show "rendezvous H s ms = rendezvous H s ns"
    by (simp add: rendezvous_def)
qed

theorem rendezvous_stable_witness:
  "rendezvous toy_hash ''s'' [demo_node ''a'' 9, demo_node ''b'' 2] =
   rendezvous toy_hash ''s'' [demo_node ''b'' 2, demo_node ''a'' 9]"
proof -
  let ?ns = "[demo_node ''b'' 2, demo_node ''a'' 9]" and ?ms = "[demo_node ''a'' 9, demo_node ''b'' 2]"
  have "inj_on toy_hash (session_msg ''s'' ` set ?ns)"
    by (simp add: toy_hash_def session_msg_def demo_node_def str_bytes_def)
  moreover have "inj_on ne_node_id (set ?ns)" by (simp add: demo_node_def)
  moreover have "set ?ms = set ?ns" by auto
  ultimately show ?thesis using rendezvous_stable [of ?ns toy_hash "''s''" ?ms] by blast
qed

end
