(* ===== verification/Cgn_Prompt.thy ===== *)
theory Cgn_Prompt
  imports Cgn_Hash Cgn_Str
begin

text \<open>
  Prompt flattening and the synthetic tokenizer (\<open>routing/prompt.rs\<close>). Text is a list of
  Unicode scalar values; \<open>utf8\<close> gives its bytes. Decoding of the JSON content parts is the
  parameter \<open>json_parts\<close>.
\<close>

type_synonym text32 = "nat list"

text \<open>UTF-8 encoding of one scalar value.\<close>

definition utf8_char :: "nat \<Rightarrow> bytes" where
  "utf8_char c = map of_nat
     (if c < 0x80 then [c]
      else if c < 0x800 then [0xC0 + c div 64, 0x80 + c mod 64]
      else if c < 0x10000 then [0xE0 + c div 4096, 0x80 + c div 64 mod 64, 0x80 + c mod 64]
      else [0xF0 + c div 262144, 0x80 + c div 4096 mod 64, 0x80 + c div 64 mod 64, 0x80 + c mod 64])"

definition utf8 :: "text32 \<Rightarrow> bytes" where
  "utf8 s = concat (map utf8_char s)"

definition ascii :: "string \<Rightarrow> text32" where
  "ascii s = map of_char s"

section \<open>Flattening\<close>

datatype part = TextPart text32 | ImagePart text32 | OtherPart

record PMessage =
  pm_role :: text32
  pm_content :: text32
  pm_content_json :: text32

text \<open>One element of the content array: its \<open>text\<close>, or the digest of its image reference.\<close>

fun join_part :: "(bytes \<Rightarrow> bytes) \<Rightarrow> part \<Rightarrow> text32" where
  "join_part blake3 (TextPart t) = t @ ascii [CHR 0x0A]"
| "join_part blake3 (ImagePart url) =
     ascii ''<image:'' @ ascii (hex_string (blake3 (utf8 url))) @ ascii [CHR ''>'', CHR 0x0A]"
| "join_part blake3 OtherPart = []"

definition join_message :: "(bytes \<Rightarrow> bytes) \<Rightarrow> (text32 \<Rightarrow> part list option) \<Rightarrow> PMessage \<Rightarrow> text32" where
  "join_message blake3 json_parts m =
     ascii ''<'' @ pm_role m @ ascii [CHR ''>'', CHR 0x0A] @
     (if pm_content_json m \<noteq> []
      then (case json_parts (pm_content_json m) of
              None \<Rightarrow> [] | Some parts \<Rightarrow> concat (map (join_part blake3) parts))
      else pm_content m) @ ascii [CHR 0x0A]"

definition join_messages :: "(bytes \<Rightarrow> bytes) \<Rightarrow> (text32 \<Rightarrow> part list option) \<Rightarrow> PMessage list \<Rightarrow> text32" where
  "join_messages blake3 json_parts msgs = concat (map (join_message blake3 json_parts) msgs)"

definition request_text :: "(bytes \<Rightarrow> bytes) \<Rightarrow> (text32 \<Rightarrow> part list option) \<Rightarrow> text32 \<Rightarrow> PMessage list \<Rightarrow> text32" where
  "request_text blake3 json_parts prompt msgs =
     (if prompt = [] then join_messages blake3 json_parts msgs else prompt)"

section \<open>Synthetic tokens\<close>

definition CHARS_PER_TOKEN :: nat where "CHARS_PER_TOKEN = 4"

definition is_cjk :: "nat \<Rightarrow> bool" where
  "is_cjk c \<longleftrightarrow> (0x3040 \<le> c \<and> c \<le> 0x30FF) \<or> (0x3400 \<le> c \<and> c \<le> 0x4DBF) \<or> (0x4E00 \<le> c \<and> c \<le> 0x9FFF)
     \<or> (0xAC00 \<le> c \<and> c \<le> 0xD7AF) \<or> (0xF900 \<le> c \<and> c \<le> 0xFAFF) \<or> (0x20000 \<le> c \<and> c \<le> 0x2FFFF)"

text \<open>\<open>char::is_whitespace\<close>: the Unicode property White_Space.\<close>

definition is_whitespace :: "nat \<Rightarrow> bool" where
  "is_whitespace c \<longleftrightarrow> (9 \<le> c \<and> c \<le> 13) \<or> c = 0x20 \<or> c = 0x85 \<or> c = 0xA0 \<or> c = 0x1680
     \<or> (0x2000 \<le> c \<and> c \<le> 0x200A) \<or> c = 0x2028 \<or> c = 0x2029 \<or> c = 0x202F \<or> c = 0x205F \<or> c = 0x3000"

definition emit :: "(bytes \<Rightarrow> bytes) \<Rightarrow> text32 \<Rightarrow> u32" where
  "emit blake3 piece = (let b = blake3 (utf8 piece) in u32_of_le (b ! 0) (b ! 1) (b ! 2) (b ! 3))"

text \<open>One round of the loop on the current piece, its character count and the tokens so far.\<close>

definition tok_step :: "(bytes \<Rightarrow> bytes) \<Rightarrow> nat \<Rightarrow> text32 \<times> nat \<times> u32 list \<Rightarrow> text32 \<times> nat \<times> u32 list" where
  "tok_step blake3 c = (\<lambda>(piece, chars, out).
     let cjk = is_cjk c;
         (piece1, chars1, out1) =
           (if (is_whitespace c \<or> cjk \<or> chars = CHARS_PER_TOKEN) \<and> piece \<noteq> []
            then ([], 0, out @ [emit blake3 piece]) else (piece, chars, out))
     in if is_whitespace c then (piece1, chars1, out1)
        else let piece2 = piece1 @ [c]
             in if cjk then ([], 0, out1 @ [emit blake3 piece2]) else (piece2, chars1 + 1, out1))"

definition approximate_token_ids :: "(bytes \<Rightarrow> bytes) \<Rightarrow> text32 \<Rightarrow> u32 list" where
  "approximate_token_ids blake3 s =
     (let (piece, _, out) = fold (tok_step blake3) s ([], 0, [])
      in if piece = [] then out else out @ [emit blake3 piece])"

section \<open>Stability\<close>

lemma tok_step_out: "\<exists>ts. snd (snd (tok_step H c (p, n, out))) = out @ ts \<and> length ts \<le> 2"
  by (auto simp: tok_step_def Let_def)

lemma tok_step_shift:
  "tok_step H c (p, n, pre @ out) = (case tok_step H c (p, n, out) of (p', n', out') \<Rightarrow> (p', n', pre @ out'))"
  by (simp add: tok_step_def Let_def)

lemma fold_tok_shift:
  "fold (tok_step H) s (p, n, pre @ out) = (case fold (tok_step H) s (p, n, out) of (p', n', out') \<Rightarrow> (p', n', pre @ out'))"
proof (induction s arbitrary: p n out)
  case (Cons c s)
  obtain p' n' out' where "tok_step H c (p, n, out) = (p', n', out')" by (cases "tok_step H c (p, n, out)")
  with Cons show ?case by (simp add: tok_step_shift)
qed simp

lemma fold_tok_out: "\<exists>ts. snd (snd (fold (tok_step H) s (p, n, out))) = out @ ts"
  using fold_tok_shift [of H s p n out "[]"] by (auto split: prod.splits)

lemma tok_step_chars:
  "tok_step H c (p, length p, out) = (p', n', out') \<Longrightarrow> n' = length p'"
  by (auto simp: tok_step_def Let_def split: if_splits)

lemma tok_step_size:
  assumes "tok_step H c (p, length p, out) = (p', n', out')" "length p \<le> CHARS_PER_TOKEN"
  shows "length p' \<le> CHARS_PER_TOKEN"
proof (cases "length p = CHARS_PER_TOKEN")
  case True
  then have "p \<noteq> []" by (auto simp: CHARS_PER_TOKEN_def)
  with assms True show ?thesis
    by (auto simp: tok_step_def Let_def CHARS_PER_TOKEN_def split: if_splits)
next
  case False
  with assms show ?thesis by (auto simp: tok_step_def Let_def split: if_splits)
qed

lemma fold_tok_inv:
  "fold (tok_step H) s (p, length p, out) = (p', n', out') \<Longrightarrow> length p \<le> CHARS_PER_TOKEN \<Longrightarrow>
     n' = length p' \<and> length p' \<le> CHARS_PER_TOKEN"
proof (induction s arbitrary: p out)
  case (Cons c s)
  obtain p1 n1 out1 where st: "tok_step H c (p, length p, out) = (p1, n1, out1)"
    by (cases "tok_step H c (p, length p, out)")
  from tok_step_chars [OF st] tok_step_size [OF st Cons.prems(2)] Cons.prems(1) st Cons.IH [of p1 out1]
  show ?case by simp
qed simp

text \<open>The synthetic tokens of a text do not depend on what follows it, except for the last one:
  all tokens but the last of a text are the first tokens of every extension of the text, and after a
  whitespace the tokens of the two parts are simply concatenated. So the prefix digests of a
  conversation stay valid while it grows.\<close>

lemma approximate_tokens_prefix_stable:
  "take (length (approximate_token_ids H s) - 1) (approximate_token_ids H (s @ t)) = butlast (approximate_token_ids H s) \<and>
   (is_whitespace w \<longrightarrow> approximate_token_ids H (s @ w # t) = approximate_token_ids H s @ approximate_token_ids H t)"
proof
  obtain p n out where s: "fold (tok_step H) s ([], 0, []) = (p, n, out)"
    by (cases "fold (tok_step H) s ([], 0, [])")
  have ids: "approximate_token_ids H s = (if p = [] then out else out @ [emit H p])"
    by (simp add: approximate_token_ids_def s)
  have "\<exists>ts. approximate_token_ids H (s @ t) = out @ ts"
    using fold_tok_out [of H t p n out] by (auto simp: approximate_token_ids_def s split: prod.splits)
  then obtain ts where ts: "approximate_token_ids H (s @ t) = out @ ts" ..
  show "take (length (approximate_token_ids H s) - 1) (approximate_token_ids H (s @ t)) = butlast (approximate_token_ids H s)"
    unfolding ts ids by (simp add: butlast_conv_take)
  show "is_whitespace w \<longrightarrow> approximate_token_ids H (s @ w # t) = approximate_token_ids H s @ approximate_token_ids H t"
  proof
    assume w: "is_whitespace w"
    have n: "p = [] \<Longrightarrow> n = 0" using fold_tok_inv [of H s "[]" "[]" p n out] s by simp
    have "tok_step H w (p, n, out) = ([], 0, approximate_token_ids H s)"
      using w n by (simp add: tok_step_def ids)
    then show "approximate_token_ids H (s @ w # t) = approximate_token_ids H s @ approximate_token_ids H t"
      using fold_tok_shift [of H t "[]" 0 "approximate_token_ids H s" "[]"]
      by (simp add: s approximate_token_ids_def split: prod.splits)
  qed
qed

lemma approximate_tokens_prefix_stable_witness:
  "approximate_token_ids toy_hash (ascii ''ab cd'') =
     approximate_token_ids toy_hash (ascii ''ab'') @ approximate_token_ids toy_hash (ascii ''cd'')"
  using approximate_tokens_prefix_stable [of toy_hash "ascii ''ab''" "ascii ''cd''" 32]
  by (simp add: is_whitespace_def ascii_def)

text \<open>A message list that grows at the end grows the flattened text at the end.\<close>

lemma join_messages_append:
  "join_messages H jp (xs @ ys) = join_messages H jp xs @ join_messages H jp ys"
  by (simp add: join_messages_def)

end
