(* ===== verification/Cgn_Tiers.thy ===== *)
theory Cgn_Tiers
  imports Cgn_Str Cgn_F32 Cgn_Error
begin

text \<open>
  The tiered block store of \<open>cgn-kvcached\<close>: block addresses (\<open>cgn-kv/src/block.rs\<close>), the RAM
  tier (\<open>tier.rs\<close>), the SSD tier (\<open>ssd.rs\<close>) and their orchestration (\<open>tiers.rs\<close>, with
  the block index). The SSD directory is a map from file names to contents and the index a map
  from addresses to metadata; which file and index operations fail, and with what message, is the
  argument \<open>io\<close>. The index is that of either build: with the feature \<open>persistent-index\<close>
  (RocksDB) any operation on it may fail, without it (an in-memory map) none does. Wall-clock seconds
  are the argument \<open>now\<close>; the listing order of a concurrent map is an argument.
\<close>

section \<open>Blocks and tiers\<close>

record BlockAddress =
  ba_digest :: bytes
  ba_layer :: nat

datatype TierKind = Gpu | Ram | Ssd

record BlockMeta =
  bm_model :: string
  bm_layer :: nat
  bm_bytes :: nat
  bm_created_unix :: nat
  bm_last_seen_unix :: nat
  bm_tier :: TierKind

record BlockHandle =
  bh_meta :: BlockMeta
  bh_addr :: BlockAddress

text \<open>\<open>Some e\<close> is a failure with message \<open>e\<close>. For reads and removals of a file the error kind
  \<open>NotFound\<close> is not a failure here: it is the case of a file that does not exist.\<close>

record kv_io =
  io_read :: "string \<Rightarrow> string option"
  io_write :: "string \<Rightarrow> string option"
  io_remove :: "string \<Rightarrow> string option"
  io_index_get :: "BlockAddress \<Rightarrow> string option"
  io_index_put :: "BlockAddress \<Rightarrow> string option"
  io_index_delete :: "BlockAddress \<Rightarrow> string option"

record RamSlot =
  rs_bytes :: bytes
  rs_last :: nat

record RamTier =
  rt_inner :: "BlockAddress \<rightharpoonup> RamSlot"
  rt_capacity :: nat
  rt_used :: nat

definition ram_new :: "nat \<Rightarrow> RamTier" where
  "ram_new capacity_bytes = \<lparr> rt_inner = Map.empty, rt_capacity = capacity_bytes, rt_used = 0 \<rparr>"

definition ram_touch :: "nat \<Rightarrow> BlockAddress \<Rightarrow> RamSlot \<Rightarrow> RamTier \<Rightarrow> RamTier" where
  "ram_touch now addr slot r = r\<lparr> rt_inner := (rt_inner r)(addr \<mapsto> slot\<lparr> rs_last := now \<rparr>) \<rparr>"

definition get_bytes :: "nat \<Rightarrow> BlockAddress \<Rightarrow> RamTier \<Rightarrow> bytes option \<times> RamTier" where
  "get_bytes now addr r =
     (case rt_inner r addr of
        None \<Rightarrow> (None, r)
      | Some slot \<Rightarrow> (Some (rs_bytes slot), ram_touch now addr slot r))"

definition ram_get :: "nat \<Rightarrow> BlockAddress \<Rightarrow> RamTier \<Rightarrow> BlockHandle option \<times> RamTier" where
  "ram_get now addr r =
     (case rt_inner r addr of
        None \<Rightarrow> (None, r)
      | Some slot \<Rightarrow>
          (Some \<lparr> bh_meta = \<lparr> bm_model = [], bm_layer = ba_layer addr, bm_bytes = length (rs_bytes slot),
              bm_created_unix = 0, bm_last_seen_unix = now, bm_tier = Ram \<rparr>, bh_addr = addr \<rparr>,
           ram_touch now addr slot r))"

definition ram_put :: "nat \<Rightarrow> BlockAddress \<Rightarrow> bytes \<Rightarrow> RamTier \<Rightarrow> bool \<times> RamTier" where
  "ram_put now addr bs r =
     (let prev = rt_inner r addr;
          r1 = r\<lparr> rt_inner := (rt_inner r)(addr \<mapsto> \<lparr> rs_bytes = bs, rs_last = now \<rparr>),
                  rt_used := rt_used r + length bs \<rparr>
      in case prev of
           None \<Rightarrow> (False, r1)
         | Some p \<Rightarrow> (True, r1\<lparr> rt_used := rt_used r1 - length (rs_bytes p) \<rparr>))"

definition ram_evict :: "BlockAddress \<Rightarrow> RamTier \<Rightarrow> RamTier" where
  "ram_evict addr r =
     (case rt_inner r addr of
        None \<Rightarrow> r
      | Some slot \<Rightarrow> r\<lparr> rt_inner := (rt_inner r)(addr := None), rt_used := rt_used r - length (rs_bytes slot) \<rparr>)"

text \<open>A stable sort by the touch time of the listed entries, cut to the first \<open>n\<close>.\<close>

definition coldest :: "BlockAddress list \<Rightarrow> nat \<Rightarrow> RamTier \<Rightarrow> BlockAddress list" where
  "coldest listing n r =
     take n (sort_key (\<lambda>a. case rt_inner r a of None \<Rightarrow> 0 | Some s \<Rightarrow> rs_last s) listing)"

record SsdTier =
  sd_files :: "string \<rightharpoonup> bytes"
  sd_capacity :: nat

definition path_for :: "BlockAddress \<Rightarrow> string" where
  "path_for addr = short (ba_digest addr) @ ''-'' @ show_nat (ba_layer addr) @ ''.kvb''"

definition ssd_read :: "kv_io \<Rightarrow> BlockAddress \<Rightarrow> SsdTier \<Rightarrow> (Error, bytes option) result" where
  "ssd_read io addr d =
     (case io_read io (path_for addr) of
        None \<Rightarrow> Inr (sd_files d (path_for addr))
      | Some e \<Rightarrow> Inl (Internal e))"

text \<open>A temporary file is written and renamed: when a step fails the file keeps its contents.\<close>

definition ssd_write :: "kv_io \<Rightarrow> BlockAddress \<Rightarrow> bytes \<Rightarrow> SsdTier \<Rightarrow> (Error, unit) result \<times> SsdTier" where
  "ssd_write io addr bs d =
     (case io_write io (path_for addr) of
        None \<Rightarrow> (Inr (), d\<lparr> sd_files := (sd_files d)(path_for addr \<mapsto> bs) \<rparr>)
      | Some e \<Rightarrow> (Inl (Internal e), d))"

definition ssd_evict :: "kv_io \<Rightarrow> BlockAddress \<Rightarrow> SsdTier \<Rightarrow> (Error, unit) result \<times> SsdTier" where
  "ssd_evict io addr d =
     (case io_remove io (path_for addr) of
        None \<Rightarrow> (Inr (), d\<lparr> sd_files := (sd_files d)(path_for addr := None) \<rparr>)
      | Some e \<Rightarrow> (Inl (Internal e), d))"

text \<open>\<open>names\<close> lists the entries of the directory; a directory that cannot be read lists none.\<close>

definition used_bytes :: "string list \<Rightarrow> SsdTier \<Rightarrow> nat" where
  "used_bytes names d = sum_list (map length (List.map_filter (sd_files d) names))"

section \<open>Store\<close>

record KvStats =
  ks_hits :: nat
  ks_misses :: nat
  ks_evictions :: nat
  ks_spills :: nat
  ks_bytes_pushed :: nat
  ks_bytes_pulled :: nat

record Store =
  so_ram :: RamTier
  so_ssd :: SsdTier
  so_index :: "BlockAddress \<rightharpoonup> BlockMeta"
  so_stats :: KvStats

definition GIB :: nat where "GIB = 1024 * 1024 * 1024"

text \<open>A fresh store on a directory that already holds \<open>files\<close>.\<close>

definition store_open :: "nat \<Rightarrow> nat \<Rightarrow> (string \<rightharpoonup> bytes) \<Rightarrow> Store" where
  "store_open ram_gib ssd_gib files =
     \<lparr> so_ram = ram_new (ram_gib * GIB), so_ssd = \<lparr> sd_files = files, sd_capacity = ssd_gib * GIB \<rparr>,
       so_index = Map.empty, so_stats = \<lparr> ks_hits = 0, ks_misses = 0, ks_evictions = 0, ks_spills = 0,
         ks_bytes_pushed = 0, ks_bytes_pulled = 0 \<rparr> \<rparr>"

definition hit :: "Store \<Rightarrow> Store" where
  "hit s = s\<lparr> so_stats := (so_stats s)\<lparr> ks_hits := ks_hits (so_stats s) + 1 \<rparr> \<rparr>"

definition miss :: "Store \<Rightarrow> Store" where
  "miss s = s\<lparr> so_stats := (so_stats s)\<lparr> ks_misses := ks_misses (so_stats s) + 1 \<rparr> \<rparr>"

definition index_put ::
  "kv_io \<Rightarrow> nat \<Rightarrow> BlockAddress \<Rightarrow> string \<Rightarrow> nat \<Rightarrow> TierKind \<Rightarrow> Store \<Rightarrow> (Error, unit) result \<times> Store" where
  "index_put io now addr model len tier s =
     (case io_index_put io addr of
        None \<Rightarrow> (Inr (), s\<lparr> so_index := (so_index s)(addr \<mapsto> \<lparr> bm_model = model, bm_layer = ba_layer addr,
          bm_bytes = len, bm_created_unix = now, bm_last_seen_unix = now, bm_tier = tier \<rparr>) \<rparr>)
      | Some e \<Rightarrow> (Inl (Internal e), s))"

definition index_get :: "kv_io \<Rightarrow> BlockAddress \<Rightarrow> Store \<Rightarrow> (Error, BlockMeta option) result" where
  "index_get io addr s =
     (case io_index_get io addr of None \<Rightarrow> Inr (so_index s addr) | Some e \<Rightarrow> Inl (Internal e))"

definition index_delete :: "kv_io \<Rightarrow> BlockAddress \<Rightarrow> Store \<Rightarrow> (Error, unit) result \<times> Store" where
  "index_delete io addr s =
     (case io_index_delete io addr of
        None \<Rightarrow> (Inr (), s\<lparr> so_index := (so_index s)(addr := None) \<rparr>)
      | Some e \<Rightarrow> (Inl (Internal e), s))"

definition lookup :: "kv_io \<Rightarrow> nat \<Rightarrow> BlockAddress \<Rightarrow> Store \<Rightarrow> BlockHandle option \<times> Store" where
  "lookup io now addr s =
     (case ram_get now addr (so_ram s) of
        (Some h, r) \<Rightarrow> (Some h, hit (s\<lparr> so_ram := r \<rparr>))
      | (None, r) \<Rightarrow>
          (case index_get io addr s of
             Inr (Some meta) \<Rightarrow> (Some \<lparr> bh_meta = meta, bh_addr = addr \<rparr>, hit s)
           | _ \<Rightarrow> (None, miss s)))"

text \<open>A failed read of the SSD is a miss.\<close>

definition lookup_with_promote :: "kv_io \<Rightarrow> nat \<Rightarrow> BlockAddress \<Rightarrow> Store \<Rightarrow> bytes option \<times> Store" where
  "lookup_with_promote io now addr s =
     (case get_bytes now addr (so_ram s) of
        (Some b, r) \<Rightarrow> (Some b, hit (s\<lparr> so_ram := r \<rparr>))
      | (None, _) \<Rightarrow>
          (case ssd_read io addr (so_ssd s) of
             Inr (Some b) \<Rightarrow>
               let s1 = hit s; s2 = s1\<lparr> so_ram := snd (ram_put now addr b (so_ram s1)) \<rparr>
               in (Some b, snd (index_put io now addr [] (length b) Ram s2))
           | _ \<Rightarrow> (None, miss s)))"

definition put_ram :: "kv_io \<Rightarrow> nat \<Rightarrow> BlockAddress \<Rightarrow> bytes \<Rightarrow> string \<Rightarrow> Store \<Rightarrow> (Error, unit) result \<times> Store" where
  "put_ram io now addr bs model s =
     index_put io now addr model (length bs) Ram (s\<lparr> so_ram := snd (ram_put now addr bs (so_ram s)) \<rparr>)"

definition spill_to_ssd :: "kv_io \<Rightarrow> nat \<Rightarrow> BlockAddress \<Rightarrow> string \<Rightarrow> Store \<Rightarrow> (Error, unit) result \<times> Store" where
  "spill_to_ssd io now addr model s =
     (case get_bytes now addr (so_ram s) of
        (None, _) \<Rightarrow> (Inr (), s)
      | (Some bs, r) \<Rightarrow>
          let s1 = s\<lparr> so_ram := r \<rparr> in
          case ssd_write io addr bs (so_ssd s1) of
            (Inl e, d) \<Rightarrow> (Inl e, s1\<lparr> so_ssd := d \<rparr>)
          | (Inr _, d) \<Rightarrow>
              index_put io now addr model (length bs) Ssd
                (s1\<lparr> so_ssd := d, so_ram := ram_evict addr (so_ram s1) \<rparr>))"

definition forget :: "kv_io \<Rightarrow> BlockAddress \<Rightarrow> Store \<Rightarrow> (Error, unit) result \<times> Store" where
  "forget io addr s =
     (let s1 = s\<lparr> so_ram := ram_evict addr (so_ram s) \<rparr> in
      case ssd_evict io addr (so_ssd s1) of
        (Inl e, d) \<Rightarrow> (Inl e, s1\<lparr> so_ssd := d \<rparr>)
      | (Inr _, d) \<Rightarrow> index_delete io addr (s1\<lparr> so_ssd := d \<rparr>))"

text \<open>The batch of an eviction pass, and the loop over batches.\<close>

fun spill_batch :: "kv_io \<Rightarrow> nat \<Rightarrow> BlockAddress list \<Rightarrow> Store \<Rightarrow> Store" where
  "spill_batch io now [] s = s"
| "spill_batch io now (addr # victims) s =
     (let model = (case index_get io addr s of Inr (Some m) \<Rightarrow> bm_model m | _ \<Rightarrow> []) in
      case spill_to_ssd io now addr model s of
        (Inl _, s1) \<Rightarrow> spill_batch io now victims s1
      | (Inr _, s1) \<Rightarrow> spill_batch io now victims
                        (s1\<lparr> so_stats := (so_stats s1)\<lparr> ks_spills := ks_spills (so_stats s1) + 1 \<rparr> \<rparr>))"

function spill_loop ::
  "kv_io \<Rightarrow> (RamTier \<Rightarrow> BlockAddress list) \<Rightarrow> nat \<Rightarrow> nat \<Rightarrow> Store \<Rightarrow> Store" where
  "spill_loop io listing now target s =
     (if target < rt_used (so_ram s) then
        let victims = coldest (listing (so_ram s)) 32 (so_ram s) in
        if victims = [] then s
        else let s1 = spill_batch io now victims s in
          if rt_used (so_ram s) \<le> rt_used (so_ram s1) then s1
          else spill_loop io listing now target s1
      else s)"
  by pat_completeness auto
termination
  by (relation "measure (\<lambda>(_, _, _, _, s). rt_used (so_ram s))") auto

declare spill_loop.simps [simp del]

fun ttl_loop :: "kv_io \<Rightarrow> nat \<Rightarrow> nat \<Rightarrow> (BlockAddress \<times> BlockMeta) list \<Rightarrow> Store \<Rightarrow> Store" where
  "ttl_loop io now ttl [] s = s"
| "ttl_loop io now ttl ((addr, meta) # es) s =
     (if bm_tier meta = Ssd \<and> ttl < now - bm_last_seen_unix meta
      then case forget io addr s of
             (Inl _, s1) \<Rightarrow> ttl_loop io now ttl es s1
           | (Inr _, s1) \<Rightarrow> ttl_loop io now ttl es
               (s1\<lparr> so_stats := (so_stats s1)\<lparr> ks_evictions := ks_evictions (so_stats s1) + 1 \<rparr> \<rparr>)
      else ttl_loop io now ttl es s)"

text \<open>\<open>(cap as f64 * high_watermark as f64) as u64\<close>.\<close>

definition watermark_target :: "nat \<Rightarrow> f32 \<Rightarrow> nat" where
  "watermark_target cap high_watermark = as_u64 (f64_round (f64_round (of_nat cap) * high_watermark))"

definition scan :: "BlockAddress list \<Rightarrow> Store \<Rightarrow> (BlockAddress \<times> BlockMeta) list" where
  "scan listing s = List.map_filter (\<lambda>a. map_option (Pair a) (so_index s a)) listing"

definition evict_pass ::
  "kv_io \<Rightarrow> (RamTier \<Rightarrow> BlockAddress list) \<Rightarrow> (Store \<Rightarrow> BlockAddress list) \<Rightarrow>
   nat \<Rightarrow> f32 \<Rightarrow> nat \<Rightarrow> Store \<Rightarrow> Store" where
  "evict_pass io listing index_listing now high_watermark ssd_ttl_secs s =
     (let cap = rt_capacity (so_ram s);
          target = watermark_target cap high_watermark;
          s1 = (if 0 < cap \<and> target < rt_used (so_ram s) then spill_loop io listing now target s else s)
      in if ssd_ttl_secs = 0 then s1
         else ttl_loop io now ssd_ttl_secs (scan (index_listing s1) s1) s1)"

definition cold_block_count :: "BlockAddress list \<Rightarrow> Store \<Rightarrow> nat" where
  "cold_block_count listing s = length (filter (\<lambda>(_, m). bm_tier m = Ssd) (scan listing s))"

section \<open>Byte accounting\<close>

definition ram_wf :: "RamTier \<Rightarrow> bool" where
  "ram_wf r \<longleftrightarrow> finite (dom (rt_inner r)) \<and>
     rt_used r = (\<Sum>a \<in> dom (rt_inner r). length (rs_bytes (the (rt_inner r a))))"

lemma ram_wf_new: "ram_wf (ram_new cap)"
  by (simp add: ram_wf_def ram_new_def)

lemma sum_insert_slot:
  assumes "finite (dom m)"
  shows "(\<Sum>a \<in> dom (m(k \<mapsto> v)). f (the ((m(k \<mapsto> v)) a))) + (case m k of None \<Rightarrow> 0 | Some w \<Rightarrow> f w) =
    (\<Sum>a \<in> dom m. f (the (m a))) + (f v :: nat)"
proof -
  have *: "(\<Sum>a \<in> dom m - {k}. f (the ((m(k \<mapsto> v)) a))) = (\<Sum>a \<in> dom m - {k}. f (the (m a)))"
    by (rule sum.cong) auto
  have "(\<Sum>a \<in> dom m. f (the (m a))) = (\<Sum>a \<in> dom m - {k}. f (the (m a))) + (case m k of None \<Rightarrow> 0 | Some w \<Rightarrow> f w)"
    using assms by (cases "k \<in> dom m") (auto simp: sum.remove [of "dom m" k] split: option.splits)
  moreover have "(\<Sum>a \<in> dom (m(k \<mapsto> v)). f (the ((m(k \<mapsto> v)) a))) = (\<Sum>a \<in> dom m - {k}. f (the (m a))) + f v"
    using assms * by (simp add: sum.insert_remove)
  ultimately show ?thesis by simp
qed

lemma sum_remove_slot:
  assumes "finite (dom m)" "m k = Some w"
  shows "(\<Sum>a \<in> dom (m(k := None)). f (the ((m(k := None)) a))) + f w = (\<Sum>a \<in> dom m. (f (the (m a)) :: nat))"
proof -
  have "(\<Sum>a \<in> dom m - {k}. f (the ((m(k := None)) a))) = (\<Sum>a \<in> dom m - {k}. f (the (m a)))"
    by (rule sum.cong) auto
  moreover have "(\<Sum>a \<in> dom m. f (the (m a))) = f (the (m k)) + (\<Sum>a \<in> dom m - {k}. f (the (m a)))"
    using assms by (intro sum.remove) auto
  ultimately show ?thesis using assms(2) by simp
qed

lemma ram_wf_put: "ram_wf r \<Longrightarrow> ram_wf (snd (ram_put now a bs r))"
  using sum_insert_slot [of "rt_inner r" "\<lambda>s. length (rs_bytes s)" a "\<lparr> rs_bytes = bs, rs_last = now \<rparr>"]
  by (cases "rt_inner r a") (simp_all add: ram_wf_def ram_put_def Let_def)

lemma ram_wf_touch: "ram_wf r \<Longrightarrow> rt_inner r a = Some sl \<Longrightarrow> ram_wf (ram_touch now a sl r)"
  using sum_insert_slot [of "rt_inner r" "\<lambda>s. length (rs_bytes s)" a "sl\<lparr> rs_last := now \<rparr>"]
  by (simp add: ram_wf_def ram_touch_def)

lemma ram_wf_evict: "ram_wf r \<Longrightarrow> ram_wf (ram_evict a r)"
  using sum_remove_slot [of "rt_inner r" a _ "\<lambda>s. length (rs_bytes s)"]
  by (cases "rt_inner r a") (force simp: ram_wf_def ram_evict_def)+

end
