(* ===== verification/Cgn_Tiers_Props.thy ===== *)
theory Cgn_Tiers_Props
  imports Cgn_Tiers
begin

text \<open>
  What the tiered store promises its clients: through lookups, promotions, spills and eviction
  passes it is one map from block addresses to bytes, whatever file and index operations fail. The
  contract is the locale \<open>block_cache\<close>; the store implements it for every set of addresses
  whose SSD file names are distinct, and fails to for addresses that share a file name.
\<close>

section \<open>Contract\<close>

text \<open>Every operation takes the circumstances \<open>e\<close> of its call; \<open>reads\<close> says when a lookup can reach
  the bytes.\<close>

locale block_cache =
  fixes ok :: "'s \<Rightarrow> bool"
    and valid :: "'a \<Rightarrow> bool"
    and view :: "'s \<Rightarrow> 'a \<Rightarrow> 'b option"
    and reads :: "'e \<Rightarrow> 'a \<Rightarrow> 's \<Rightarrow> bool"
    and get :: "'e \<Rightarrow> 'a \<Rightarrow> 's \<Rightarrow> 'b option \<times> 's"
    and put :: "'e \<Rightarrow> 'a \<Rightarrow> 'b \<Rightarrow> 's \<Rightarrow> 's"
    and maint :: "'e \<Rightarrow> 's \<Rightarrow> 's"
  assumes get_ok: "ok s \<Longrightarrow> valid a \<Longrightarrow> ok (snd (get e a s))"
    and get_val: "ok s \<Longrightarrow> valid a \<Longrightarrow> fst (get e a s) = (if reads e a s then view s a else None)"
    and get_view: "ok s \<Longrightarrow> valid a \<Longrightarrow> valid b \<Longrightarrow> view (snd (get e a s)) b = view s b"
    and put_ok: "ok s \<Longrightarrow> valid a \<Longrightarrow> ok (put e a v s)"
    and put_view: "ok s \<Longrightarrow> valid a \<Longrightarrow> valid b \<Longrightarrow> view (put e a v s) b = (if b = a then Some v else view s b)"
    and maint_ok: "ok s \<Longrightarrow> ok (maint e s)"
    and maint_view: "ok s \<Longrightarrow> valid b \<Longrightarrow> view (maint e s) b = view s b"
begin

text \<open>Any interleaving of lookups, maintenance and writes of other blocks, each under its own
  circumstances.\<close>

inductive quiet :: "'a \<Rightarrow> 's \<Rightarrow> 's \<Rightarrow> bool" for a where
  quiet_refl: "quiet a s s"
| quiet_get: "quiet a s t \<Longrightarrow> valid b \<Longrightarrow> quiet a s (snd (get e b t))"
| quiet_maint: "quiet a s t \<Longrightarrow> quiet a s (maint e t)"
| quiet_put: "quiet a s t \<Longrightarrow> valid b \<Longrightarrow> b \<noteq> a \<Longrightarrow> quiet a s (put e b v t)"

lemma quiet_ok: "quiet a s t \<Longrightarrow> ok s \<Longrightarrow> ok t"
  by (induction rule: quiet.induct) (auto intro: get_ok maint_ok put_ok)

lemma quiet_view: "quiet a s t \<Longrightarrow> ok s \<Longrightarrow> valid a \<Longrightarrow> view t a = view s a"
  by (induction rule: quiet.induct) (auto simp: get_view maint_view put_view dest: quiet_ok)

lemma read_your_write:
  "quiet a (put e a v s) t \<Longrightarrow> ok s \<Longrightarrow> valid a \<Longrightarrow> fst (get e' a t) = (if reads e' a t then Some v else None)"
  by (simp add: get_val quiet_view put_view put_ok quiet_ok)

end

section \<open>The bytes behind an address\<close>

definition content :: "Store \<Rightarrow> BlockAddress \<Rightarrow> bytes option" where
  "content s a =
     (case rt_inner (so_ram s) a of Some sl \<Rightarrow> Some (rs_bytes sl) | None \<Rightarrow> sd_files (so_ssd s) (path_for a))"

definition readable :: "kv_io \<Rightarrow> BlockAddress \<Rightarrow> Store \<Rightarrow> bool" where
  "readable io a s \<longleftrightarrow> rt_inner (so_ram s) a \<noteq> None \<or> io_read io (path_for a) = None"

lemma path_for_eq_iff:
  assumes "length (ba_digest a) = 32" "length (ba_digest b) = 32"
  shows "path_for a = path_for b \<longleftrightarrow> take 8 (ba_digest a) = take 8 (ba_digest b) \<and> ba_layer a = ba_layer b"
proof -
  have "length (short (ba_digest a)) = length (short (ba_digest b))"
    using assms by (simp add: length_short)
  then show ?thesis by (simp add: path_for_def short_eq_iff)
qed

lemma stores_simps [simp]:
  "so_ram (hit s) = so_ram s" "so_ssd (hit s) = so_ssd s" "so_index (hit s) = so_index s"
  "so_ram (miss s) = so_ram s" "so_ssd (miss s) = so_ssd s" "so_index (miss s) = so_index s"
  "so_ram (snd (index_put io now a m l t s)) = so_ram s" "so_ssd (snd (index_put io now a m l t s)) = so_ssd s"
  "so_ram (snd (index_delete io a s)) = so_ram s" "so_ssd (snd (index_delete io a s)) = so_ssd s"
  by (simp_all add: hit_def miss_def index_put_def index_delete_def split: option.splits)

lemma ram_put_inner [simp]:
  "rt_inner (snd (ram_put now a bs r)) = (rt_inner r)(a \<mapsto> \<lparr> rs_bytes = bs, rs_last = now \<rparr>)"
  by (simp add: ram_put_def Let_def split: option.splits)

lemma ram_evict_inner [simp]: "rt_inner (ram_evict a r) = (rt_inner r)(a := None)"
  by (auto simp: ram_evict_def split: option.splits)

lemma content_put_ram: "content (snd (put_ram io now a bs m s)) = (content s)(a \<mapsto> bs)"
  by (auto simp: content_def put_ram_def fun_eq_iff split: option.splits)

lemma promote_value: "fst (lookup_with_promote io now a s) = (if readable io a s then content s a else None)"
  by (auto simp: lookup_with_promote_def content_def readable_def get_bytes_def ssd_read_def Let_def split: option.splits)

lemma content_promote: "content (snd (lookup_with_promote io now a s)) = content s"
  by (auto simp: lookup_with_promote_def content_def get_bytes_def ssd_read_def ram_touch_def Let_def fun_eq_iff
      split: option.splits)

lemma promote_dom:
  "dom (rt_inner (so_ram (snd (lookup_with_promote io now a s)))) \<subseteq> insert a (dom (rt_inner (so_ram s)))"
  by (auto simp: lookup_with_promote_def get_bytes_def ssd_read_def ram_touch_def Let_def split: option.splits if_splits)

text \<open>What a spill leaves: the block moved to its file, or only its touch time changed.\<close>

lemma spill_cases:
  obtains (absent) "rt_inner (so_ram s) a = None" "spill_to_ssd io now a m s = (Inr (), s)"
  | (failed) sl e where "rt_inner (so_ram s) a = Some sl" "io_write io (path_for a) \<noteq> None"
      "spill_to_ssd io now a m s = (Inl e, s\<lparr> so_ram := ram_touch now a sl (so_ram s) \<rparr>)"
  | (moved) sl where "rt_inner (so_ram s) a = Some sl" "io_write io (path_for a) = None"
      "spill_to_ssd io now a m s =
        index_put io now a m (length (rs_bytes sl)) Ssd
           (s\<lparr> so_ssd := (so_ssd s)\<lparr> sd_files := (sd_files (so_ssd s))(path_for a \<mapsto> rs_bytes sl) \<rparr>,
              so_ram := ram_evict a (ram_touch now a sl (so_ram s)) \<rparr>)"
  by (cases "rt_inner (so_ram s) a"; cases "io_write io (path_for a)")
     (auto simp: spill_to_ssd_def get_bytes_def ssd_write_def Let_def)

lemma content_spill:
  assumes "path_for b = path_for a \<Longrightarrow> b = a"
  shows "content (snd (spill_to_ssd io now a m s)) b = content s b"
  by (rule spill_cases [of s a io now m])
     (use assms in \<open>auto simp: content_def ram_touch_def split: option.splits\<close>)

lemma spill_dom:
  "dom (rt_inner (so_ram (snd (spill_to_ssd io now a m s)))) \<subseteq> dom (rt_inner (so_ram s))"
  by (rule spill_cases [of s a io now m]) (auto simp: ram_touch_def)

lemma spill_index:
  "so_index (snd (spill_to_ssd io now a m s)) b = so_index s b \<or>
   (\<exists>mt. so_index (snd (spill_to_ssd io now a m s)) b = Some mt \<and> bm_last_seen_unix mt = now)"
  by (rule spill_cases [of s a io now m]) (auto simp: index_put_def split: option.splits)

lemma spill_batch_step:
  "spill_batch io now (a # vs) s =
     (let r = spill_to_ssd io now a (case index_get io a s of Inr (Some m) \<Rightarrow> bm_model m | _ \<Rightarrow> []) s;
          bump = (\<lambda>s1. s1\<lparr> so_stats := (so_stats s1)\<lparr> ks_spills := ks_spills (so_stats s1) + 1 \<rparr> \<rparr>)
      in spill_batch io now vs (if isl (fst r) then snd r else bump (snd r)))"
  by (simp add: Let_def split: prod.splits sum.splits)

lemma content_stats [simp]: "content (s\<lparr> so_stats := st \<rparr>) = content s"
  by (simp add: content_def fun_eq_iff split: option.splits)

definition fresh_index :: "nat \<Rightarrow> Store \<Rightarrow> Store \<Rightarrow> BlockAddress \<Rightarrow> bool" where
  "fresh_index now s s' b \<longleftrightarrow>
     so_index s' b = so_index s b \<or> (\<exists>mt. so_index s' b = Some mt \<and> bm_last_seen_unix mt = now)"

lemma fresh_index_trans: "fresh_index now s s1 b \<Longrightarrow> fresh_index now s1 s2 b \<Longrightarrow> fresh_index now s s2 b"
  by (auto simp: fresh_index_def)

text \<open>What an eviction does to the contents of a set of addresses with distinct files.\<close>

definition keeps :: "BlockAddress set \<Rightarrow> nat \<Rightarrow> Store \<Rightarrow> Store \<Rightarrow> bool" where
  "keeps A now s s' \<longleftrightarrow> dom (rt_inner (so_ram s')) \<subseteq> A \<and>
     (\<forall>b \<in> A. content s' b = content s b \<and> fresh_index now s s' b)"

lemma keeps_trans: "keeps A now s s1 \<Longrightarrow> keeps A now s1 s2 \<Longrightarrow> keeps A now s s2"
  unfolding keeps_def by (metis fresh_index_trans)

lemma keeps_spill:
  assumes "inj_on path_for A" "dom (rt_inner (so_ram s)) \<subseteq> A" "a \<in> A"
  shows "keeps A now s (snd (spill_to_ssd io now a m s))"
proof -
  have "content (snd (spill_to_ssd io now a m s)) b = content s b" if "b \<in> A" for b
    using assms that by (intro content_spill) (auto dest: inj_onD)
  with assms(2) spill_dom [of io now a m s] spill_index [of io now a m s] show ?thesis
    by (auto simp: keeps_def fresh_index_def)
qed

lemma keeps_bump: "keeps A now s s' \<Longrightarrow> keeps A now s (s'\<lparr> so_stats := st \<rparr>)"
  by (simp add: keeps_def fresh_index_def)

lemma keeps_batch:
  "inj_on path_for A \<Longrightarrow> dom (rt_inner (so_ram s)) \<subseteq> A \<Longrightarrow> set vs \<subseteq> A \<Longrightarrow>
     keeps A now s (spill_batch io now vs s)"
proof (induction vs arbitrary: s)
  case (Cons a vs)
  let ?r = "spill_to_ssd io now a (case index_get io a s of Inr (Some m) \<Rightarrow> bm_model m | _ \<Rightarrow> []) s"
  let ?s1 = "if isl (fst ?r) then snd ?r
             else (snd ?r)\<lparr> so_stats := (so_stats (snd ?r))\<lparr> ks_spills := ks_spills (so_stats (snd ?r)) + 1 \<rparr> \<rparr>"
  have k: "keeps A now s ?s1" using Cons.prems by (auto intro!: keeps_spill keeps_bump)
  then have "keeps A now ?s1 (spill_batch io now vs ?s1)"
    using Cons.prems by (intro Cons.IH) (auto simp: keeps_def)
  with k have "keeps A now s (spill_batch io now vs ?s1)" by (rule keeps_trans)
  then show ?case by (simp only: spill_batch_step Let_def)
qed (simp add: keeps_def fresh_index_def)

lemma set_coldest: "set (coldest l n r) \<subseteq> set l"
  unfolding coldest_def by (metis set_sort set_take_subset)

text \<open>A listing of a tier with blocks among \<open>A\<close> names exactly its blocks, each once.\<close>

definition lists_ram :: "BlockAddress set \<Rightarrow> (RamTier \<Rightarrow> BlockAddress list) \<Rightarrow> bool" where
  "lists_ram A listing \<longleftrightarrow>
     (\<forall>r. dom (rt_inner r) \<subseteq> A \<longrightarrow> distinct (listing r) \<and> set (listing r) = dom (rt_inner r))"

lemma keeps_loop:
  "inj_on path_for A \<Longrightarrow> lists_ram A listing \<Longrightarrow> dom (rt_inner (so_ram s)) \<subseteq> A \<Longrightarrow>
     keeps A now s (spill_loop io listing now target s)"
proof (induction io listing now target s rule: spill_loop.induct)
  case (1 io listing now target s)
  let ?vs = "coldest (listing (so_ram s)) 32 (so_ram s)"
  let ?s1 = "spill_batch io now ?vs s"
  have "set ?vs \<subseteq> A" using "1.prems" set_coldest unfolding lists_ram_def by blast
  then have k: "keeps A now s ?s1" using "1.prems" by (intro keeps_batch)
  have refl: "keeps A now s s" using "1.prems" by (simp add: keeps_def fresh_index_def)
  show ?case
  proof (cases "target < rt_used (so_ram s) \<and> ?vs \<noteq> [] \<and> \<not> rt_used (so_ram s) \<le> rt_used (so_ram ?s1)")
    case True
    then have "keeps A now ?s1 (spill_loop io listing now target ?s1)"
      using "1.prems" k by (intro "1.IH") (auto simp: keeps_def)
    with k have "keeps A now s (spill_loop io listing now target ?s1)" by (rule keeps_trans)
    with True show ?thesis by (simp add: spill_loop.simps [of _ _ _ _ s] Let_def)
  next
    case False
    with k refl show ?thesis by (auto simp: spill_loop.simps [of _ _ _ _ s] Let_def)
  qed
qed

section \<open>Deleting\<close>

lemma content_forget:
  assumes "path_for b = path_for a \<Longrightarrow> b = a"
  shows "content (snd (forget io a s)) b =
    (if b = a then if io_remove io (path_for a) = None then None else sd_files (so_ssd s) (path_for a) else content s b)"
  using assms by (auto simp: forget_def ssd_evict_def content_def Let_def split: option.splits)

lemma forget_index: "b \<noteq> a \<Longrightarrow> so_index (snd (forget io a s)) b = so_index s b"
  by (auto simp: forget_def index_delete_def Let_def split: prod.splits sum.splits option.splits)

definition stale :: "nat \<Rightarrow> nat \<Rightarrow> BlockMeta \<Rightarrow> bool" where
  "stale now ttl m \<longleftrightarrow> bm_tier m = Ssd \<and> ttl < now - bm_last_seen_unix m"

lemma ttl_loop_step:
  "ttl_loop io now ttl ((a, m) # es) s =
     (let r = forget io a s;
          bump = (\<lambda>s1. s1\<lparr> so_stats := (so_stats s1)\<lparr> ks_evictions := ks_evictions (so_stats s1) + 1 \<rparr> \<rparr>)
      in ttl_loop io now ttl es
           (if \<not> stale now ttl m then s else if isl (fst r) then snd r else bump (snd r)))"
  by (simp add: Let_def stale_def split: prod.splits sum.splits)

lemma ttl_loop_content:
  "inj_on path_for A \<Longrightarrow> fst ` set es \<subseteq> A \<Longrightarrow> b \<in> A \<Longrightarrow> \<forall>m. (b, m) \<in> set es \<longrightarrow> \<not> stale now ttl m \<Longrightarrow>
     content (ttl_loop io now ttl es s) b = content s b"
proof (induction es arbitrary: s)
  case (Cons e es)
  obtain a m where e: "e = (a, m)" by (cases e)
  let ?r = "forget io a s"
  let ?s1 = "if \<not> stale now ttl m then s else if isl (fst ?r) then snd ?r
    else (snd ?r)\<lparr> so_stats := (so_stats (snd ?r))\<lparr> ks_evictions := ks_evictions (so_stats (snd ?r)) + 1 \<rparr> \<rparr>"
  have "content ?s1 b = content s b"
  proof (cases "stale now ttl m")
    case True
    with Cons.prems e have "b \<noteq> a" "path_for b \<noteq> path_for a" by (auto dest: inj_onD)
    then show ?thesis using content_forget [of b a io s] by simp
  qed simp
  moreover have "content (ttl_loop io now ttl es ?s1) b = content ?s1 b"
    using Cons.prems by (intro Cons.IH) auto
  ultimately show ?case by (simp only: e ttl_loop_step Let_def)
qed simp

definition lists_index :: "BlockAddress set \<Rightarrow> (Store \<Rightarrow> BlockAddress list) \<Rightarrow> bool" where
  "lists_index A listing \<longleftrightarrow> (\<forall>s. set (listing s) \<subseteq> A)"

lemma set_scan: "(a, m) \<in> set (scan l s) \<longleftrightarrow> a \<in> set l \<and> so_index s a = Some m"
  by (induction l) (auto simp: scan_def List.map_filter_simps split: option.splits)

lemma scan_addrs: "fst ` set (scan l s) \<subseteq> set l"
  using set_scan by fastforce

lemma evict_pass_content:
  assumes "inj_on path_for A" "lists_ram A listing" "lists_index A ilisting"
    and "dom (rt_inner (so_ram s)) \<subseteq> A" and "b \<in> A"
    and "\<forall>m. so_index s b = Some m \<longrightarrow> ttl = 0 \<or> \<not> stale now ttl m"
  shows "content (evict_pass io listing ilisting now hw ttl s) b = content s b"
proof -
  let ?t = "watermark_target (rt_capacity (so_ram s)) hw"
  define s1 where "s1 = (if 0 < rt_capacity (so_ram s) \<and> ?t < rt_used (so_ram s)
    then spill_loop io listing now ?t s else s)"
  have k: "keeps A now s s1"
    using keeps_loop [OF assms(1,2,4), of now io ?t] assms(4)
    by (simp add: s1_def keeps_def fresh_index_def)
  have "\<not> stale now ttl m" if "so_index s1 b = Some m" "ttl \<noteq> 0" for m
    using k assms(5,6) that by (fastforce simp: keeps_def fresh_index_def stale_def)
  then have "ttl \<noteq> 0 \<Longrightarrow> content (ttl_loop io now ttl (scan (ilisting s1) s1) s1) b = content s1 b"
    using assms(1,5) subset_trans [OF scan_addrs assms(3) [unfolded lists_index_def, rule_format]]
    by (intro ttl_loop_content) (auto simp: set_scan)
  then show ?thesis
    using k assms(5) by (simp add: evict_pass_def Let_def keeps_def flip: s1_def)
qed

lemma evict_pass_keeps:
  assumes "inj_on path_for A" "lists_ram A listing" "dom (rt_inner (so_ram s)) \<subseteq> A"
  shows "keeps A now s (evict_pass io listing ilisting now hw 0 s)"
  using keeps_loop [OF assms, of now io] assms(3)
  by (simp add: evict_pass_def Let_def keeps_def fresh_index_def)

definition tier_ok :: "BlockAddress set \<Rightarrow> (RamTier \<Rightarrow> BlockAddress list) \<Rightarrow> Store \<Rightarrow> bool" where
  "tier_ok A listing s \<longleftrightarrow> inj_on path_for A \<and> lists_ram A listing \<and> dom (rt_inner (so_ram s)) \<subseteq> A"

interpretation tc: block_cache "tier_ok A listing" "\<lambda>a. a \<in> A" content "\<lambda>(io, now). readable io"
  "\<lambda>(io, now). lookup_with_promote io now" "\<lambda>(io, now) a bs s. snd (put_ram io now a bs model s)"
  "\<lambda>(io, now). evict_pass io listing ilisting now hw 0"
  for A listing model ilisting hw
proof
  fix s a b v and e :: "kv_io \<times> nat"
  obtain io now where e: "e = (io, now)" by (cases e)
  assume ok: "tier_ok A listing s"
  have keeps: "keeps A now s (evict_pass io listing ilisting now hw 0 s)"
    using ok by (intro evict_pass_keeps) (simp_all add: tier_ok_def)
  then show "tier_ok A listing ((case e of (io, now) \<Rightarrow> evict_pass io listing ilisting now hw 0) s)"
    using ok by (simp add: e tier_ok_def keeps_def)
  show "b \<in> A \<Longrightarrow> content ((case e of (io, now) \<Rightarrow> evict_pass io listing ilisting now hw 0) s) b = content s b"
    using keeps by (simp add: e keeps_def)
  assume "a \<in> A"
  show "tier_ok A listing (snd ((case e of (io, now) \<Rightarrow> lookup_with_promote io now) a s))"
    using ok \<open>a \<in> A\<close> promote_dom [of io now a s] by (auto simp: e tier_ok_def)
  show "fst ((case e of (io, now) \<Rightarrow> lookup_with_promote io now) a s) =
      (if (case e of (io, now) \<Rightarrow> readable io) a s then content s a else None)"
    by (simp add: e promote_value)
  show "content (snd ((case e of (io, now) \<Rightarrow> lookup_with_promote io now) a s)) b = content s b"
    by (simp add: e content_promote)
  show "tier_ok A listing ((case e of (io, now) \<Rightarrow> \<lambda>a bs s. snd (put_ram io now a bs model s)) a v s)"
    using ok \<open>a \<in> A\<close> by (auto simp: e tier_ok_def put_ram_def)
  show "content ((case e of (io, now) \<Rightarrow> \<lambda>a bs s. snd (put_ram io now a bs model s)) a v s) b =
      (if b = a then Some v else content s b)"
    by (simp add: e content_put_ram)
qed

section \<open>Watermark\<close>

lemma spill_ram_wf: "ram_wf (so_ram s) \<Longrightarrow> ram_wf (so_ram (snd (spill_to_ssd io now a m s)))"
  by (rule spill_cases [of s a io now m]) (simp_all add: ram_wf_touch ram_wf_evict)

lemma spill_all_ok:
  assumes "\<forall>p. io_write io p = None"
  shows "rt_inner (so_ram (snd (spill_to_ssd io now a m s))) = (rt_inner (so_ram s))(a := None)"
  by (rule spill_cases [of s a io now m]) (use assms in \<open>auto simp: ram_touch_def\<close>)

lemma spill_batch_ram:
  assumes "\<forall>p. io_write io p = None"
  shows "rt_inner (so_ram (spill_batch io now vs s)) =
      (\<lambda>a. if a \<in> set vs then None else rt_inner (so_ram s) a)"
proof (induction vs arbitrary: s)
  case (Cons a vs)
  show ?case
    unfolding spill_batch_step Let_def Cons.IH by (auto simp: fun_eq_iff spill_all_ok [OF assms])
qed simp

lemma spill_batch_wf: "ram_wf (so_ram s) \<Longrightarrow> ram_wf (so_ram (spill_batch io now vs s))"
proof (induction vs arbitrary: s)
  case (Cons a vs)
  show ?case
    unfolding spill_batch_step Let_def by (rule Cons.IH) (simp add: spill_ram_wf Cons.prems)
qed simp

lemma spill_batch_shrinks:
  assumes "\<forall>p. io_write io p = None" "ram_wf (so_ram s)" "v \<in> set vs" "set vs \<subseteq> dom (rt_inner (so_ram s))"
    and "\<forall>a sl. rt_inner (so_ram s) a = Some sl \<longrightarrow> rs_bytes sl \<noteq> []"
  shows "rt_used (so_ram (spill_batch io now vs s)) < rt_used (so_ram s)"
proof -
  let ?m = "rt_inner (so_ram s)" and ?s = "spill_batch io now vs s"
  have inner: "rt_inner (so_ram ?s) = (\<lambda>a. if a \<in> set vs then None else ?m a)"
    by (rule spill_batch_ram [OF assms(1)])
  then have d: "dom (rt_inner (so_ram ?s)) = dom ?m - set vs" by (auto split: if_splits)
  have "rt_used (so_ram ?s) = (\<Sum>a \<in> dom ?m - set vs. length (rs_bytes (the (rt_inner (so_ram ?s) a))))"
    using spill_batch_wf [OF assms(2), of io now vs] d by (simp add: ram_wf_def)
  also have "\<dots> = (\<Sum>a \<in> dom ?m - set vs. length (rs_bytes (the (?m a))))"
    by (rule sum.cong) (simp_all add: inner)
  also have "\<dots> < (\<Sum>a \<in> dom ?m. length (rs_bytes (the (?m a))))"
    using assms(2-5) by (intro sum_strict_mono2 [of _ _ v]) (auto simp: ram_wf_def)
  also have "\<dots> = rt_used (so_ram s)" using assms(2) by (simp add: ram_wf_def)
  finally show ?thesis .
qed

lemma spill_loop_watermark:
  "\<forall>p. io_write io p = None \<Longrightarrow> lists_ram A listing \<Longrightarrow> dom (rt_inner (so_ram s)) \<subseteq> A \<Longrightarrow> ram_wf (so_ram s) \<Longrightarrow>
   \<forall>a sl. rt_inner (so_ram s) a = Some sl \<longrightarrow> rs_bytes sl \<noteq> [] \<Longrightarrow>
     rt_used (so_ram (spill_loop io listing now target s)) \<le> target"
proof (induction io listing now target s rule: spill_loop.induct)
  case (1 io listing now target s)
  show ?case
  proof (cases "target < rt_used (so_ram s)")
    case True
    let ?vs = "coldest (listing (so_ram s)) 32 (so_ram s)"
    let ?s1 = "spill_batch io now ?vs s"
    have l: "set (listing (so_ram s)) = dom (rt_inner (so_ram s))" using "1.prems"(2,3) by (simp add: lists_ram_def)
    have "dom (rt_inner (so_ram s)) \<noteq> {}" using True "1.prems"(4) by (auto simp: ram_wf_def)
    with l have "listing (so_ram s) \<noteq> []" by (metis empty_set)
    then have ne: "?vs \<noteq> []" by (simp add: coldest_def) (metis list.size(3) length_sort length_0_conv)
    then obtain v where v: "v \<in> set ?vs" by (meson list.set_sel(1))
    have sub: "set ?vs \<subseteq> dom (rt_inner (so_ram s))" using set_coldest l by metis
    have less: "rt_used (so_ram ?s1) < rt_used (so_ram s)"
      by (rule spill_batch_shrinks [OF "1.prems"(1,4) v sub "1.prems"(5)])
    have inner: "rt_inner (so_ram ?s1) = (\<lambda>a. if a \<in> set ?vs then None else rt_inner (so_ram s) a)"
      by (rule spill_batch_ram [OF "1.prems"(1)])
    have "rt_used (so_ram (spill_loop io listing now target ?s1)) \<le> target"
    proof (rule "1.IH" [OF True refl ne refl _ "1.prems"(1,2)])
      show "\<not> rt_used (so_ram s) \<le> rt_used (so_ram ?s1)" using less by simp
      show "dom (rt_inner (so_ram ?s1)) \<subseteq> A" using "1.prems"(3) by (auto simp: inner split: if_splits)
      show "ram_wf (so_ram ?s1)" by (rule spill_batch_wf [OF "1.prems"(4)])
      show "\<forall>a sl. rt_inner (so_ram ?s1) a = Some sl \<longrightarrow> rs_bytes sl \<noteq> []"
        using "1.prems"(5) by (simp add: inner)
    qed
    with True ne less show ?thesis by (simp add: spill_loop.simps [of _ _ _ _ s] Let_def)
  next
    case False
    then show ?thesis by (simp add: spill_loop.simps [of _ _ _ _ s])
  qed
qed

lemma forget_used: "rt_used (so_ram (snd (forget io a s))) \<le> rt_used (so_ram s)"
  by (auto simp: forget_def ram_evict_def Let_def split: option.splits prod.splits sum.splits)

lemma ttl_loop_used: "rt_used (so_ram (ttl_loop io now ttl es s)) \<le> rt_used (so_ram s)"
proof (induction es arbitrary: s)
  case (Cons e es)
  obtain a m where e: "e = (a, m)" by (cases e)
  let ?r = "forget io a s"
  let ?s1 = "if \<not> stale now ttl m then s else if isl (fst ?r) then snd ?r
    else (snd ?r)\<lparr> so_stats := (so_stats (snd ?r))\<lparr> ks_evictions := ks_evictions (so_stats (snd ?r)) + 1 \<rparr> \<rparr>"
  have "rt_used (so_ram ?s1) \<le> rt_used (so_ram s)" using forget_used [of io a s] by simp
  with Cons.IH [of ?s1] show ?case unfolding e ttl_loop_step Let_def by (rule order_trans)
qed simp

section \<open>Properties\<close>

text \<open>C24: For addresses with distinct SSD file names the tiered store is one map from addresses to
  bytes, whatever file and index operations fail. A promoting lookup returns the bytes of its
  address, or a miss exactly when the block is in no tier or is on the SSD only and reading its file
  fails; it changes no contents. A write changes exactly its own address, also when it reports an index
  error. An eviction pass loses nothing but what the SSD lifetime expired: unlike the documented
  policy (\<open>kv-tiering.md\<close>), no block is dropped because the SSD is full. A successful delete
  removes exactly its address.\<close>

theorem tier_store_is_a_map:
  assumes "tier_ok A listing s" and "lists_index A ilisting" and "a \<in> A" and "b \<in> A"
  shows "fst (lookup_with_promote io now a s) =
      (if rt_inner (so_ram s) a = None \<and> io_read io (path_for a) \<noteq> None then None else content s a) \<and>
    content (snd (lookup_with_promote io now a s)) b = content s b \<and>
    content (snd (put_ram io now a bs model s)) b = (if b = a then Some bs else content s b) \<and>
    ((\<forall>m. so_index s b = Some m \<longrightarrow> ttl = 0 \<or> \<not> stale now ttl m) \<longrightarrow>
      content (evict_pass io listing ilisting now hw ttl s) b = content s b) \<and>
    (fst (forget io a s) = Inr () \<longrightarrow>
      content (snd (forget io a s)) b = (if b = a then None else content s b))"
proof (intro conjI impI)
  show "fst (lookup_with_promote io now a s) =
      (if rt_inner (so_ram s) a = None \<and> io_read io (path_for a) \<noteq> None then None else content s a)"
    using tc.get_val [OF assms(1,3), where e = "(io, now)"] by (auto simp: readable_def)
  show "content (snd (lookup_with_promote io now a s)) b = content s b"
    using tc.get_view [OF assms(1,3,4), where e = "(io, now)"] by simp
  show "content (snd (put_ram io now a bs model s)) b = (if b = a then Some bs else content s b)"
    using tc.put_view [OF assms(1,3,4), where e = "(io, now)"] by simp
  show "content (evict_pass io listing ilisting now hw ttl s) b = content s b"
    if "\<forall>m. so_index s b = Some m \<longrightarrow> ttl = 0 \<or> \<not> stale now ttl m"
    using assms that by (intro evict_pass_content) (auto simp: tier_ok_def)
  assume "fst (forget io a s) = Inr ()"
  then have removed: "io_remove io (path_for a) = None"
    by (auto simp: forget_def ssd_evict_def Let_def split: option.splits)
  have "path_for b = path_for a \<Longrightarrow> b = a" using assms by (auto simp: tier_ok_def dest: inj_onD)
  from content_forget [OF this, of io s] removed
  show "content (snd (forget io a s)) b = (if b = a then None else content s b)" by simp
qed

text \<open>A block that was written is read back after any interleaving of lookups, eviction passes without
  a lifetime and writes of other blocks, with any failures on the way, unless its file cannot be read.\<close>

lemma written_block_survives:
  assumes "tier_ok A listing s" "a \<in> A"
    and "tc.quiet A model listing ilisting hw a (snd (put_ram io now a bs model s)) t"
  shows "fst (lookup_with_promote io' now' a t) = (if readable io' a t then Some bs else None)"
  using tc.read_your_write [where A = A and model = model and listing = listing and ilisting = ilisting and hw = hw
      and a = a and e = "(io, now)" and v = bs and s = s and t = t and e' = "(io', now')"] assms by simp

definition demo_addr :: "u8 \<Rightarrow> BlockAddress" where
  "demo_addr k = \<lparr> ba_digest = replicate 32 k, ba_layer = 0 \<rparr>"

definition demo_list :: "RamTier \<Rightarrow> BlockAddress list" where
  "demo_list r = filter (\<lambda>a. rt_inner r a \<noteq> None) [demo_addr 1, demo_addr 2]"

definition demo_io :: kv_io where
  "demo_io = \<lparr> io_read = (\<lambda>_. None), io_write = (\<lambda>_. None), io_remove = (\<lambda>_. None), io_index_get = (\<lambda>_. None),
     io_index_put = (\<lambda>_. None), io_index_delete = (\<lambda>_. None) \<rparr>"

definition demo_store :: Store where
  "demo_store = snd (put_ram demo_io 5 (demo_addr 1) [9, 9] ''m'' (store_open 1 1 Map.empty))"

lemma demo_lists: "lists_ram {demo_addr 1, demo_addr 2} demo_list"
  by (auto simp: lists_ram_def demo_list_def demo_addr_def dom_def simp flip: replicate_append_same)

lemma demo_ok: "tier_ok {demo_addr 1, demo_addr 2} demo_list demo_store"
proof -
  have "path_for (demo_addr 1) \<noteq> path_for (demo_addr 2)"
    using path_for_eq_iff [of "demo_addr 1" "demo_addr 2"] by (simp add: demo_addr_def)
  moreover have "dom (rt_inner (so_ram demo_store)) \<subseteq> {demo_addr 1, demo_addr 2}"
    by (simp add: demo_store_def put_ram_def store_open_def ram_new_def)
  ultimately show ?thesis using demo_lists by (auto simp: tier_ok_def)
qed

theorem tier_store_is_a_map_witness:
  "fst (lookup_with_promote (demo_io\<lparr> io_read := (\<lambda>_. Some ''io error'') \<rparr>) 7 (demo_addr 1)
       (snd (spill_to_ssd demo_io 6 (demo_addr 1) ''m'' demo_store))) = None \<and>
   fst (lookup_with_promote demo_io 7 (demo_addr 1)
       (snd (spill_to_ssd demo_io 6 (demo_addr 1) ''m'' demo_store))) = Some [9, 9]"
proof -
  let ?s = "snd (spill_to_ssd demo_io 6 (demo_addr 1) ''m'' demo_store)"
  have ram: "rt_inner (so_ram demo_store) (demo_addr 1) = Some \<lparr> rs_bytes = [9, 9], rs_last = 5 \<rparr>"
    by (simp add: demo_store_def put_ram_def)
  then have cold: "rt_inner (so_ram ?s) (demo_addr 1) = None" "content ?s (demo_addr 1) = Some [9, 9]"
    by (simp_all add: spill_to_ssd_def get_bytes_def ssd_write_def demo_io_def content_def Let_def)
  have ok: "tier_ok {demo_addr 1, demo_addr 2} demo_list ?s"
    using demo_ok spill_dom [of demo_io 6 "demo_addr 1" "''m''" demo_store] by (auto simp: tier_ok_def)
  have l: "lists_index {demo_addr 1, demo_addr 2} (\<lambda>_. [])" by (simp add: lists_index_def)
  show ?thesis
    using tier_store_is_a_map [OF ok l, of "demo_addr 1" "demo_addr 1" "demo_io\<lparr> io_read := (\<lambda>_. Some ''io error'') \<rparr>" 7]
      tier_store_is_a_map [OF ok l, of "demo_addr 1" "demo_addr 1" demo_io 7] cold
    by (simp add: demo_io_def)
qed

text \<open>C25: The eviction pass ends and reaches its goal: with a working SSD and no empty blocks, RAM
  use afterwards is at most the high watermark, for every way the tier lists its blocks; and RAM
  accounting stays exact.\<close>

theorem evict_pass_reaches_watermark:
  assumes "\<forall>p. io_write io p = None" and "lists_ram A listing" and "dom (rt_inner (so_ram s)) \<subseteq> A"
    and "ram_wf (so_ram s)" and "0 < rt_capacity (so_ram s)"
    and "\<forall>a sl. rt_inner (so_ram s) a = Some sl \<longrightarrow> rs_bytes sl \<noteq> []"
  shows "rt_used (so_ram (evict_pass io listing ilisting now hw ttl s))
    \<le> watermark_target (rt_capacity (so_ram s)) hw"
proof -
  let ?t = "watermark_target (rt_capacity (so_ram s)) hw"
  have "rt_used (so_ram (if 0 < rt_capacity (so_ram s) \<and> ?t < rt_used (so_ram s)
      then spill_loop io listing now ?t s else s)) \<le> ?t"
    using spill_loop_watermark [OF assms(1-4,6), of now ?t] assms(5) by auto
  then show ?thesis
    unfolding evict_pass_def Let_def by (auto intro: order_trans [OF ttl_loop_used])
qed

theorem evict_pass_reaches_watermark_witness:
  "rt_used (so_ram (evict_pass demo_io demo_list (\<lambda>_. []) 9 0 0 demo_store)) = 0"
proof -
  have d: "dom (rt_inner (so_ram demo_store)) \<subseteq> {demo_addr 1, demo_addr 2}" using demo_ok by (simp add: tier_ok_def)
  have wf: "ram_wf (so_ram demo_store)"
    by (simp add: demo_store_def put_ram_def store_open_def ram_wf_put ram_wf_new)
  have cap: "0 < rt_capacity (so_ram demo_store)"
    by (simp add: demo_store_def put_ram_def store_open_def ram_put_def ram_new_def GIB_def)
  have ne: "\<forall>a sl. rt_inner (so_ram demo_store) a = Some sl \<longrightarrow> rs_bytes sl \<noteq> []"
    by (auto simp: demo_store_def put_ram_def store_open_def ram_new_def split: if_splits)
  show ?thesis
    using evict_pass_reaches_watermark [OF _ demo_lists d wf cap ne, of demo_io "\<lambda>_. []" 9 0 0]
    by (simp add: watermark_target_def f64_round_def as_u64_def demo_io_def)
qed

text \<open>C27: SSD file names carry only the first eight digest bytes. For two different addresses that
  agree on those and on the layer, spilling one makes a promoting lookup of the other return the
  bytes of the first block as if they were its own.\<close>

theorem ssd_name_clash_serves_wrong_block:
  assumes "a \<noteq> b" and "take 8 (ba_digest a) = take 8 (ba_digest b)" and "ba_layer a = ba_layer b"
    and "rt_inner (so_ram s) a = Some sl" and "rt_inner (so_ram s) b = None" and "io_write io (path_for a) = None" and "io_read io' (path_for b) = None"
  shows "fst (lookup_with_promote io' now' b (snd (spill_to_ssd io now a m s))) = Some (rs_bytes sl)"
proof -
  have "path_for a = path_for b" using assms(2,3) by (simp add: path_for_def short_def)
  with assms show ?thesis
    by (simp add: promote_value readable_def content_def spill_to_ssd_def get_bytes_def ssd_write_def
        ram_touch_def Let_def)
qed

theorem ssd_name_clash_serves_wrong_block_witness:
  "fst (lookup_with_promote demo_io 7 \<lparr> ba_digest = replicate 31 1 @ [2], ba_layer = 0 \<rparr>
     (snd (spill_to_ssd demo_io 6 (demo_addr 1) ''m'' demo_store))) = Some [9, 9]"
proof -
  let ?b = "\<lparr> ba_digest = replicate 31 1 @ [2], ba_layer = 0 \<rparr> :: BlockAddress"
  have ne: "demo_addr 1 \<noteq> ?b" by code_simp
  have ram: "rt_inner (so_ram demo_store) (demo_addr 1) = Some \<lparr> rs_bytes = [9, 9], rs_last = 5 \<rparr>"
    "rt_inner (so_ram demo_store) ?b = None"
    using ne by (simp_all add: demo_store_def put_ram_def store_open_def ram_new_def)
  show ?thesis
    using ssd_name_clash_serves_wrong_block [OF ne _ _ ram, of demo_io demo_io 7 6 "''m''"]
    by (simp add: demo_addr_def demo_io_def)
qed

text \<open>With a persistent index a restart empties the RAM tier only: a lookup still reports a block
  whose bytes are gone.\<close>

lemma lookup_after_restart:
  assumes "so_index s a = Some m" "io_index_get io a = None" "sd_files (so_ssd s) (path_for a) = None" "s' = s\<lparr> so_ram := ram_new cap \<rparr>"
  shows "fst (lookup io now a s') \<noteq> None \<and> fst (lookup_with_promote io now a s') = None"
  using assms by (simp add: lookup_def index_get_def ram_get_def ram_new_def promote_value content_def)

end
