(* ===== verification/Cgn_Transport.thy ===== *)
theory Cgn_Transport
  imports Cgn_Tiers_Props
begin

text \<open>
  Block transfer between hosts (\<open>cgn-kv/src/transport.rs\<close>, \<open>cgn-kvcached/src/transport.rs\<close>) and
  the daemon's gRPC handlers (\<open>cgn-kvcached/src/grpc.rs\<close>). A QUIC stream is a byte list in each
  direction; the bincode codec of the frame header is the pair of parameters \<open>enc\<close>, \<open>dec\<close>.
  TLS setup, listening and connecting are not modelled.
\<close>

section \<open>Frames\<close>

datatype Op = Pull | Push | Ack

record Frame =
  fr_op :: Op
  fr_addr :: BlockAddress
  fr_body_len :: nat

definition MAX_BLOCK_BYTES :: nat where "MAX_BLOCK_BYTES = 16 * 1024 * 1024"

definition be32 :: "nat \<Rightarrow> bytes" where
  "be32 n = map of_nat [n div 2 ^ 24 mod 256, n div 2 ^ 16 mod 256, n div 2 ^ 8 mod 256, n mod 256]"

definition of_be :: "bytes \<Rightarrow> nat" where
  "of_be bs = foldl (\<lambda>acc b. acc * 256 + unat b) 0 bs"

definition read_exact :: "string \<Rightarrow> nat \<Rightarrow> bytes \<Rightarrow> (Error, bytes \<times> bytes) result" where
  "read_exact what n recv =
     (if length recv < n then Inl (Internal what) else Inr (take n recv, drop n recv))"

definition read_frame :: "(bytes \<Rightarrow> Frame option) \<Rightarrow> bytes \<Rightarrow> (Error, Frame \<times> bytes) result" where
  "read_frame dec recv =
     (case read_exact ''read hdr'' 4 recv of
        Inl e \<Rightarrow> Inl e
      | Inr (hdr, recv1) \<Rightarrow>
          let len = of_be hdr in
          if 16 * 1024 < len then Inl (InvalidArgument (''frame header too big: '' @ show_nat len))
          else case read_exact ''read frame'' len recv1 of
                 Inl e \<Rightarrow> Inl e
               | Inr (payload, recv2) \<Rightarrow>
                   (case dec payload of
                      None \<Rightarrow> Inl (InvalidArgument ''decode frame'')
                    | Some f \<Rightarrow> Inr (f, recv2)))"

definition write_frame :: "(Frame \<Rightarrow> bytes) \<Rightarrow> Frame \<Rightarrow> bytes" where
  "write_frame enc f = be32 (length (enc f) mod 2 ^ 32) @ enc f"

section \<open>Transport security\<close>

record SecurityCfg =
  sx_require_mtls :: bool
  sx_ca_file :: "string option"
  sx_cert_file :: "string option"
  sx_key_file :: "string option"

datatype QuicSecurity = Mtls string string string string | Insecure

definition from_config :: "SecurityCfg \<Rightarrow> string \<Rightarrow> bool \<Rightarrow> bool \<Rightarrow> string \<Rightarrow> (Error, QuicSecurity) result" where
  "from_config sx quic_server_name allow_insecure_quic loopback listen =
     (if sx_require_mtls sx then
        case (sx_ca_file sx, sx_cert_file sx, sx_key_file sx) of
          (Some ca, Some cert, Some key) \<Rightarrow> Inr (Mtls ca cert key quic_server_name)
        | _ \<Rightarrow> Inl (Config ''require_mtls=true but [security].ca_file/cert_file/key_file are not set'')
      else if loopback then Inr Insecure
      else if allow_insecure_quic then Inr Insecure
      else Inl (Config (''kv.quic_listen '' @ listen @ '' is not loopback and [security].require_mtls is false; enable mTLS, bind to 127.0.0.1, or set [kv].allow_insecure_quic = true'')))"

definition server_name :: "QuicSecurity \<Rightarrow> string" where
  "server_name sec = (case sec of Mtls _ _ _ n \<Rightarrow> n | Insecure \<Rightarrow> ''cognitora'')"

section \<open>Server and clients\<close>

definition add_pushed :: "nat \<Rightarrow> Store \<Rightarrow> Store" where
  "add_pushed n s = s\<lparr> so_stats := (so_stats s)\<lparr> ks_bytes_pushed := ks_bytes_pushed (so_stats s) + n \<rparr> \<rparr>"

definition add_pulled :: "nat \<Rightarrow> Store \<Rightarrow> Store" where
  "add_pulled n s = s\<lparr> so_stats := (so_stats s)\<lparr> ks_bytes_pulled := ks_bytes_pulled (so_stats s) + n \<rparr> \<rparr>"

text \<open>One bidirectional stream of \<open>handle_connection\<close>: the received bytes, then the sent bytes
  and the store, or the error that ends the connection.\<close>

definition handle_stream ::
  "(Frame \<Rightarrow> bytes) \<Rightarrow> (bytes \<Rightarrow> Frame option) \<Rightarrow> kv_io \<Rightarrow> nat \<Rightarrow> bytes \<Rightarrow> Store \<Rightarrow> (Error, bytes) result \<times> Store" where
  "handle_stream enc dec io now recv s =
     (case read_frame dec recv of
        Inl e \<Rightarrow> (Inl e, s)
      | Inr (frame, rest) \<Rightarrow>
          (case fr_op frame of
             Pull \<Rightarrow>
               let (got, r) = get_bytes now (fr_addr frame) (so_ram s);
                   bs = (case got of None \<Rightarrow> [] | Some b \<Rightarrow> b);
                   resp = \<lparr> fr_op = Push, fr_addr = fr_addr frame, fr_body_len = length bs \<rparr>
               in (Inr (write_frame enc resp @ bs), add_pushed (length bs) (s\<lparr> so_ram := r \<rparr>))
           | Push \<Rightarrow>
               if MAX_BLOCK_BYTES < fr_body_len frame
               then (Inl (InvalidArgument (''push body '' @ show_nat (fr_body_len frame) @ '' exceeds max '' @ show_nat MAX_BLOCK_BYTES)), s)
               else (case read_exact ''quic read body'' (fr_body_len frame) rest of
                       Inl e \<Rightarrow> (Inl e, s)
                     | Inr (bs, _) \<Rightarrow>
                         (case put_ram io now (fr_addr frame) bs [] (add_pulled (length bs) s) of
                            (Inl e, s1) \<Rightarrow> (Inl e, s1)
                          | (Inr _, s1) \<Rightarrow>
                              (Inr (write_frame enc \<lparr> fr_op = Ack, fr_addr = fr_addr frame, fr_body_len = 0 \<rparr>), s1)))
           | Ack \<Rightarrow> (Inr [], s)))"

text \<open>The clients: what they send, and what they make of the reply.\<close>

definition pull_request :: "(Frame \<Rightarrow> bytes) \<Rightarrow> BlockAddress \<Rightarrow> bytes" where
  "pull_request enc addr = write_frame enc \<lparr> fr_op = Pull, fr_addr = addr, fr_body_len = 0 \<rparr>"

definition pull_reply :: "(bytes \<Rightarrow> Frame option) \<Rightarrow> bytes \<Rightarrow> (Error, bytes) result" where
  "pull_reply dec recv =
     (case read_frame dec recv of
        Inl e \<Rightarrow> Inl e
      | Inr (resp, rest) \<Rightarrow>
          if MAX_BLOCK_BYTES < fr_body_len resp
          then Inl (InvalidArgument (''peer pulled too much: '' @ show_nat (fr_body_len resp) @ '' bytes''))
          else if 0 < fr_body_len resp
          then (case read_exact ''read body'' (fr_body_len resp) rest of Inl e \<Rightarrow> Inl e | Inr (buf, _) \<Rightarrow> Inr buf)
          else Inr [])"

definition push_request :: "(Frame \<Rightarrow> bytes) \<Rightarrow> BlockAddress \<Rightarrow> bytes \<Rightarrow> bytes" where
  "push_request enc addr bs =
     write_frame enc \<lparr> fr_op = Push, fr_addr = addr, fr_body_len = length bs \<rparr> @ bs"

definition push_reply :: "(bytes \<Rightarrow> Frame option) \<Rightarrow> bytes \<Rightarrow> (Error, unit) result" where
  "push_reply dec recv = (case read_frame dec recv of Inl e \<Rightarrow> Inl e | Inr _ \<Rightarrow> Inr ())"

text \<open>A client call against a peer's store: a stream the server fails on delivers no bytes.\<close>

definition peer_pull ::
  "(Frame \<Rightarrow> bytes) \<Rightarrow> (bytes \<Rightarrow> Frame option) \<Rightarrow> kv_io \<Rightarrow> nat \<Rightarrow> BlockAddress \<Rightarrow> Store \<Rightarrow> (Error, bytes) result \<times> Store" where
  "peer_pull enc dec io now addr peer =
     (case handle_stream enc dec io now (pull_request enc addr) peer of
        (Inl _, p) \<Rightarrow> (pull_reply dec [], p)
      | (Inr reply, p) \<Rightarrow> (pull_reply dec reply, p))"

definition peer_push ::
  "(Frame \<Rightarrow> bytes) \<Rightarrow> (bytes \<Rightarrow> Frame option) \<Rightarrow> kv_io \<Rightarrow> nat \<Rightarrow> BlockAddress \<Rightarrow> bytes \<Rightarrow> Store \<Rightarrow> (Error, unit) result \<times> Store" where
  "peer_push enc dec io now addr bs peer =
     (case handle_stream enc dec io now (push_request enc addr bs) peer of
        (Inl _, p) \<Rightarrow> (push_reply dec [], p)
      | (Inr reply, p) \<Rightarrow> (push_reply dec reply, p))"

section \<open>gRPC handlers\<close>

record BlockInfo =
  bi_prefix_hash :: bytes
  bi_tier :: int
  bi_size_bytes :: nat
  bi_last_access_unix_ms :: nat

type_synonym PStatus = "int \<times> string"

definition digest_from_bytes :: "bytes \<Rightarrow> (status, bytes) result" where
  "digest_from_bytes b = (if length b \<noteq> 32 then Inl (C_InvalidArgument, ''hash must be 32 bytes'') else Inr b)"

fun tier_to_proto :: "TierKind \<Rightarrow> int" where
  "tier_to_proto Gpu = 1"
| "tier_to_proto Ram = 2"
| "tier_to_proto Ssd = 3"

definition layer0 :: "bytes \<Rightarrow> BlockAddress" where
  "layer0 digest = \<lparr> ba_digest = digest, ba_layer = 0 \<rparr>"

definition info_of :: "bytes \<Rightarrow> BlockHandle \<Rightarrow> BlockInfo" where
  "info_of digest h = \<lparr> bi_prefix_hash = digest, bi_tier = tier_to_proto (bm_tier (bh_meta h)),
     bi_size_bytes = bm_bytes (bh_meta h), bi_last_access_unix_ms = bm_last_seen_unix (bh_meta h) * 1000 \<rparr>"

definition kv_lookup :: "kv_io \<Rightarrow> nat \<Rightarrow> bytes \<Rightarrow> Store \<Rightarrow> (status, BlockInfo) result \<times> Store" where
  "kv_lookup io now value s =
     (case digest_from_bytes value of
        Inl e \<Rightarrow> (Inl e, s)
      | Inr digest \<Rightarrow>
          (case lookup io now (layer0 digest) s of
             (Some h, s1) \<Rightarrow> (Inr (info_of digest h), s1)
           | (None, s1) \<Rightarrow> (Inr \<lparr> bi_prefix_hash = digest, bi_tier = 0, bi_size_bytes = 0,
                              bi_last_access_unix_ms = 0 \<rparr>, s1)))"

fun batch_lookup :: "kv_io \<Rightarrow> nat \<Rightarrow> bytes list \<Rightarrow> Store \<Rightarrow> BlockInfo list \<times> Store" where
  "batch_lookup io now [] s = ([], s)"
| "batch_lookup io now (v # vs) s =
     (case digest_from_bytes v of
        Inl _ \<Rightarrow> batch_lookup io now vs s
      | Inr digest \<Rightarrow>
          let (found, s1) = lookup io now (layer0 digest) s;
              (infos, s2) = batch_lookup io now vs s1
          in (case found of None \<Rightarrow> infos | Some h \<Rightarrow> info_of digest h # infos, s2))"

definition kv_promote :: "kv_io \<Rightarrow> nat \<Rightarrow> bytes \<Rightarrow> Store \<Rightarrow> (status, PStatus) result \<times> Store" where
  "kv_promote io now value s =
     (case digest_from_bytes value of
        Inl e \<Rightarrow> (Inl e, s)
      | Inr digest \<Rightarrow>
          (case lookup_with_promote io now (layer0 digest) s of
             (Some _, s1) \<Rightarrow> (Inr (0, ''promoted''), s1)
           | (None, s1) \<Rightarrow> (Inr (5, ''miss''), s1)))"

definition put_block :: "(Error \<Rightarrow> string) \<Rightarrow> kv_io \<Rightarrow> nat \<Rightarrow> bytes \<Rightarrow> bytes \<Rightarrow> string \<Rightarrow> nat \<Rightarrow> Store \<Rightarrow> (status, PStatus) result \<times> Store" where
  "put_block disp io now prefix_hash payload model layer s =
     (case digest_from_bytes prefix_hash of
        Inl e \<Rightarrow> (Inl e, s)
      | Inr digest \<Rightarrow>
          if payload = [] then (Inr (3, ''empty payload''), s)
          else (case put_ram io now \<lparr> ba_digest = digest, ba_layer = layer \<rparr> payload model s of
                  (Inr _, s1) \<Rightarrow> (Inr (0, ''stored''), s1)
                | (Inl e, s1) \<Rightarrow> (Inr (13, ''put: '' @ disp e), s1)))"

text \<open>\<open>remote\<close> is the result of parsing the endpoint, \<open>send\<close> the call of the peer.\<close>

definition kv_push ::
  "(string \<Rightarrow> string + 'peer) \<Rightarrow> ('peer \<Rightarrow> BlockAddress \<Rightarrow> bytes \<Rightarrow> (Error, unit) result) \<Rightarrow> (Error \<Rightarrow> string) \<Rightarrow>
   nat \<Rightarrow> bytes \<Rightarrow> string \<Rightarrow> Store \<Rightarrow> (status, PStatus) result \<times> Store" where
  "kv_push parse send disp now prefix_hash target_endpoint s =
     (case digest_from_bytes prefix_hash of
        Inl e \<Rightarrow> (Inl e, s)
      | Inr digest \<Rightarrow>
          let addr = layer0 digest; (got, r) = get_bytes now addr (so_ram s); s1 = s\<lparr> so_ram := r \<rparr> in
          (case got of
             None \<Rightarrow> (Inr (5, ''block not resident''), s1)
           | Some bs \<Rightarrow>
               (case parse target_endpoint of
                  Inl e \<Rightarrow> (Inr (3, ''bad target_endpoint: '' @ e), s1)
                | Inr remote \<Rightarrow>
                    (case send remote addr bs of
                       Inr _ \<Rightarrow> (Inr (0, ''pushed''), add_pushed (length bs) s1)
                     | Inl e \<Rightarrow> (Inr (14, ''push: '' @ disp e), s1)))))"

definition kv_pull ::
  "(string \<Rightarrow> string + 'peer) \<Rightarrow> ('peer \<Rightarrow> BlockAddress \<Rightarrow> (Error, bytes) result) \<Rightarrow> (Error \<Rightarrow> string) \<Rightarrow>
   kv_io \<Rightarrow> nat \<Rightarrow> bytes \<Rightarrow> string \<Rightarrow> Store \<Rightarrow> (status, PStatus) result \<times> Store" where
  "kv_pull parse fetch disp io now prefix_hash source_endpoint s =
     (case digest_from_bytes prefix_hash of
        Inl e \<Rightarrow> (Inl e, s)
      | Inr digest \<Rightarrow>
          let addr = layer0 digest in
          (case parse source_endpoint of
             Inl e \<Rightarrow> (Inr (3, ''bad source_endpoint: '' @ e), s)
           | Inr remote \<Rightarrow>
               (case fetch remote addr of
                  Inl e \<Rightarrow> (Inr (14, ''pull: '' @ disp e), s)
                | Inr bs \<Rightarrow>
                    if bs = [] then (Inr (5, ''peer returned empty''), s)
                    else (case put_ram io now addr bs [] s of
                            (Inl e, s1) \<Rightarrow> (Inr (13, ''local insert: '' @ disp e), s1)
                          | (Inr _, s1) \<Rightarrow> (Inr (0, ''pulled''), add_pulled (length bs) s1)))))"

record StatsResponse =
  sr_ram_used_bytes :: nat
  sr_ram_cap_bytes :: nat
  sr_ssd_used_bytes :: nat
  sr_ssd_cap_bytes :: nat
  sr_hot_blocks :: nat
  sr_warm_blocks :: nat
  sr_cold_blocks :: nat
  sr_hits :: nat
  sr_misses :: nat
  sr_evictions :: nat
  sr_bytes_pushed :: nat
  sr_bytes_pulled :: nat

definition kv_stats :: "string list \<Rightarrow> BlockAddress list \<Rightarrow> Store \<Rightarrow> StatsResponse" where
  "kv_stats names listing s =
     (let st = so_stats s in
      \<lparr> sr_ram_used_bytes = rt_used (so_ram s), sr_ram_cap_bytes = rt_capacity (so_ram s),
        sr_ssd_used_bytes = used_bytes names (so_ssd s), sr_ssd_cap_bytes = sd_capacity (so_ssd s), sr_hot_blocks = 0,
        sr_warm_blocks = card (dom (rt_inner (so_ram s))), sr_cold_blocks = cold_block_count listing s,
        sr_hits = ks_hits st, sr_misses = ks_misses st, sr_evictions = ks_evictions st + ks_spills st,
        sr_bytes_pushed = ks_bytes_pushed st, sr_bytes_pulled = ks_bytes_pulled st \<rparr>)"

section \<open>Codec round trips\<close>

text \<open>What bincode documents: a header decodes to what was encoded, and the fixed-width header is
  48 bytes long (variant index, digest, layer, body length).\<close>

definition wf_frame :: "Frame \<Rightarrow> bool" where
  "wf_frame f \<longleftrightarrow> length (ba_digest (fr_addr f)) = 32 \<and> ba_layer (fr_addr f) < 2 ^ 32 \<and> fr_body_len f < 2 ^ 64"

definition frame_codec :: "(Frame \<Rightarrow> bytes) \<Rightarrow> (bytes \<Rightarrow> Frame option) \<Rightarrow> bool" where
  "frame_codec enc dec \<longleftrightarrow> (\<forall>f. wf_frame f \<longrightarrow> dec (enc f) = Some f \<and> length (enc f) = 48)"

lemma of_be_be32: "n < 2 ^ 32 \<Longrightarrow> of_be (be32 n) = n"
proof -
  assume "n < 2 ^ 32"
  have "unat (of_nat (k mod 256) :: u8) = k mod 256" for k :: nat
    by (simp add: unat_of_nat)
  then have "of_be (be32 n) = ((n div 2 ^ 24 mod 256 * 256 + n div 2 ^ 16 mod 256) * 256 + n div 2 ^ 8 mod 256) * 256 + n mod 256"
    by (simp add: of_be_def be32_def)
  also have "\<dots> = n"
  proof -
    define a b c where "a = n div 256" "b = a div 256" "c = b div 256"
    have "n = a * 256 + n mod 256" "a = b * 256 + a mod 256" "b = c * 256 + b mod 256"
      by (simp_all add: a_b_c_def)
    moreover have "n div 2 ^ 8 = a" "n div 2 ^ 16 = b" "n div 2 ^ 24 = c"
      by (simp_all add: a_b_c_def div_mult2_eq [symmetric])
    moreover have "c < 256" using \<open>n < 2 ^ 32\<close> by (simp add: a_b_c_def div_mult2_eq [symmetric] less_mult_imp_div_less)
    ultimately show ?thesis by simp
  qed
  finally show ?thesis .
qed

lemma length_be32 [simp]: "length (be32 n) = 4"
  by (simp add: be32_def)

lemma read_write_frame:
  assumes "frame_codec enc dec" "wf_frame f"
  shows "read_frame dec (write_frame enc f @ rest) = Inr (f, rest)"
proof -
  have e: "dec (enc f) = Some f" "length (enc f) = 48" using assms by (auto simp: frame_codec_def)
  then show ?thesis
    by (simp add: read_frame_def write_frame_def read_exact_def of_be_be32)
qed

lemma read_frame_Nil: "read_frame dec [] = Inl (Internal ''read hdr'')"
  by (simp add: read_frame_def read_exact_def)

lemma wf_frame_fields [simp]: "wf_frame \<lparr> fr_op = x, fr_addr = a, fr_body_len = n \<rparr> \<longleftrightarrow>
    length (ba_digest a) = 32 \<and> ba_layer a < 2 ^ 32 \<and> n < 2 ^ 64"
  by (simp add: wf_frame_def)

definition wf_addr :: "BlockAddress \<Rightarrow> bool" where
  "wf_addr a \<longleftrightarrow> length (ba_digest a) = 32 \<and> ba_layer a < 2 ^ 32"

lemma max_block_lt: "n \<le> MAX_BLOCK_BYTES \<Longrightarrow> n < 2 ^ 64"
  by (simp add: MAX_BLOCK_BYTES_def)

lemma peer_pull_ram:
  assumes "frame_codec enc dec" "wf_addr a" "rt_inner (so_ram peer) a = Some sl"
    and "length (rs_bytes sl) \<le> MAX_BLOCK_BYTES"
  shows "fst (peer_pull enc dec io now a peer) = Inr (rs_bytes sl)"
proof -
  have "read_frame dec (pull_request enc a) = Inr (\<lparr> fr_op = Pull, fr_addr = a, fr_body_len = 0 \<rparr>, [])"
    using read_write_frame [OF assms(1), of "\<lparr> fr_op = Pull, fr_addr = a, fr_body_len = 0 \<rparr>" "[]"] assms(2)
    by (simp add: pull_request_def wf_addr_def)
  moreover have "read_frame dec (write_frame enc \<lparr> fr_op = Push, fr_addr = a, fr_body_len = length (rs_bytes sl) \<rparr> @ rs_bytes sl)
      = Inr (\<lparr> fr_op = Push, fr_addr = a, fr_body_len = length (rs_bytes sl) \<rparr>, rs_bytes sl)"
    using assms(2) max_block_lt [OF assms(4)] by (intro read_write_frame [OF assms(1)]) (simp add: wf_addr_def)
  ultimately show ?thesis
    using assms(3,4) by (auto simp: peer_pull_def handle_stream_def get_bytes_def pull_reply_def read_exact_def Let_def)
qed

lemma peer_push_stores:
  assumes "frame_codec enc dec" "wf_addr a" "length bs < 2 ^ 64"
  shows "if length bs \<le> MAX_BLOCK_BYTES
    then (fst (peer_push enc dec io now a bs peer) = Inr () \<longleftrightarrow> io_index_put io a = None) \<and>
         content (snd (peer_push enc dec io now a bs peer)) = (content peer)(a \<mapsto> bs)
    else (\<exists>e. fst (peer_push enc dec io now a bs peer) = Inl e) \<and> snd (peer_push enc dec io now a bs peer) = peer"
proof -
  let ?f = "\<lparr> fr_op = Push, fr_addr = a, fr_body_len = length bs \<rparr>"
  have req: "read_frame dec (push_request enc a bs) = Inr (?f, bs)"
    unfolding push_request_def using assms(2,3) by (intro read_write_frame [OF assms(1)]) (simp add: wf_addr_def)
  have ack: "read_frame dec (write_frame enc \<lparr> fr_op = Ack, fr_addr = a, fr_body_len = 0 \<rparr>) =
      Inr (\<lparr> fr_op = Ack, fr_addr = a, fr_body_len = 0 \<rparr>, [])"
    using read_write_frame [OF assms(1), of "\<lparr> fr_op = Ack, fr_addr = a, fr_body_len = 0 \<rparr>" "[]"] assms(2)
    by (simp add: wf_addr_def)
  show ?thesis
  proof (cases "length bs \<le> MAX_BLOCK_BYTES")
    case True
    let ?r = "put_ram io now a bs [] (add_pulled (length bs) peer)"
    have "content (snd ?r) = (content peer)(a \<mapsto> bs)"
      unfolding content_put_ram by (simp add: add_pulled_def)
    moreover have "isl (fst ?r) \<longleftrightarrow> io_index_put io a \<noteq> None"
      by (simp add: put_ram_def index_put_def split: option.splits)
    ultimately show ?thesis using True
      by (auto simp: peer_push_def handle_stream_def req push_reply_def ack read_exact_def read_frame_Nil
          split: prod.splits sum.splits)
  next
    case False
    then show ?thesis
      by (simp add: peer_push_def handle_stream_def req push_reply_def read_frame_Nil)
  qed
qed

section \<open>The concrete codec\<close>

text \<open>Fixed-width little-endian fields, as bincode lays out the header.\<close>

fun le_bytes :: "nat \<Rightarrow> nat \<Rightarrow> bytes" where
  "le_bytes 0 v = []"
| "le_bytes (Suc n) v = of_nat (v mod 256) # le_bytes n (v div 256)"

fun of_le :: "bytes \<Rightarrow> nat" where
  "of_le [] = 0"
| "of_le (b # bs) = unat b + 256 * of_le bs"

definition bincode_enc :: "Frame \<Rightarrow> bytes" where
  "bincode_enc f = le_bytes 4 (case fr_op f of Pull \<Rightarrow> 0 | Push \<Rightarrow> 1 | Ack \<Rightarrow> 2) @
     ba_digest (fr_addr f) @ le_bytes 4 (ba_layer (fr_addr f)) @ le_bytes 8 (fr_body_len f)"

definition bincode_dec :: "bytes \<Rightarrow> Frame option" where
  "bincode_dec bs =
     (let k = of_le (take 4 bs) in
      if length bs < 48 \<or> 2 < k then None
      else Some \<lparr> fr_op = (if k = 0 then Pull else if k = 1 then Push else Ack),
             fr_addr = \<lparr> ba_digest = take 32 (drop 4 bs), ba_layer = of_le (take 4 (drop 36 bs)) \<rparr>,
             fr_body_len = of_le (take 8 (drop 40 bs)) \<rparr>)"

lemma length_le_bytes [simp]: "length (le_bytes n v) = n"
  by (induction n arbitrary: v) auto

lemma of_le_le_bytes: "v < 256 ^ n \<Longrightarrow> of_le (le_bytes n v) = v"
proof (induction n arbitrary: v)
  case (Suc n)
  then have "v div 256 < 256 ^ n" by (simp add: less_mult_imp_div_less mult.commute)
  with Suc.IH have "of_le (le_bytes n (v div 256)) = v div 256" by simp
  moreover have "unat (of_nat (v mod 256) :: u8) = v mod 256" by (simp add: unat_of_nat)
  ultimately show ?case by simp
qed simp

lemma bincode_frame_codec: "frame_codec bincode_enc bincode_dec"
proof -
  have "bincode_dec (bincode_enc f) = Some f \<and> length (bincode_enc f) = 48" if "wf_frame f" for f
  proof -
    have w: "length (ba_digest (fr_addr f)) = 32" "ba_layer (fr_addr f) < 256 ^ 4" "fr_body_len f < 256 ^ 8"
      using that by (simp_all add: wf_frame_def)
    let ?k = "case fr_op f of Pull \<Rightarrow> 0 | Push \<Rightarrow> 1 | Ack \<Rightarrow> (2 :: nat)"
    have k: "of_le (le_bytes 4 ?k) = ?k" by (intro of_le_le_bytes) (simp split: Op.splits)
    show ?thesis
      using w k of_le_le_bytes [OF w(2)] of_le_le_bytes [OF w(3)]
      by (cases f; cases "fr_op f") (auto simp: bincode_enc_def bincode_dec_def Let_def)
  qed
  then show ?thesis by (simp add: frame_codec_def)
qed

section \<open>Properties\<close>

text \<open>Frames survive the wire: reading what \<open>write_frame\<close> wrote gives back the frame and
  leaves exactly the bytes after it, for every codec with bincode's documented behaviour.\<close>

lemma frame_round_trip:
  assumes "frame_codec enc dec" and "wf_frame f"
  shows "read_frame dec (write_frame enc f @ rest) = Inr (f, rest)"
  by (rule read_write_frame [OF assms])

lemma frame_round_trip_witness:
  "read_frame bincode_dec (write_frame bincode_enc \<lparr> fr_op = Ack, fr_addr = demo_addr 3, fr_body_len = 7 \<rparr> @ [1]) =
     Inr (\<lparr> fr_op = Ack, fr_addr = demo_addr 3, fr_body_len = 7 \<rparr>, [1])"
  by (rule frame_round_trip [OF bincode_frame_codec]) (simp add: demo_addr_def)

text \<open>C26: Block transfer between two daemons is faithful. A pull handled by the gRPC service stores
  exactly the bytes the peer holds in RAM and touches no other block, and reports success unless the
  local index entry could not be written; a push leaves exactly the pushed bytes at the peer and is
  acknowledged when the peer could write its index entry, and one above the 16 MiB limit fails and
  changes nothing there.\<close>

theorem block_transfer_faithful:
  assumes "frame_codec enc dec" and "wf_addr (layer0 digest)" and "length bs < 2 ^ 64"
    and "rt_inner (so_ram peer) (layer0 digest) = Some sl" and "rs_bytes sl \<noteq> []"
    and "length (rs_bytes sl) \<le> MAX_BLOCK_BYTES" and "parse ep = Inr r"
  shows "(case kv_pull parse (\<lambda>_ a. fst (peer_pull enc dec io now a peer)) disp io' now' digest ep s of
      (res, s') \<Rightarrow> (res = Inr (0, ''pulled'') \<longleftrightarrow> io_index_put io' (layer0 digest) = None) \<and>
        content s' = (content s)(layer0 digest \<mapsto> rs_bytes sl)) \<and>
    (if length bs \<le> MAX_BLOCK_BYTES
     then (fst (peer_push enc dec io now (layer0 digest) bs peer) = Inr () \<longleftrightarrow> io_index_put io (layer0 digest) = None) \<and>
          content (snd (peer_push enc dec io now (layer0 digest) bs peer)) = (content peer)(layer0 digest \<mapsto> bs)
     else (\<exists>e. fst (peer_push enc dec io now (layer0 digest) bs peer) = Inl e) \<and>
          snd (peer_push enc dec io now (layer0 digest) bs peer) = peer)"
proof
  let ?a = "layer0 digest" and ?b = "rs_bytes sl"
  let ?p = "put_ram io' now' ?a ?b [] s"
  have "digest_from_bytes digest = Inr digest"
    using assms(2) by (simp add: digest_from_bytes_def wf_addr_def layer0_def)
  then have "kv_pull parse (\<lambda>_ a. fst (peer_pull enc dec io now a peer)) disp io' now' digest ep s =
      (case ?p of (Inl e, s1) \<Rightarrow> (Inr (13, ''local insert: '' @ disp e), s1)
       | (Inr _, s1) \<Rightarrow> (Inr (0, ''pulled''), add_pulled (length ?b) s1))"
    using peer_pull_ram [OF assms(1,2,4,6)] assms(5,7) by (simp add: kv_pull_def Let_def)
  moreover have "isl (fst ?p) \<longleftrightarrow> io_index_put io' ?a \<noteq> None"
    by (simp add: put_ram_def index_put_def split: option.splits)
  ultimately show "case kv_pull parse (\<lambda>_ a. fst (peer_pull enc dec io now a peer)) disp io' now' digest ep s of
      (res, s') \<Rightarrow> (res = Inr (0, ''pulled'') \<longleftrightarrow> io_index_put io' ?a = None) \<and> content s' = (content s)(?a \<mapsto> ?b)"
    using content_put_ram [of io' now' ?a ?b "[]" s]
    by (auto simp: add_pulled_def split: prod.splits sum.splits)
qed (rule peer_push_stores [OF assms(1-3)])

theorem block_transfer_faithful_witness:
  "fst (kv_pull (\<lambda>_. Inr ()) (\<lambda>_ a. fst (peer_pull bincode_enc bincode_dec demo_io 6 a demo_store)) (display snd) demo_io 7
     (replicate 32 1) ''10.0.0.2:7072'' (store_open 1 1 Map.empty)) = Inr (0, ''pulled'')"
proof -
  have a: "layer0 (replicate 32 1) = demo_addr 1" by (simp add: layer0_def demo_addr_def)
  have ram: "rt_inner (so_ram demo_store) (layer0 (replicate 32 1)) = Some \<lparr> rs_bytes = [9, 9], rs_last = 5 \<rparr>"
    by (simp add: a demo_store_def put_ram_def)
  have wf: "wf_addr (layer0 (replicate 32 1))" by (simp add: wf_addr_def layer0_def)
  have put: "io_index_put demo_io (layer0 (replicate 32 1)) = None" by (simp add: demo_io_def)
  show ?thesis
    using block_transfer_faithful [OF bincode_frame_codec wf _ ram, where bs = "[]" and parse = "\<lambda>_. Inr ()"
        and ep = "''10.0.0.2:7072''" and r = "()" and now = 6 and disp = "display snd" and io = demo_io and io' = demo_io
        and now' = 7 and s = "store_open 1 1 Map.empty"] put
    by (auto simp: MAX_BLOCK_BYTES_def split: prod.splits)
qed

text \<open>\<open>put_block\<close> stores a block under the layer of the request, every other handler addresses layer
  0: a block stored for another layer is not found again.\<close>

lemma put_block_layer_unreachable:
  assumes "length digest = 32" "payload \<noteq> []" "layer \<noteq> 0"
    and "rt_inner (so_ram s) (layer0 digest) = None" "so_index s (layer0 digest) = None"
  shows "fst (lookup io' now' (layer0 digest) (snd (put_block disp io now digest payload m layer s))) = None"
  using assms
  by (auto simp: put_block_def digest_from_bytes_def lookup_def ram_get_def put_ram_def index_put_def index_get_def
      layer0_def split: option.splits)

text \<open>A pull is answered from RAM only: a block that was spilled to SSD is reported as absent.\<close>

lemma pull_misses_cold_block:
  assumes "frame_codec enc dec" "wf_addr a" "rt_inner (so_ram peer) a = None"
  shows "fst (peer_pull enc dec io now a peer) = Inr []"
proof -
  have "read_frame dec (pull_request enc a) = Inr (\<lparr> fr_op = Pull, fr_addr = a, fr_body_len = 0 \<rparr>, [])"
    "read_frame dec (write_frame enc \<lparr> fr_op = Push, fr_addr = a, fr_body_len = 0 \<rparr>) =
       Inr (\<lparr> fr_op = Push, fr_addr = a, fr_body_len = 0 \<rparr>, [])"
    using read_write_frame [OF assms(1), of _ "[]"] assms(2) by (simp_all add: pull_request_def wf_addr_def)
  with assms(3) show ?thesis
    by (simp add: peer_pull_def handle_stream_def get_bytes_def pull_reply_def Let_def)
qed

end
