(* ===== verification/Cgn_Auth.thy ===== *)
theory Cgn_Auth
  imports Cgn_Text Cgn_Error
begin

text \<open>
  Authentication (\<open>cgn-auth\<close>): principals and the policies their scopes carry, the hashed
  API-key store with its file format and reload, the OIDC verifier, and the middleware that
  turns a bearer token into a principal; with the key management of \<open>cgn-ctl key\<close>, which
  writes the same file. SHA-256 is the parameter \<open>sha\<close>; JWT decoding and the network
  exchanges of the verifier are parameters too.
\<close>

section \<open>Principals\<close>

datatype PrincipalKind = ApiKey | Oidc | Anonymous

record Principal =
  pr_subject :: string
  pr_scopes :: "string list"
  pr_kind :: PrincipalKind

definition anonymous :: Principal where
  "anonymous = \<lparr>pr_subject = ''anonymous'', pr_scopes = [], pr_kind = Anonymous\<rparr>"

definition has_scope :: "Principal \<Rightarrow> string \<Rightarrow> bool" where
  "has_scope p scope \<longleftrightarrow> list_ex (\<lambda>s. s = scope \<or> s = ''*'') (pr_scopes p)"

definition model_hit :: "string \<Rightarrow> string \<Rightarrow> bool" where
  "model_hit model pat =
     (case strip_suffix_char (CHR ''*'') pat of
        Some pre \<Rightarrow> starts_with pre model
      | None \<Rightarrow> pat = model)"

fun allows_model_loop :: "string \<Rightarrow> bool \<Rightarrow> string list \<Rightarrow> bool option" where
  "allows_model_loop model restricted [] = (if restricted then None else Some True)"
| "allows_model_loop model restricted (s # ss) =
     (case strip_prefix ''model:'' s of
        None \<Rightarrow> allows_model_loop model restricted ss
      | Some pat \<Rightarrow> if model_hit model pat then Some True else allows_model_loop model True ss)"

definition allows_model :: "Principal \<Rightarrow> string \<Rightarrow> bool" where
  "allows_model p model =
     (case allows_model_loop model False (pr_scopes p) of
        Some b \<Rightarrow> b
      | None \<Rightarrow> has_scope p ''*'')"

definition tenant :: "Principal \<Rightarrow> string" where
  "tenant p =
     (if pr_kind p = Anonymous then []
      else case find_map (strip_prefix ''tenant:'') (pr_scopes p) of
             Some t \<Rightarrow> t
           | None \<Rightarrow> pr_subject p)"

definition U32_MAX :: nat where "U32_MAX = 4294967295"
definition U64_MAX :: nat where "U64_MAX = 18446744073709551615"

definition limit :: "Principal \<Rightarrow> string \<Rightarrow> nat option" where
  "limit p name =
     find_map (\<lambda>s. do { r \<leftarrow> strip_prefix name s; d \<leftarrow> strip_prefix '':'' r; parse_dec U64_MAX d })
       (pr_scopes p)"

section \<open>The API-key store\<close>

type_synonym KeyStore = "bytes \<rightharpoonup> string list"

definition is_ascii_hexdigit :: "char \<Rightarrow> bool" where
  "is_ascii_hexdigit c \<longleftrightarrow> hex_digit c \<noteq> None"

definition is_hex64 :: "string \<Rightarrow> bool" where
  "is_hex64 token \<longleftrightarrow> length token = 64 \<and> list_all is_ascii_hexdigit token"

definition key_line :: "string \<Rightarrow> string" where
  "key_line raw = trim (hd (split_on (CHR ''#'') raw))"

definition parse_scopes :: "string \<Rightarrow> string list" where
  "parse_scopes s = filter (\<lambda>x. x \<noteq> []) (map trim (split_on (CHR '','') s))"

definition key_digest :: "(bytes \<Rightarrow> bytes) \<Rightarrow> nat \<Rightarrow> string \<Rightarrow> (Error, bytes) result" where
  "key_digest sha lineno token =
     (if is_hex64 token
      then case hex_pairs token of
             None \<Rightarrow> Inl (Config (''api keys line '' @ show_nat (lineno + 1) @ '': hex''))
           | Some d \<Rightarrow> Inr d
      else Inr (sha (str_bytes token)))"

fun parse_lines :: "(bytes \<Rightarrow> bytes) \<Rightarrow> nat \<Rightarrow> KeyStore \<Rightarrow> string list \<Rightarrow> (Error, KeyStore) result" where
  "parse_lines sha lineno out [] = Inr out"
| "parse_lines sha lineno out (raw # rest) =
     (let line = key_line raw in
      if line = [] then parse_lines sha (lineno + 1) out rest
      else case split_whitespace line of
             [] \<Rightarrow> Inl (Config (''api keys line '' @ show_nat (lineno + 1) @ '': empty''))
           | token # it \<Rightarrow>
               let scopes = (case it of [] \<Rightarrow> [] | s # _ \<Rightarrow> parse_scopes s)
               in case key_digest sha lineno token of
                    Inl e \<Rightarrow> Inl e
                  | Inr digest \<Rightarrow> parse_lines sha (lineno + 1) (out(digest \<mapsto> scopes)) rest)"

definition parse_keys :: "(bytes \<Rightarrow> bytes) \<Rightarrow> string \<Rightarrow> (Error, KeyStore) result" where
  "parse_keys sha txt = parse_lines sha 0 (\<lambda>_. None) (lines txt)"

record ApiKeyStore =
  ks_inner :: KeyStore
  ks_path :: "string option"

definition keys_empty :: ApiKeyStore where
  "keys_empty = \<lparr>ks_inner = (\<lambda>_. None), ks_path = None\<rparr>"

text \<open>\<open>read\<close> is \<open>std::fs::read_to_string\<close>: the text of a file, or the error it prints.\<close>

definition from_file ::
  "(bytes \<Rightarrow> bytes) \<Rightarrow> (string \<Rightarrow> (string, string) result) \<Rightarrow> string \<Rightarrow> (Error, ApiKeyStore) result" where
  "from_file sha read path =
     (case read path of
        Inl e \<Rightarrow> Inl (Config (''api keys file: '' @ e))
      | Inr txt \<Rightarrow>
          (case parse_keys sha txt of
             Inl e \<Rightarrow> Inl e
           | Inr store \<Rightarrow> Inr \<lparr>ks_inner = store, ks_path = Some path\<rparr>))"

definition reload ::
  "(bytes \<Rightarrow> bytes) \<Rightarrow> (string \<Rightarrow> (string, string) result) \<Rightarrow> ApiKeyStore
     \<Rightarrow> (Error, unit) result \<times> ApiKeyStore" where
  "reload sha read ks =
     (case ks_path ks of
        None \<Rightarrow> (Inr (), ks)
      | Some path \<Rightarrow>
          (case read path of
             Inl e \<Rightarrow> (Inl (Config (''api keys file: '' @ e)), ks)
           | Inr txt \<Rightarrow>
               (case parse_keys sha txt of
                  Inl e \<Rightarrow> (Inl e, ks)
                | Inr store \<Rightarrow> (Inr (), ks\<lparr>ks_inner := store\<rparr>))))"

definition check_key :: "(bytes \<Rightarrow> bytes) \<Rightarrow> ApiKeyStore \<Rightarrow> string \<Rightarrow> Principal option" where
  "check_key sha ks presented =
     (let digest = sha (str_bytes presented)
      in do { scopes \<leftarrow> ks_inner ks digest;
              Some \<lparr>pr_subject = ''apikey:'' @ short digest, pr_scopes = scopes, pr_kind = ApiKey\<rparr> })"

section \<open>Key management (\<open>cgn-ctl key\<close>)\<close>

definition sha_hex :: "(bytes \<Rightarrow> bytes) \<Rightarrow> bytes \<Rightarrow> string" where
  "sha_hex sha input = hex_string (sha input)"

text \<open>The file is its text; a file that does not exist is created empty. \<open>uuid\<close> is the
  simple form of a fresh UUID.\<close>

definition create :: "(bytes \<Rightarrow> bytes) \<Rightarrow> string \<Rightarrow> string \<Rightarrow> string \<Rightarrow> string \<times> string" where
  "create sha uuid scopes file =
     (let secret = ''cgn-'' @ uuid;
          line = sha_hex sha (str_bytes secret) @ '' '' @ scopes @ [NL]
      in (secret, file @ line))"

definition first_word :: "string \<Rightarrow> string" where
  "first_word l = (case split_whitespace l of [] \<Rightarrow> [] | w # _ \<Rightarrow> w)"

definition revoke :: "string \<Rightarrow> string \<Rightarrow> string" where
  "revoke sha txt =
     (let needle = to_ascii_lowercase sha;
          kept = filter (\<lambda>l. \<not> starts_with needle (first_word l)) (lines txt)
      in join_nl kept)"

definition lock_line :: "(bytes \<Rightarrow> bytes) \<Rightarrow> string \<Rightarrow> string" where
  "lock_line sha line =
     (case split_whitespace line of
        [] \<Rightarrow> []
      | token # parts \<Rightarrow>
          let scopes = (case parts of [] \<Rightarrow> [] | s # _ \<Rightarrow> s)
          in if is_hex64 token then line
             else sha_hex sha (str_bytes token) @ '' '' @ scopes)"

definition lock :: "(bytes \<Rightarrow> bytes) \<Rightarrow> string \<Rightarrow> string" where
  "lock sha txt = unlines (map (lock_line sha) (lines txt))"

section \<open>OIDC\<close>

datatype json =
    JNull
  | JBool bool
  | JUint nat
  | JNumber string
  | JString string
  | JArray "json list"
  | JObject "(string \<times> json) list"

datatype Algorithm = RS256 | RS384 | RS512 | ES256 | ES384

record Jwk =
  jwk_kid :: string
  jwk_alg :: "string option"
  jwk_n :: "string option"
  jwk_e :: "string option"
  jwk_x :: "string option"
  jwk_y :: "string option"
  jwk_kty :: string

record 'k JwkEntry =
  je_kid :: string
  je_alg :: Algorithm
  je_key :: 'k

record 'k OidcVerifier =
  ov_issuer :: string
  ov_audience :: "string option"
  ov_group_to_scope :: "(string \<times> string) list option"
  ov_groups_claim :: string
  ov_jwks :: "'k JwkEntry list"
  ov_refresh :: instant

record Claims =
  cm_sub :: string
  cm_scope :: "string option"
  cm_extra :: "string \<rightharpoonup> json"

text \<open>\<open>jsonwebtoken\<close>: key construction, the token header's key id, and the verification of a
  token under a key, an algorithm, an issuer and an audience.\<close>

record 'k jwt_lib =
  from_rsa_components :: "string \<Rightarrow> string \<Rightarrow> 'k option"
  from_ec_components :: "string \<Rightarrow> string \<Rightarrow> 'k option"
  decode_header :: "string \<Rightarrow> (string, string option) result"
  decode :: "Algorithm \<Rightarrow> string \<Rightarrow> string option \<Rightarrow> 'k \<Rightarrow> string \<Rightarrow> (string, Claims) result"

definition KID_MISS_COOLDOWN :: duration where "KID_MISS_COOLDOWN = 30000"

definition jwk_algorithm :: "string option \<Rightarrow> Algorithm option" where
  "jwk_algorithm a =
     (if a = Some ''RS256'' then Some RS256
      else if a = Some ''RS384'' then Some RS384
      else if a = Some ''RS512'' then Some RS512
      else if a = Some ''ES256'' then Some ES256
      else if a = Some ''ES384'' then Some ES384
      else None)"

definition build_entry :: "'k jwt_lib \<Rightarrow> Jwk \<Rightarrow> 'k JwkEntry option" where
  "build_entry lib k =
     do { alg \<leftarrow> jwk_algorithm (jwk_alg k);
          key \<leftarrow>
            (if jwk_kty k = ''RSA''
             then do { n \<leftarrow> jwk_n k; e \<leftarrow> jwk_e k; from_rsa_components lib n e }
             else if jwk_kty k = ''EC''
             then do { x \<leftarrow> jwk_x k; y \<leftarrow> jwk_y k; from_ec_components lib x y }
             else None);
          Some \<lparr>je_kid = jwk_kid k, je_alg = alg, je_key = key\<rparr> }"

definition json_str :: "json \<Rightarrow> string option" where
  "json_str v = (case v of JString s \<Rightarrow> Some s | _ \<Rightarrow> None)"

definition extract_groups :: "(string \<rightharpoonup> json) \<Rightarrow> string \<Rightarrow> string list" where
  "extract_groups extra claim =
     (case extra claim of
        None \<Rightarrow> []
      | Some v \<Rightarrow>
          (case v of
             JArray arr \<Rightarrow> List.map_filter json_str arr
           | JString s \<Rightarrow> split_whitespace s
           | _ \<Rightarrow> []))"

text \<open>The group scopes are appended in the order of the mapping, each once.\<close>

fun add_group_scopes :: "string list \<Rightarrow> (string \<times> string) list \<Rightarrow> string list \<Rightarrow> string list" where
  "add_group_scopes groups [] scopes = scopes"
| "add_group_scopes groups ((g, s) # mapping) scopes =
     add_group_scopes groups mapping
       (if g \<in> set groups \<and> s \<notin> set scopes then scopes @ [s] else scopes)"

definition discovery_url :: "string \<Rightarrow> string" where
  "discovery_url issuer =
     rev (dropWhile (\<lambda>c. c = CHR ''/'') (rev issuer)) @ ''/.well-known/openid-configuration''"

text \<open>\<open>fetch\<close> is the exchange with the issuer: the discovery document at the given URL and then
  the key set it names.\<close>

definition refresh_jwks ::
  "'k jwt_lib \<Rightarrow> (string \<Rightarrow> (Error, Jwk list) result) \<Rightarrow> instant \<Rightarrow> 'k OidcVerifier
     \<Rightarrow> (Error, 'k OidcVerifier) result" where
  "refresh_jwks lib fetch now v =
     (case fetch (discovery_url (ov_issuer v)) of
        Inl e \<Rightarrow> Inl e
      | Inr keys \<Rightarrow> Inr (v\<lparr>ov_jwks := List.map_filter (build_entry lib) keys, ov_refresh := now\<rparr>))"

definition may_refresh_on_miss :: "instant \<Rightarrow> 'k OidcVerifier \<Rightarrow> bool \<times> 'k OidcVerifier" where
  "may_refresh_on_miss now v =
     (if now - ov_refresh v < KID_MISS_COOLDOWN then (False, v)
      else (True, v\<lparr>ov_refresh := now\<rparr>))"

definition hourly_refresh ::
  "'k jwt_lib \<Rightarrow> (string \<Rightarrow> (Error, Jwk list) result) \<Rightarrow> instant \<Rightarrow> 'k OidcVerifier
     \<Rightarrow> (Error, 'k OidcVerifier) result" where
  "hourly_refresh lib fetch now v =
     (if ov_jwks v = [] \<or> 3600000 < now - ov_refresh v then refresh_jwks lib fetch now v else Inr v)"

definition miss_refresh ::
  "'k jwt_lib \<Rightarrow> (string \<Rightarrow> (Error, Jwk list) result) \<Rightarrow> instant \<Rightarrow> string \<Rightarrow> 'k OidcVerifier
     \<Rightarrow> (Error, unit) result \<times> 'k OidcVerifier" where
  "miss_refresh lib fetch now kid v =
     (if kid \<in> je_kid ` set (ov_jwks v) then (Inr (), v)
      else let (may, v') = may_refresh_on_miss now v
           in if may then (case refresh_jwks lib fetch now v' of
                             Inl e \<Rightarrow> (Inl e, v')
                           | Inr v'' \<Rightarrow> (Inr (), v''))
              else (Inr (), v'))"

definition claims_principal :: "'k OidcVerifier \<Rightarrow> Claims \<Rightarrow> Principal" where
  "claims_principal v c =
     (let scopes = (case cm_scope c of None \<Rightarrow> [] | Some s \<Rightarrow> split_whitespace s);
          scopes' = (case ov_group_to_scope v of
                       None \<Rightarrow> scopes
                     | Some m \<Rightarrow> add_group_scopes (extract_groups (cm_extra c) (ov_groups_claim v)) m scopes)
      in \<lparr>pr_subject = cm_sub c, pr_scopes = scopes', pr_kind = Oidc\<rparr>)"

definition verify ::
  "'k jwt_lib \<Rightarrow> (string \<Rightarrow> (Error, Jwk list) result) \<Rightarrow> instant \<Rightarrow> string \<Rightarrow> 'k OidcVerifier
     \<Rightarrow> (Error, Principal) result \<times> 'k OidcVerifier" where
  "verify lib fetch now token v =
     (case hourly_refresh lib fetch now v of
        Inl e \<Rightarrow> (Inl e, v)
      | Inr v1 \<Rightarrow>
          (case decode_header lib token of
             Inl e \<Rightarrow> (Inl (InvalidArgument (''oidc header: '' @ e)), v1)
           | Inr None \<Rightarrow> (Inl (InvalidArgument ''oidc: no kid''), v1)
           | Inr (Some kid) \<Rightarrow>
               (case miss_refresh lib fetch now kid v1 of
                  (Inl e, v2) \<Rightarrow> (Inl e, v2)
                | (Inr _, v2) \<Rightarrow>
                    (case List.find (\<lambda>k. je_kid k = kid) (ov_jwks v2) of
                       None \<Rightarrow> (Inl (InvalidArgument (''oidc: kid '' @ kid @ '' not in jwks'')), v2)
                     | Some entry \<Rightarrow>
                         (case decode lib (je_alg entry) (ov_issuer v2) (ov_audience v2) (je_key entry) token of
                            Inl e \<Rightarrow> (Inl (InvalidArgument (''oidc verify: '' @ e)), v2)
                          | Inr c \<Rightarrow> (Inr (claims_principal v2 c), v2))))))"

section \<open>The middleware\<close>

record 'k AuthState =
  au_api_keys :: "ApiKeyStore option"
  au_oidc :: "'k OidcVerifier option"
  au_required :: bool

definition bearer :: "string option \<Rightarrow> string option" where
  "bearer header = do { h \<leftarrow> header; t \<leftarrow> strip_prefix ''Bearer '' h; Some (trim t) }"

definition auth_oidc ::
  "'k jwt_lib \<Rightarrow> (string \<Rightarrow> (Error, Jwk list) result) \<Rightarrow> instant \<Rightarrow> string \<Rightarrow> 'k AuthState
     \<Rightarrow> Principal option \<times> 'k AuthState" where
  "auth_oidc lib fetch now token st =
     (case au_oidc st of
        None \<Rightarrow> (None, st)
      | Some v \<Rightarrow>
          (case verify lib fetch now token v of
             (Inr p, v') \<Rightarrow> (Some p, st\<lparr>au_oidc := Some v'\<rparr>)
           | (Inl _, v') \<Rightarrow> (None, st\<lparr>au_oidc := Some v'\<rparr>)))"

definition authenticate ::
  "(bytes \<Rightarrow> bytes) \<Rightarrow> 'k jwt_lib \<Rightarrow> (string \<Rightarrow> (Error, Jwk list) result) \<Rightarrow> instant \<Rightarrow> string option
     \<Rightarrow> 'k AuthState \<Rightarrow> Principal option \<times> 'k AuthState" where
  "authenticate sha lib fetch now presented st =
     (case presented of
        None \<Rightarrow> (None, st)
      | Some token \<Rightarrow>
          (case Option.bind (au_api_keys st) (\<lambda>keys. check_key sha keys token) of
             Some p \<Rightarrow> (Some p, st)
           | None \<Rightarrow> auth_oidc lib fetch now token st))"

text \<open>\<open>None\<close> is the 401 response; \<open>Some p\<close> passes the request on with \<open>p\<close> attached.\<close>

definition auth_middleware ::
  "(bytes \<Rightarrow> bytes) \<Rightarrow> 'k jwt_lib \<Rightarrow> (string \<Rightarrow> (Error, Jwk list) result) \<Rightarrow> instant \<Rightarrow> string option
     \<Rightarrow> 'k AuthState \<Rightarrow> Principal option \<times> 'k AuthState" where
  "auth_middleware sha lib fetch now header st =
     (case authenticate sha lib fetch now (bearer header) st of
        (None, st') \<Rightarrow> (if au_required st' then None else Some anonymous, st')
      | (Some p, st') \<Rightarrow> (Some p, st'))"

end
