(* ===== verification/Cgn_Auth_Props.thy ===== *)
theory Cgn_Auth_Props
  imports Cgn_Auth
begin

text \<open>
  Correctness of authentication: the key file always parses to a well-typed store, the file
  operations of \<open>cgn-ctl key\<close> do to the store what they are for (with two cases in which they
  do not), and a request that passes the middleware of a gateway that requires credentials
  carries one that was verified.
\<close>

section \<open>What a line of the key file means\<close>

definition sha_ok :: "(bytes \<Rightarrow> bytes) \<Rightarrow> bool" where
  "sha_ok sha \<longleftrightarrow> (\<forall>x. length (sha x) = 32)"

lemma sha_ok_not_Nil: "sha_ok sha \<Longrightarrow> sha x \<noteq> []"
  unfolding sha_ok_def by (metis list.size(3) zero_neq_numeral)

lemma hex_string_eq_Nil [simp]: "hex_string bs = [] \<longleftrightarrow> bs = []"
  by (cases bs) (simp_all add: hex_string_def hex_byte_def)

definition digest_of :: "(bytes \<Rightarrow> bytes) \<Rightarrow> string \<Rightarrow> bytes" where
  "digest_of sha token = (if is_hex64 token then the (hex_pairs token) else sha (str_bytes token))"

definition scopes_of :: "string list \<Rightarrow> string list" where
  "scopes_of it = (case it of [] \<Rightarrow> [] | s # _ \<Rightarrow> parse_scopes s)"

definition add_words :: "(bytes \<Rightarrow> bytes) \<Rightarrow> KeyStore \<Rightarrow> string list \<Rightarrow> KeyStore" where
  "add_words sha st ws = (case ws of [] \<Rightarrow> st | t # it \<Rightarrow> st(digest_of sha t \<mapsto> scopes_of it))"

lemma add_words_simps [simp]:
  "add_words sha st [] = st" "add_words sha st (t # it) = st(digest_of sha t \<mapsto> scopes_of it)"
  by (simp_all add: add_words_def)

definition line_words :: "string \<Rightarrow> string list" where
  "line_words raw = split_whitespace (hd (split_on (CHR ''#'') raw))"

definition store_of :: "(bytes \<Rightarrow> bytes) \<Rightarrow> string list \<Rightarrow> KeyStore" where
  "store_of sha ls = foldl (add_words sha) (\<lambda>_. None) (map line_words ls)"

lemma hex_pairs_total:
  "list_all is_ascii_hexdigit s \<Longrightarrow> even (length s) \<Longrightarrow> \<exists>bs. hex_pairs s = Some bs \<and> 2 * length bs = length s"
proof (induction s rule: hex_pairs.induct)
  case (3 a b r)
  then obtain x y where d: "hex_digit a = Some x" "hex_digit b = Some y"
    by (auto simp: is_ascii_hexdigit_def)
  have lt: "u < 16" if "hex_digit c = Some u" for c u
    using that by (auto simp: hex_digit_def Let_def split: if_splits)
  have plus: "a \<noteq> CHR ''+''" using d(1) by (auto simp: hex_digit_def)
  have "from_str_radix16 255 [a, b] = Some (x * 16 + y)"
    using lt [OF d(1)] lt [OF d(2)] plus d by (simp add: from_str_radix16_def parse_unsigned_def)
  with 3 show ?case by auto
qed simp_all

lemma hex64_digest:
  assumes "is_hex64 t"
  obtains d where "hex_pairs t = Some d" "length d = 32"
  using hex_pairs_total [of t] assms by (auto simp: is_hex64_def)

lemma key_digest_of: "key_digest sha n t = Inr (digest_of sha t)"
proof (cases "is_hex64 t")
  case True
  then obtain d where "hex_pairs t = Some d" by (rule hex64_digest)
  with True show ?thesis by (simp add: key_digest_def digest_of_def)
qed (simp add: key_digest_def digest_of_def)

lemma length_digest_of: "sha_ok sha \<Longrightarrow> length (digest_of sha t) = 32"
  by (cases "is_hex64 t") (auto simp: digest_of_def sha_ok_def elim: hex64_digest)

lemma key_line_words: "split_whitespace (key_line raw) = line_words raw" "key_line raw = [] \<longleftrightarrow> line_words raw = []"
  by (simp_all add: key_line_def line_words_def split_ws_eq_Nil)

lemma parse_lines_fold: "parse_lines sha n out ls = Inr (foldl (add_words sha) out (map line_words ls))"
proof (induction ls arbitrary: n out)
  case (Cons raw ls)
  show ?case
  proof (cases "line_words raw")
    case Nil
    with Cons show ?thesis by (simp add: key_line_words Let_def)
  next
    case (Cons t it)
    with Cons.IH show ?thesis
      by (simp add: key_line_words Let_def key_digest_of fun_upd_def flip: scopes_of_def)
  qed
qed simp

lemma parse_keys_store: "parse_keys sha txt = Inr (store_of sha (lines txt))"
  by (simp add: parse_keys_def parse_lines_fold store_of_def)

lemma store_of_Nil [simp]: "store_of sha [] = (\<lambda>_. None)"
  by (simp add: store_of_def)

lemma store_of_snoc: "store_of sha (ls @ [l]) = add_words sha (store_of sha ls) (line_words l)"
  by (simp add: store_of_def)

lemma store_of_dom: "d \<in> dom (store_of sha ls) \<longleftrightarrow> (\<exists>l \<in> set ls. line_words l \<noteq> [] \<and> d = digest_of sha (hd (line_words l)))"
  by (induction ls rule: rev_induct) (auto simp: store_of_snoc add_words_def split: list.splits)

lemma parse_scopes_clean: "s \<in> set (parse_scopes t) \<Longrightarrow> s \<noteq> [] \<and> CHR '','' \<notin> set s"
proof -
  assume "s \<in> set (parse_scopes t)"
  then obtain p where p: "p \<in> set (split_on (CHR '','') t)" "s = trim p" "s \<noteq> []"
    by (auto simp: parse_scopes_def)
  have "set (trim p) \<subseteq> set p" unfolding trim_def by (metis set_dropWhileD set_rev subsetI)
  with p split_on_sep_free [OF p(1)] show ?thesis by auto
qed

lemma store_of_scopes: "store_of sha ls d = Some ss \<Longrightarrow> s \<in> set ss \<Longrightarrow> s \<noteq> [] \<and> CHR '','' \<notin> set s"
proof (induction ls rule: rev_induct)
  case (snoc l ls)
  then show ?case
    by (auto simp: store_of_snoc add_words_def scopes_of_def dest: parse_scopes_clean
        split: list.splits if_splits)
qed simp

text \<open>C32: Loading a key file never fails, whatever the file holds, and the store it gives is
  well typed: every key is a 32-byte digest, and every scope is a non-empty string without a
  comma.\<close>

theorem key_file_well_typed:
  assumes "sha_ok sha"
  shows "\<exists>st. parse_keys sha txt = Inr st \<and>
    (\<forall>d ss. st d = Some ss \<longrightarrow> length d = 32 \<and> list_all (\<lambda>s. s \<noteq> [] \<and> CHR '','' \<notin> set s) ss)"
proof -
  have "length d = 32 \<and> list_all (\<lambda>s. s \<noteq> [] \<and> CHR '','' \<notin> set s) ss"
    if "store_of sha (lines txt) d = Some ss" for d ss
  proof
    have "d \<in> dom (store_of sha (lines txt))" using that by blast
    then show "length d = 32" using length_digest_of [OF assms] by (auto simp: store_of_dom)
    show "list_all (\<lambda>s. s \<noteq> [] \<and> CHR '','' \<notin> set s) ss"
      using store_of_scopes [OF that] by (auto simp: list_all_iff)
  qed
  then show ?thesis by (auto simp: parse_keys_store)
qed

definition toy_sha :: "bytes \<Rightarrow> bytes" where
  "toy_sha bs = take 32 (bs @ replicate 32 0)"

lemma toy_sha_ok: "sha_ok toy_sha"
  by (auto simp: sha_ok_def toy_sha_def min_def)

theorem key_file_well_typed_witness:
  "\<exists>st. parse_keys toy_sha ''k chat,,x'' = Inr st \<and>
    (\<forall>d ss. st d = Some ss \<longrightarrow> length d = 32 \<and> list_all (\<lambda>s. s \<noteq> [] \<and> CHR '','' \<notin> set s) ss)"
  by (rule key_file_well_typed [OF toy_sha_ok])

section \<open>Creating a key\<close>

lemma hex_string_word: "bs \<noteq> [] \<Longrightarrow> word_like (hex_string bs)" and
  hex_string_no_hash: "CHR ''#'' \<notin> set (hex_string bs)"
proof -
  have *: "\<not> is_space (HEX ! i) \<and> HEX ! i \<noteq> CHR ''#''" if "i < 16" for i
    using lt16_cases [OF that] by (auto simp: HEX_def is_space_def)
  have **: "\<not> is_space c \<and> c \<noteq> CHR ''#''" if "c \<in> set (hex_string bs)" for c
    using that * nibbles_lt by (auto simp: hex_string_def hex_byte_def)
  then show "CHR ''#'' \<notin> set (hex_string bs)" by blast
  show "word_like (hex_string bs)" if "bs \<noteq> []"
    using that ** by (auto simp: word_like_def)
qed

lemma hex_string_hex64: "length d = 32 \<Longrightarrow> is_hex64 (hex_string d)"
proof -
  have "is_ascii_hexdigit (HEX ! i)" if "i < 16" for i
    using hex_digit_HEX [OF that] by (simp add: is_ascii_hexdigit_def)
  then have "list_all is_ascii_hexdigit (hex_string d)"
    using nibbles_lt by (auto simp: list_all_iff hex_string_def hex_byte_def)
  then show "length d = 32 \<Longrightarrow> is_hex64 (hex_string d)" by (simp add: is_hex64_def)
qed

lemma digest_of_hex: "length d = 32 \<Longrightarrow> digest_of sha (hex_string d) = d"
  by (simp add: digest_of_def hex_string_hex64 hex_pairs_hex_string)

definition clean_scopes :: "string \<Rightarrow> bool" where
  "clean_scopes s \<longleftrightarrow> word_like s \<and> CHR ''#'' \<notin> set s"

lemma no_hash_words: "CHR ''#'' \<notin> set raw \<Longrightarrow> line_words raw = split_whitespace raw"
  by (simp add: line_words_def split_on_single)

lemma word_no_NL: "word_like w \<Longrightarrow> NL \<notin> set w"
  using is_space_NL(1) unfolding word_like_def by blast

lemma hashed_line_words:
  assumes "length d = 32" and "clean_scopes s"
  shows "line_words (hex_string d @ '' '' @ s) = [hex_string d, s]"
proof -
  have "word_like (hex_string d)" using assms(1) by (intro hex_string_word) auto
  moreover have "CHR ''#'' \<notin> set (hex_string d @ '' '' @ s)"
    using assms(2) by (simp add: clean_scopes_def hex_string_no_hash)
  ultimately show ?thesis
    using assms(2) by (simp add: no_hash_words split_ws_append split_ws_word clean_scopes_def)
qed

lemma create_store:
  assumes "sha_ok sha" and "ends_line file" and "clean_scopes scopes"
    and "create sha uuid scopes file = (secret, file')"
  shows "store_of sha (lines file') =
    (store_of sha (lines file))(sha (str_bytes secret) \<mapsto> parse_scopes scopes)"
proof -
  let ?d = "sha (str_bytes secret)"
  let ?l = "hex_string ?d @ '' '' @ scopes"
  have len: "length ?d = 32" using assms(1) by (simp add: sha_ok_def)
  have file': "file' = file @ ?l @ [NL]"
    using assms(4) by (auto simp: create_def sha_hex_def Let_def)
  have w: "word_like (hex_string ?d)" using len by (intro hex_string_word) auto
  have nl: "NL \<notin> set ?l" using word_no_NL [OF w] word_no_NL [of scopes] assms(3)
    by (simp add: clean_scopes_def)
  have cr: "strip_cr ?l = ?l"
    using strip_cr_word [of scopes "hex_string ?d @ '' ''"] assms(3) by (simp add: clean_scopes_def)
  have "lines file' = lines file @ [?l]"
    using lines_append [OF assms(2), of "?l @ [NL]"] lines_step [OF nl, of "[]"] cr
    by (simp add: file')
  then show ?thesis
    using digest_of_hex [OF len] hashed_line_words [OF len assms(3)]
    by (simp add: store_of_snoc scopes_of_def)
qed

text \<open>C33: A key that \<open>cgn-ctl key create\<close> printed is accepted once the file is loaded: appended to
  a file whose last line is complete, the bearer token authenticates with exactly the scopes
  it was created with, under a subject derived from its digest alone, and every other
  credential of the file keeps its meaning.\<close>

theorem created_key_authenticates:
  assumes "sha_ok sha" and "ends_line file" and "clean_scopes scopes"
    and "create sha uuid scopes file = (secret, file')"
    and "from_file sha (\<lambda>_. Inr file) path = Inr old"
    and "from_file sha (\<lambda>_. Inr file') path = Inr ks"
  shows "check_key sha ks secret =
      Some \<lparr>pr_subject = ''apikey:'' @ short (sha (str_bytes secret)), pr_scopes = parse_scopes scopes,
        pr_kind = ApiKey\<rparr> \<and>
    (\<forall>t. sha (str_bytes t) \<noteq> sha (str_bytes secret) \<longrightarrow> check_key sha ks t = check_key sha old t)"
proof -
  have "ks_inner ks = store_of sha (lines file')" "ks_inner old = store_of sha (lines file)"
    using assms(5,6) by (auto simp: from_file_def parse_keys_store)
  with create_store [OF assms(1-4)] show ?thesis by (auto simp: check_key_def Let_def)
qed

theorem created_key_authenticates_witness:
  "\<exists>ks. from_file toy_sha (\<lambda>_. Inr (snd (create toy_sha ''0a'' ''chat'' []))) ''f'' = Inr ks \<and>
    map_option pr_scopes (check_key toy_sha ks ''cgn-0a'') = Some (parse_scopes ''chat'')"
proof -
  let ?f = "\<lambda>txt. from_file toy_sha (\<lambda>_. Inr txt) ''f''"
  obtain file' where c: "create toy_sha ''0a'' ''chat'' [] = (''cgn-0a'', file')"
    by (simp add: create_def Let_def)
  obtain old ks where f: "?f [] = Inr old" "?f file' = Inr ks"
    by (simp add: from_file_def parse_keys_store)
  have s: "clean_scopes ''chat''" by (simp add: clean_scopes_def word_like_def is_space_def)
  have "ends_line []" by (simp add: ends_line_def)
  from created_key_authenticates [OF toy_sha_ok this s c f] show ?thesis using f c by simp
qed

section \<open>Locking a file\<close>

lemma lock_line_words:
  assumes "sha_ok sha" and "CHR ''#'' \<notin> set l"
  shows "add_words sha st (line_words (lock_line sha l)) = add_words sha st (line_words l)"
proof (cases "split_whitespace l")
  case Nil
  then show ?thesis using assms by (simp add: lock_line_def no_hash_words)
next
  case (Cons t it)
  let ?d = "sha (str_bytes t)"
  have len: "length ?d = 32" using assms(1) by (simp add: sha_ok_def)
  show ?thesis
  proof (cases "is_hex64 t")
    case True
    then show ?thesis using Cons by (simp add: lock_line_def)
  next
    case hex: False
    have dig: "digest_of sha (hex_string ?d) = digest_of sha t"
      using hex by (simp add: digest_of_hex [OF len]) (simp add: digest_of_def)
    have lw: "line_words l = t # it" using assms Cons by (simp add: no_hash_words)
    show ?thesis
    proof (cases it)
      case Nil
      have "word_like (hex_string ?d)" using len by (intro hex_string_word) auto
      then have "line_words (hex_string ?d @ '' '') = [hex_string ?d]"
        using hex_string_no_hash by (simp add: no_hash_words split_ws_append)
      with Nil Cons hex lw dig show ?thesis
        by (simp add: lock_line_def sha_hex_def)
    next
      case (Cons s r)
      have s: "word_like s" "set s \<subseteq> set l"
        using split_ws_words [of s l] Cons \<open>split_whitespace l = t # it\<close> by auto
      then have "clean_scopes s" using assms(2) by (auto simp: clean_scopes_def)
      from hashed_line_words [OF len this] Cons \<open>split_whitespace l = t # it\<close> hex lw dig show ?thesis
        by (simp add: lock_line_def sha_hex_def scopes_of_def)
    qed
  qed
qed

lemma line_words_strip_cr [simp]: "line_words (strip_cr l) = line_words l"
proof (cases "l \<noteq> [] \<and> last l = CHR 0x0D")
  case True
  then have l: "l = butlast l @ [CHR 0x0D]" by (metis append_butlast_last_id)
  have "line_words (b @ [CHR 0x0D]) = line_words b" for b
  proof (cases "CHR ''#'' \<in> set b")
    case True
    then obtain x y where "b = x @ CHR ''#'' # y" "CHR ''#'' \<notin> set x" by (metis split_list_first)
    then show ?thesis by (simp add: line_words_def split_on_append)
  qed (simp add: no_hash_words)
  from this [of "butlast l"] l True show ?thesis by (simp add: strip_cr_def)
next
  case False
  then have "strip_cr l = l" by (auto simp: strip_cr_def)
  then show ?thesis by simp
qed

lemma lock_line_no_NL: "sha_ok sha \<Longrightarrow> NL \<notin> set l \<Longrightarrow> NL \<notin> set (lock_line sha l)"
proof -
  assume sha: "sha_ok sha" and l: "NL \<notin> set l"
  have h: "NL \<notin> set (hex_string (sha x))" for x
    using sha by (intro word_no_NL hex_string_word sha_ok_not_Nil)
  have s: "NL \<notin> set s" if "s \<in> set (split_whitespace l)" for s
    using split_ws_words(2) [OF that] l by blast
  show ?thesis
  proof (cases "split_whitespace l")
    case (Cons t it)
    with s l h show ?thesis by (cases it) (simp_all add: lock_line_def sha_hex_def)
  qed (simp add: lock_line_def)
qed

lemma lines_lock: "sha_ok sha \<Longrightarrow> lines (lock sha txt) = map (strip_cr \<circ> lock_line sha) (lines txt)"
  unfolding lock_def using NL_not_in_lines lock_line_no_NL by (subst lines_unlines) auto

text \<open>\<open>cgn-ctl key lock\<close> is invisible to clients: replacing the plaintext keys of a file
  without comments by their digests gives a file that authenticates exactly the same tokens
  with the same scopes.\<close>

lemma lock_preserves_keys:
  assumes "sha_ok sha" and "CHR ''#'' \<notin> set txt"
  shows "parse_keys sha (lock sha txt) = parse_keys sha txt"
proof -
  have "foldl (add_words sha) st (map (\<lambda>l. line_words (lock_line sha l)) ls) =
      foldl (add_words sha) st (map line_words ls)" if "\<forall>l \<in> set ls. CHR ''#'' \<notin> set l" for st ls
    using that by (induction ls arbitrary: st) (simp_all add: lock_line_words [OF assms(1)])
  moreover have "\<forall>l \<in> set (lines txt). CHR ''#'' \<notin> set l" using lines_subset assms(2) by blast
  ultimately show ?thesis
    by (simp add: parse_keys_store store_of_def lines_lock [OF assms(1)] comp_def)
qed

lemma lock_preserves_keys_witness:
  "parse_keys toy_sha (lock toy_sha ''key-a chat'') = parse_keys toy_sha ''key-a chat''"
  by (rule lock_preserves_keys [OF toy_sha_ok]) simp

text \<open>The comment sign is not known to \<open>lock\<close>: it hashes the first word of a comment line as if
  it were a key, and the word is a valid bearer token from then on.\<close>

lemma lock_activates_comments:
  assumes "sha_ok sha" and "l \<in> set (lines txt)" and "split_whitespace l = t # it"
    and "\<not> is_hex64 t"
  shows "\<exists>st. parse_keys sha (lock sha txt) = Inr st \<and> sha (str_bytes t) \<in> dom st"
proof -
  let ?d = "sha (str_bytes t)" and ?k = "lock_line sha l"
  have len: "length ?d = 32" using assms(1) by (simp add: sha_ok_def)
  obtain r where k: "?k = hex_string ?d @ CHR '' '' # r"
    using assms(3,4) by (auto simp: lock_line_def sha_hex_def split: list.splits)
  have w: "word_like (hex_string ?d)" using len by (intro hex_string_word) auto
  obtain ws where "line_words ?k = hex_string ?d # ws"
  proof (cases "CHR ''#'' \<in> set r")
    case True
    then obtain x y where "r = x @ CHR ''#'' # y" "CHR ''#'' \<notin> set x" by (metis split_list_first)
    then have "hd (split_on (CHR ''#'') ?k) = hex_string ?d @ CHR '' '' # x"
      using split_on_append [of "CHR ''#''" "hex_string ?d @ CHR '' '' # x" y] hex_string_no_hash k
      by simp
    then show thesis using that split_ws_append [OF w] by (simp add: line_words_def)
  next
    case False
    then show thesis
      using that k split_ws_append [OF w] hex_string_no_hash by (simp add: no_hash_words)
  qed
  then have "?d \<in> dom (store_of sha (map (strip_cr \<circ> lock_line sha) (lines txt)))"
    unfolding store_of_dom using assms(2) digest_of_hex [OF len]
    by (intro bexI [of _ "strip_cr ?k"]) simp_all
  then show ?thesis by (simp add: parse_keys_store lines_lock [OF assms(1)])
qed

section \<open>Revoking a key\<close>

lemma join_nl_append: "join_nl (ls @ [k]) @ x = join_nl (ls @ [k @ x])"
  by (cases "ls = []") (simp_all add: join_nl_snoc)

text \<open>C35: Revoking a key corrupts the next creation. \<open>revoke\<close> writes the remaining lines without
  a final line feed and \<open>create\<close> appends to the file as it is: the new record is glued to the
  last remaining one, the printed key never enters the store, and the remaining key's scopes
  are replaced by ones that contain the digest.\<close>

theorem create_after_revoke_corrupts:
  assumes "sha_ok sha" and "clean_scopes scopes"
    and "filter (\<lambda>l. \<not> starts_with (to_ascii_lowercase q) (first_word l)) (lines txt) = ls @ [t @ '' '' @ s]"
    and "clean_scopes t" and "clean_scopes s"
    and "create sha uuid scopes (revoke q txt) = (secret, file')"
  shows "parse_keys sha file' = Inr ((store_of sha ls)(digest_of sha t \<mapsto>
    parse_scopes (s @ sha_hex sha (str_bytes secret))))"
proof -
  let ?h = "sha_hex sha (str_bytes secret)"
  let ?k = "t @ '' '' @ s @ ?h @ '' '' @ scopes"
  have rv: "revoke q txt = join_nl (ls @ [t @ '' '' @ s])"
    unfolding revoke_def Let_def by (simp only: assms(3))
  have file': "file' = join_nl (ls @ [?k]) @ [NL]"
    using assms(6) unfolding rv by (auto simp: create_def Let_def join_nl_append)
  have len: "length (sha x) = 32" for x using assms(1) by (simp add: sha_ok_def)
  have h: "word_like ?h" "CHR ''#'' \<notin> set ?h"
    unfolding sha_hex_def using len [of "str_bytes secret"]
    by (auto intro!: hex_string_word simp: hex_string_no_hash)
  have nl: "NL \<notin> set t" "NL \<notin> set s" "NL \<notin> set ?h" "NL \<notin> set scopes"
    using assms(2,4,5) h by (auto simp: clean_scopes_def dest: word_no_NL)
  have lsnl: "\<forall>l \<in> set ls. NL \<notin> set l"
  proof
    fix l assume "l \<in> set ls"
    then have "l \<in> set (ls @ [t @ '' '' @ s])" by simp
    then have "l \<in> set (lines txt)" unfolding assms(3) [symmetric] by simp
    then show "NL \<notin> set l" by (rule NL_not_in_lines)
  qed
  have cr: "strip_cr ?k = ?k"
    using strip_cr_word [of scopes "t @ '' '' @ s @ ?h @ '' ''"] assms(2) by (simp add: clean_scopes_def)
  have "file' = unlines (ls @ [?k])" using unlines_join [of "ls @ [?k]"] by (simp add: file')
  then have "lines file' = map strip_cr ls @ [?k]"
    using lines_unlines [of "ls @ [?k]"] lsnl nl cr by simp
  moreover have "line_words ?k = [t, s @ ?h, scopes]"
  proof -
    have "word_like (s @ ?h)" using assms(5) h by (auto simp: clean_scopes_def word_like_def)
    then have "split_whitespace ((s @ ?h) @ CHR '' '' # scopes) = [s @ ?h, scopes]"
      using assms(2) by (simp only: split_ws_append is_space_blank split_ws_word clean_scopes_def)
    moreover have "CHR ''#'' \<notin> set ?k" using assms(2,4,5) h by (simp add: clean_scopes_def)
    ultimately show ?thesis using assms(4)
      by (simp add: no_hash_words split_ws_append clean_scopes_def)
  qed
  moreover have "store_of sha (map strip_cr ls) = store_of sha ls" by (simp add: store_of_def comp_def)
  ultimately show ?thesis
    by (simp add: parse_keys_store store_of_snoc scopes_of_def)
qed

theorem create_after_revoke_corrupts_witness:
  "parse_keys toy_sha (snd (create toy_sha ''1'' ''chat'' (revoke ''a'' (unlines [''a x'', ''b y''])))) =
    Inr ((store_of toy_sha [])(digest_of toy_sha ''b'' \<mapsto>
      parse_scopes (''y'' @ sha_hex toy_sha (str_bytes ''cgn-1''))))"
proof -
  have c: "clean_scopes ''chat''" "clean_scopes ''b''" "clean_scopes ''y''"
    by (simp_all add: clean_scopes_def word_like_def is_space_def)
  have l: "lines (unlines [''a x'', ''b y'']) = [''a x'', ''b y'']"
    by (simp add: lines_unlines strip_cr_def NL_def)
  have w: "first_word ''a x'' = ''a''" "first_word ''b y'' = ''b''"
    by (simp_all add: first_word_def split_whitespace_def is_space_def)
  have f: "filter (\<lambda>l. \<not> starts_with (to_ascii_lowercase ''a'') (first_word l))
      (lines (unlines [''a x'', ''b y''])) = [] @ [''b'' @ '' '' @ ''y'']"
    by (simp add: l w starts_with_def to_ascii_lowercase_def ascii_lower_def)
  show ?thesis
    by (rule create_after_revoke_corrupts [OF toy_sha_ok c(1) f c(2,3)]) (simp add: create_def Let_def)
qed

section \<open>Policies of a principal\<close>

lemma has_scope_iff: "has_scope p s \<longleftrightarrow> s \<in> set (pr_scopes p) \<or> ''*'' \<in> set (pr_scopes p)"
  by (auto simp: has_scope_def list_ex_iff)

lemma allows_model_loop_iff:
  "allows_model_loop m r ss =
     (if \<exists>pat. ''model:'' @ pat \<in> set ss \<and> model_hit m pat then Some True
      else if r \<or> (\<exists>pat. ''model:'' @ pat \<in> set ss) then None else Some True)"
proof (induction ss arbitrary: r)
  case (Cons s ss)
  show ?case
  proof (cases "strip_prefix ''model:'' s")
    case None
    then have "\<forall>pat. s \<noteq> ''model:'' @ pat" by (metis strip_prefix_append option.distinct(1))
    with Cons None show ?thesis by auto
  next
    case (Some pat)
    then have "s = ''model:'' @ pat" by (simp only: strip_prefix_Some)
    with Cons Some show ?thesis by auto
  qed
qed simp

text \<open>A principal may use a model that one of its \<open>model:\<close> scopes matches, or any model when it
  has none or holds the global scope.\<close>

lemma allows_model_iff:
  "allows_model p m \<longleftrightarrow>
     (\<exists>pat. ''model:'' @ pat \<in> set (pr_scopes p) \<and> model_hit m pat) \<or>
     (\<forall>pat. ''model:'' @ pat \<notin> set (pr_scopes p)) \<or> ''*'' \<in> set (pr_scopes p)"
  by (auto simp: allows_model_def allows_model_loop_iff has_scope_iff)

lemma tenant_source:
  "tenant p = (if pr_kind p = Anonymous then [] else tenant p) \<and>
   (pr_kind p \<noteq> Anonymous \<longrightarrow> tenant p = pr_subject p \<or> ''tenant:'' @ tenant p \<in> set (pr_scopes p))"
  by (auto simp: tenant_def strip_prefix_Some split: option.splits dest!: find_map_Some)

section \<open>OIDC\<close>

lemma verify_sound:
  assumes "verify lib fetch now token v = (Inr p, v')"
  shows "\<exists>entry \<in> set (ov_jwks v'). \<exists>c. decode_header lib token = Inr (Some (je_kid entry)) \<and>
    decode lib (je_alg entry) (ov_issuer v') (ov_audience v') (je_key entry) token = Inr c \<and>
    p = claims_principal v' c"
proof -
  obtain v1 where v1: "hourly_refresh lib fetch now v = Inr v1"
    using assms by (auto simp: verify_def split: sum.splits)
  obtain kid where kid: "decode_header lib token = Inr (Some kid)"
    using assms v1 by (auto simp: verify_def split: sum.splits option.splits)
  obtain v2 where v2: "miss_refresh lib fetch now kid v1 = (Inr (), v2)"
    using assms v1 kid by (auto simp: verify_def split: sum.splits prod.splits)
  obtain entry where e: "List.find (\<lambda>k. je_kid k = kid) (ov_jwks v2) = Some entry"
    using assms v1 kid v2 by (auto simp: verify_def split: option.splits)
  obtain c where c: "decode lib (je_alg entry) (ov_issuer v2) (ov_audience v2) (je_key entry) token = Inr c"
    using assms v1 kid v2 e by (auto simp: verify_def split: sum.splits)
  have "entry \<in> set (ov_jwks v2)" "je_kid entry = kid" using e by (auto simp: find_Some_iff)
  moreover have "v' = v2" "p = claims_principal v2 c" using assms v1 kid v2 e c by (auto simp: verify_def)
  ultimately show ?thesis using kid c by blast
qed

lemma verify_keeps_config:
  "ov_issuer (snd (verify lib fetch now token v)) = ov_issuer v"
  "ov_audience (snd (verify lib fetch now token v)) = ov_audience v"
  by (auto simp: verify_def hourly_refresh_def miss_refresh_def refresh_jwks_def may_refresh_on_miss_def
      Let_def split: sum.splits option.splits prod.splits if_splits)

text \<open>The cooldown: a miss asks the issuer at most once per \<open>KID_MISS_COOLDOWN\<close>. An empty key set
  is not subject to it: then every token, valid or not, starts an exchange with the issuer.\<close>

lemma miss_within_cooldown:
  "now - ov_refresh v < KID_MISS_COOLDOWN \<Longrightarrow> miss_refresh lib fetch now kid v = (Inr (), v)"
  by (simp add: miss_refresh_def may_refresh_on_miss_def)

lemma miss_starts_cooldown:
  assumes "kid \<notin> je_kid ` set (ov_jwks v)" and "KID_MISS_COOLDOWN \<le> now - ov_refresh v"
  shows "ov_refresh (snd (miss_refresh lib fetch now kid v)) = now"
  using assms by (auto simp: miss_refresh_def may_refresh_on_miss_def refresh_jwks_def split: sum.splits)

lemma empty_jwks_no_cooldown:
  assumes "ov_jwks v = []" and "fetch (discovery_url (ov_issuer v)) = Inl e"
  shows "verify lib fetch now token v = (Inl e, v)"
  using assms by (simp add: verify_def hourly_refresh_def refresh_jwks_def)

section \<open>The middleware\<close>

text \<open>C31: On a gateway that requires credentials, a request reaches a handler only with a bearer
  token that was verified: its digest is in the loaded key store, or the issuer's current key
  set holds the key it names and the token decodes under that key for the configured issuer
  and audience. The attached principal is the one of that credential and never anonymous.\<close>

theorem required_auth_sound:
  assumes "auth_middleware sha lib fetch now header st = (Some p, st')" and "au_required st"
  shows "pr_kind p \<noteq> Anonymous \<and> (\<exists>token. bearer header = Some token \<and>
    ((\<exists>ks. au_api_keys st = Some ks \<and> sha (str_bytes token) \<in> dom (ks_inner ks) \<and>
        check_key sha ks token = Some p) \<or>
     (\<exists>v v' entry c. au_oidc st = Some v \<and> au_oidc st' = Some v' \<and> entry \<in> set (ov_jwks v') \<and>
        decode_header lib token = Inr (Some (je_kid entry)) \<and>
        decode lib (je_alg entry) (ov_issuer v) (ov_audience v) (je_key entry) token = Inr c \<and>
        p = claims_principal v' c)))"
proof -
  have req: "au_required (snd (authenticate sha lib fetch now b st)) = au_required st" for b
    by (auto simp: authenticate_def auth_oidc_def split: option.splits sum.splits prod.splits)
  from assms req [of "bearer header"] have
    a: "authenticate sha lib fetch now (bearer header) st = (Some p, st')"
    by (auto simp: auth_middleware_def split: prod.splits option.splits if_splits)
  then obtain token where t: "bearer header = Some token"
    by (auto simp: authenticate_def split: option.splits)
  show ?thesis
  proof (cases "Option.bind (au_api_keys st) (\<lambda>keys. check_key sha keys token)")
    case (Some q)
    with a t obtain ks where "au_api_keys st = Some ks" "check_key sha ks token = Some p"
      by (auto simp: authenticate_def bind_eq_Some_conv)
    moreover from this have "sha (str_bytes token) \<in> dom (ks_inner ks)" "pr_kind p = ApiKey"
      by (auto simp: check_key_def Let_def bind_eq_Some_conv)
    ultimately show ?thesis using t by auto
  next
    case None
    with a t have "auth_oidc lib fetch now token st = (Some p, st')" by (simp add: authenticate_def)
    then obtain v v' where v: "au_oidc st = Some v" "verify lib fetch now token v = (Inr p, v')"
        "st' = st\<lparr>au_oidc := Some v'\<rparr>"
      by (auto simp: auth_oidc_def split: option.splits prod.splits sum.splits)
    have "ov_issuer v' = ov_issuer v" "ov_audience v' = ov_audience v"
      using verify_keeps_config [of lib fetch now token v] v(2) by simp_all
    moreover have "pr_kind (claims_principal w c) = Oidc" for w and c
      by (simp add: claims_principal_def Let_def)
    moreover obtain entry c where ec: "entry \<in> set (ov_jwks v')"
        "decode_header lib token = Inr (Some (je_kid entry))"
        "decode lib (je_alg entry) (ov_issuer v') (ov_audience v') (je_key entry) token = Inr c"
        "p = claims_principal v' c"
      using verify_sound [OF v(2)] by blast
    moreover have "au_oidc st' = Some v'" using v(3) by simp
    ultimately show ?thesis using t v(1) by (metis PrincipalKind.distinct(5))
  qed
qed

definition no_jwt :: "unit jwt_lib" where
  "no_jwt = \<lparr>from_rsa_components = (\<lambda>_ _. None), from_ec_components = (\<lambda>_ _. None),
     decode_header = (\<lambda>_. Inl ''invalid token''), decode = (\<lambda>_ _ _ _ _. Inl ''invalid token'')\<rparr>"

definition no_issuer :: "string \<Rightarrow> (Error, Jwk list) result" where
  "no_issuer url = Inl (Unavailable url)"

definition demo_auth :: "unit AuthState" where
  "demo_auth = \<lparr>au_api_keys = Some \<lparr>ks_inner = [toy_sha (str_bytes ''k'') \<mapsto> [''chat'']], ks_path = None\<rparr>,
     au_oidc = None, au_required = True\<rparr>"

theorem required_auth_sound_witness:
  "\<exists>p st'. auth_middleware toy_sha no_jwt no_issuer 0 (Some ''Bearer k'') demo_auth = (Some p, st') \<and>
     pr_kind p \<noteq> Anonymous"
proof -
  have b: "bearer (Some ''Bearer k'') = Some ''k''"
    by (simp add: bearer_def strip_prefix_def trim_def is_space_def)
  obtain p st' where r: "auth_middleware toy_sha no_jwt no_issuer 0 (Some ''Bearer k'') demo_auth = (Some p, st')"
    by (simp add: auth_middleware_def authenticate_def b demo_auth_def check_key_def Let_def)
  with required_auth_sound [OF r] show ?thesis by (auto simp: demo_auth_def)
qed

end
