(* ===== verification/Cgn_RateLimit.thy ===== *)
theory Cgn_RateLimit
  imports Cgn_Auth
begin

text \<open>
  Rate limiting (\<open>cgn-ratelimit\<close>): the resolution of a client address behind trusted proxies,
  CIDR matching, the choice of the bucket, and the middleware. The token buckets of the
  \<open>governor\<close> crate are a parameter. Parsing and printing of IP addresses follow the Rust
  standard library.
\<close>

section \<open>IP addresses\<close>

datatype IpAddr = V4 "32 word" | V6 "128 word"

definition is_ipv4 :: "IpAddr \<Rightarrow> bool" where
  "is_ipv4 ip = (case ip of V4 _ \<Rightarrow> True | V6 _ \<Rightarrow> False)"

text \<open>\<open>Parser::read_number\<close>: at most \<open>maxd\<close> digits, the value below \<open>2 ^ width\<close>, and no leading
  zero unless allowed.\<close>

definition digit_val :: "nat \<Rightarrow> char \<Rightarrow> nat option" where
  "digit_val radix c =
     (case hex_digit c of Some d \<Rightarrow> if d < radix then Some d else None | None \<Rightarrow> None)"

definition read_number :: "nat \<Rightarrow> nat \<Rightarrow> bool \<Rightarrow> nat \<Rightarrow> string \<Rightarrow> (nat \<times> string) option" where
  "read_number radix maxd zero_prefix bound s =
     (let ds = takeWhile (\<lambda>c. digit_val radix c \<noteq> None) s;
          n = foldl (\<lambda>a c. a * radix + the (digit_val radix c)) 0 ds
      in if ds = [] \<or> maxd < length ds then None
         else if \<not> zero_prefix \<and> hd ds = CHR ''0'' \<and> 1 < length ds then None
         else if bound \<le> n then None
         else Some (n, drop (length ds) s))"

definition read_char :: "char \<Rightarrow> string \<Rightarrow> string option" where
  "read_char c s = (case s of [] \<Rightarrow> None | x # r \<Rightarrow> if x = c then Some r else None)"

definition read_separator :: "char \<Rightarrow> nat \<Rightarrow> (string \<Rightarrow> ('a \<times> string) option) \<Rightarrow> string \<Rightarrow> ('a \<times> string) option" where
  "read_separator c i inner s = (if 0 < i then Option.bind (read_char c s) inner else inner s)"

definition read_octet :: "nat \<Rightarrow> string \<Rightarrow> (nat \<times> string) option" where
  "read_octet i = read_separator (CHR ''.'') i (read_number 10 3 False 256)"

definition read_ipv4_addr :: "string \<Rightarrow> (nat \<times> string) option" where
  "read_ipv4_addr s =
     do { (a, s1) \<leftarrow> read_octet 0 s;
          (b, s2) \<leftarrow> read_octet 1 s1;
          (c, s3) \<leftarrow> read_octet 2 s2;
          (d, s4) \<leftarrow> read_octet 3 s3;
          Some (((a * 256 + b) * 256 + c) * 256 + d, s4) }"

text \<open>Groups of an IPv6 address, up to \<open>lim\<close> of them; the flag is a trailing IPv4 part.\<close>

function read_groups :: "nat \<Rightarrow> nat \<Rightarrow> string \<Rightarrow> nat list \<Rightarrow> nat list \<times> bool \<times> string" where
  "read_groups lim i s acc =
     (if lim \<le> i then (acc, False, s)
      else case (if i < lim - 1 then read_separator (CHR '':'') i read_ipv4_addr s else None) of
             Some (v, r) \<Rightarrow> (acc @ [v div 65536, v mod 65536], True, r)
           | None \<Rightarrow>
               (case read_separator (CHR '':'') i (read_number 16 4 True 65536) s of
                  Some (g, r) \<Rightarrow> read_groups lim (Suc i) r (acc @ [g])
                | None \<Rightarrow> (acc, False, s)))"
  by pat_completeness auto
termination
  by (relation "measure (\<lambda>(lim, i, _). lim - i)") auto

declare read_groups.simps [simp del]

definition of_segments :: "nat list \<Rightarrow> 128 word" where
  "of_segments gs = of_nat (foldl (\<lambda>a g. a * 65536 + g) 0 gs)"

definition read_ipv6_addr :: "string \<Rightarrow> (128 word \<times> string) option" where
  "read_ipv6_addr s =
     (let (head, v4, r) = read_groups 8 0 s [] in
      if length head = 8 then Some (of_segments head, r)
      else if v4 then None
      else do { r1 \<leftarrow> read_char (CHR '':'') r;
                r2 \<leftarrow> read_char (CHR '':'') r1;
                let (tail, _, r3) = read_groups (8 - (length head + 1)) 0 r2 [] in
                Some (of_segments (head @ replicate (8 - length head - length tail) 0 @ tail), r3) })"

definition parse_ip :: "string \<Rightarrow> IpAddr option" where
  "parse_ip s =
     (case (case read_ipv4_addr s of
              Some (v, r) \<Rightarrow> Some (V4 (of_nat v), r)
            | None \<Rightarrow> map_option (\<lambda>(v, r). (V6 v, r)) (read_ipv6_addr s)) of
        Some (ip, []) \<Rightarrow> Some ip
      | _ \<Rightarrow> None)"

text \<open>\<open>Display\<close>: dotted decimal; or hexadecimal groups with the first longest run of two or more
  zero groups written as a double colon, and the IPv4 part of a mapped address in decimal.\<close>

definition show_ipv4 :: "32 word \<Rightarrow> string" where
  "show_ipv4 w =
     (let n = unat w in
      show_nat (n div 16777216) @ ''.'' @ show_nat (n div 65536 mod 256) @ ''.'' @
      show_nat (n div 256 mod 256) @ ''.'' @ show_nat (n mod 256))"

fun show_hex :: "nat \<Rightarrow> string" where
  "show_hex n = (if n < 16 then [HEX ! n] else show_hex (n div 16) @ [HEX ! (n mod 16)])"

declare show_hex.simps [simp del]

definition segments :: "128 word \<Rightarrow> nat list" where
  "segments w = map (\<lambda>i. unat w div 65536 ^ (7 - i) mod 65536) [0..<8]"

fun longest_zeros :: "nat \<Rightarrow> nat \<times> nat \<Rightarrow> nat \<times> nat \<Rightarrow> nat list \<Rightarrow> nat \<times> nat" where
  "longest_zeros i cur longest [] = longest"
| "longest_zeros i cur longest (g # gs) =
     (if g = 0
      then let cur' = (if snd cur = 0 then i else fst cur, snd cur + 1)
           in longest_zeros (Suc i) cur' (if snd longest < snd cur' then cur' else longest) gs
      else longest_zeros (Suc i) (0, 0) longest gs)"

fun show_groups :: "nat list \<Rightarrow> string" where
  "show_groups [] = []"
| "show_groups [g] = show_hex g"
| "show_groups (g # h # gs) = show_hex g @ '':'' @ show_groups (h # gs)"

definition show_ipv6 :: "128 word \<Rightarrow> string" where
  "show_ipv6 w =
     (let gs = segments w; (start, len) = longest_zeros 0 (0, 0) (0, 0) gs in
      if take 6 gs = [0, 0, 0, 0, 0, 65535] then ''::ffff:'' @ show_ipv4 (ucast w)
      else if 1 < len then show_groups (take start gs) @ ''::'' @ show_groups (drop (start + len) gs)
      else show_groups gs)"

definition show_ip :: "IpAddr \<Rightarrow> string" where
  "show_ip ip = (case ip of V4 w \<Rightarrow> show_ipv4 w | V6 w \<Rightarrow> show_ipv6 w)"

section \<open>Networks\<close>

record Cidr =
  ci_net :: IpAddr
  ci_bits :: nat


definition cidr_parse :: "string \<Rightarrow> Cidr option" where
  "cidr_parse s =
     do { (ip, bits) \<leftarrow>
            (case split_once (CHR ''/'') s of
               Some (a, b) \<Rightarrow> do { ip \<leftarrow> parse_ip a; bits \<leftarrow> parse_dec U32_MAX b; Some (ip, bits) }
             | None \<Rightarrow> do { ip \<leftarrow> parse_ip s; Some (ip, if is_ipv4 ip then 32 else 128) });
          let mx = (if is_ipv4 ip then 32 else 128) in
          if bits \<le> mx then Some \<lparr>ci_net = ip, ci_bits = bits\<rparr> else None }"

definition shifted :: "Cidr \<Rightarrow> 128 word \<Rightarrow> nat \<Rightarrow> 128 word" where
  "shifted c v width = (if ci_bits c = 0 then 0 else drop_bit (width - ci_bits c) v)"

definition cidr_contains :: "Cidr \<Rightarrow> IpAddr \<Rightarrow> bool" where
  "cidr_contains c ip =
     (case (ci_net c, ip) of
        (V4 a, V4 b) \<Rightarrow> shifted c (ucast a) 32 = shifted c (ucast b) 32
      | (V6 a, V6 b) \<Rightarrow> shifted c a 128 = shifted c b 128
      | _ \<Rightarrow> False)"

section \<open>The limiter\<close>

definition SWEEP_ABOVE_KEYS :: nat where "SWEEP_ABOVE_KEYS = 100000"

text \<open>\<open>governor\<close>: the number of live buckets, the removal of idle ones, and one admission
  decision, which takes from the bucket of the key.\<close>

record 'g governor =
  gov_len :: "'g \<Rightarrow> nat"
  gov_retain_recent :: "'g \<Rightarrow> 'g"
  gov_check_key :: "string \<Rightarrow> 'g \<Rightarrow> bool \<times> 'g"

record 'g RateLimit =
  rl_limiter :: 'g
  rl_trusted :: "Cidr list"

definition quota :: "nat \<Rightarrow> nat \<Rightarrow> nat \<times> nat" where
  "quota rps burst = (max rps 1, max burst 1)"

definition ratelimit_new :: "(nat \<times> nat \<Rightarrow> 'g) \<Rightarrow> nat \<Rightarrow> nat \<Rightarrow> 'g RateLimit" where
  "ratelimit_new keyed rps burst = \<lparr>rl_limiter = keyed (quota rps burst), rl_trusted = []\<rparr>"

definition with_trusted_proxies :: "string list \<Rightarrow> 'g RateLimit \<Rightarrow> 'g RateLimit" where
  "with_trusted_proxies proxies rl = rl\<lparr>rl_trusted := List.map_filter cidr_parse proxies\<rparr>"

definition rl_check :: "'g governor \<Rightarrow> string \<Rightarrow> 'g RateLimit \<Rightarrow> bool \<times> 'g RateLimit" where
  "rl_check gov key rl =
     (let g = (if SWEEP_ABOVE_KEYS < gov_len gov (rl_limiter rl)
               then gov_retain_recent gov (rl_limiter rl) else rl_limiter rl);
          (ok, g') = gov_check_key gov key g
      in (ok, rl\<lparr>rl_limiter := g'\<rparr>))"

definition is_trusted :: "'g RateLimit \<Rightarrow> IpAddr \<Rightarrow> bool" where
  "is_trusted rl ip = list_ex (\<lambda>c. cidr_contains c ip) (rl_trusted rl)"

fun client_hops :: "(IpAddr \<Rightarrow> bool) \<Rightarrow> IpAddr \<Rightarrow> string list \<Rightarrow> IpAddr" where
  "client_hops trusted client [] = client"
| "client_hops trusted client (hop # hops) =
     (case parse_ip (trim hop) of
        Some ip \<Rightarrow> if trusted ip then client_hops trusted ip hops else ip
      | None \<Rightarrow> client)"

definition client_ip :: "IpAddr option \<Rightarrow> string option \<Rightarrow> (IpAddr \<Rightarrow> bool) \<Rightarrow> IpAddr option" where
  "client_ip peer xff trusted =
     do { peer \<leftarrow> peer;
          if \<not> trusted peer then Some peer
          else Some (client_hops trusted peer
                 (rev (split_on (CHR '','') (case xff of None \<Rightarrow> [] | Some s \<Rightarrow> s)))) }"

text \<open>What the limiter sees of a request: the principal and the peer address attached to it, and
  its first \<open>X-Forwarded-For\<close> header when that is text.\<close>

record RlRequest =
  rq_principal :: "Principal option"
  rq_peer :: "IpAddr option"
  rq_xff :: "string option"

definition key_for :: "'g RateLimit \<Rightarrow> RlRequest \<Rightarrow> string" where
  "key_for rl req =
     (case rq_principal req of
        Some p \<Rightarrow>
          if pr_kind p \<noteq> Anonymous then ''sub:'' @ pr_subject p
          else (case client_ip (rq_peer req) (rq_xff req) (is_trusted rl) of
                  Some ip \<Rightarrow> ''ip:'' @ show_ip ip
                | None \<Rightarrow> ''anonymous'')
      | None \<Rightarrow>
          (case client_ip (rq_peer req) (rq_xff req) (is_trusted rl) of
             Some ip \<Rightarrow> ''ip:'' @ show_ip ip
           | None \<Rightarrow> ''anonymous''))"

text \<open>\<open>False\<close> is the 429 response; \<open>True\<close> passes the request on.\<close>

definition ratelimit_middleware :: "'g governor \<Rightarrow> RlRequest \<Rightarrow> 'g RateLimit \<Rightarrow> bool \<times> 'g RateLimit" where
  "ratelimit_middleware gov req rl = rl_check gov (key_for rl req) rl"

section \<open>Networks contain the addresses that share their leading bits\<close>

lemma drop_bit_eq_iff:
  "drop_bit n (a :: 128 word) = drop_bit n b \<longleftrightarrow> (\<forall>i \<ge> n. bit a i = bit b i)"
proof
  assume eq: "drop_bit n a = drop_bit n b"
  show "\<forall>i \<ge> n. bit a i = bit b i"
  proof (intro allI impI)
    fix i assume "n \<le> i"
    then have "bit (drop_bit n a) (i - n) = bit a i" "bit (drop_bit n b) (i - n) = bit b i"
      by (simp_all add: bit_drop_bit_eq)
    with eq show "bit a i = bit b i" by simp
  qed
qed (auto intro: bit_word_eqI simp: bit_drop_bit_eq)

lemma bit_v4: "bit (a :: 32 word) i \<Longrightarrow> i < 32"
  using bit_imp_le_length [of a i] by simp

lemma cidr_contains_v4:
  assumes "ci_net c = V4 a" and "ci_bits c \<le> 32"
  shows "cidr_contains c (V4 b) \<longleftrightarrow> (\<forall>i. 32 - ci_bits c \<le> i \<and> i < 32 \<longrightarrow> bit a i = bit b i)"
proof (cases "ci_bits c = 0")
  case False
  with assms show ?thesis
    by (auto simp: cidr_contains_def shifted_def drop_bit_eq_iff bit_ucast_iff dest: bit_v4)
qed (use assms in \<open>auto simp: cidr_contains_def shifted_def\<close>)

lemma cidr_bare_address:
  assumes "ci_net c = V4 a" and "ci_bits c = 32"
  shows "cidr_contains c ip \<longleftrightarrow> ip = V4 a"
proof (cases ip)
  case (V4 b)
  have "(\<forall>i. 32 - ci_bits c \<le> i \<and> i < 32 \<longrightarrow> bit a i = bit b i) \<longleftrightarrow> a = b"
    using assms(2) by (auto intro!: bit_word_eqI)
  with V4 assms cidr_contains_v4 [OF assms(1), of b] show ?thesis by auto
qed (use assms in \<open>simp add: cidr_contains_def\<close>)

lemma cidr_parse_bits: "cidr_parse s = Some c \<Longrightarrow> ci_bits c \<le> (if is_ipv4 (ci_net c) then 32 else 128)"
  by (auto simp: cidr_parse_def bind_eq_Some_conv Let_def split: if_splits)

section \<open>The bucket is not the client's choice\<close>

lemma split_on_app: "split_on c (a @ c # b) = split_on c a @ split_on c b"
proof (induction a)
  case (Cons x a)
  obtain y ys where "split_on c a = y # ys" using split_on_nonempty by (metis list.exhaust)
  with Cons show ?case by auto
qed simp

lemma client_hops_trusted:
  assumes "\<forall>h \<in> set hops. \<exists>ip. parse_ip (trim h) = Some ip \<and> trusted ip"
    and "parse_ip (trim h) = Some ip" and "\<not> trusted ip"
  shows "client_hops trusted peer (hops @ h # junk) = ip"
  using assms by (induction hops arbitrary: peer) auto

fun join_comma :: "string list \<Rightarrow> string" where
  "join_comma [] = []"
| "join_comma [h] = h"
| "join_comma (h # k # hs) = h @ CHR '','' # join_comma (k # hs)"

lemma split_join_comma:
  "hs \<noteq> [] \<Longrightarrow> \<forall>h \<in> set hs. CHR '','' \<notin> set h \<Longrightarrow> split_on (CHR '','') (join_comma hs) = hs"
  by (induction hs rule: join_comma.induct) (simp_all add: split_on_single split_on_append)

text \<open>A client without credentials cannot choose its rate-limit bucket. When it connects
  directly, its bucket is its peer address whatever headers it sends. When it connects through
  trusted proxies that append the address they saw to \<open>X-Forwarded-For\<close>, its bucket is the
  address \<open>h\<close> the outermost of them recorded, whatever the client had put in the header.\<close>

lemma bucket_not_client_chosen:
  assumes "case rq_principal req of None \<Rightarrow> True | Some p \<Rightarrow> pr_kind p = Anonymous"
    and "rq_peer req = Some peer"
    and "parse_ip (trim h) = Some ip" and "\<not> is_trusted rl ip"
    and "\<forall>g \<in> set hops. \<exists>a. parse_ip (trim g) = Some a \<and> is_trusted rl a"
    and "\<forall>g \<in> set (h # hops). CHR '','' \<notin> set g"
  shows "(\<not> is_trusted rl peer \<longrightarrow> key_for rl req = ''ip:'' @ show_ip peer) \<and>
    (is_trusted rl peer \<and> rq_xff req \<in> {Some (join_comma (h # hops)),
        Some (forged @ CHR '','' # join_comma (h # hops))} \<longrightarrow> key_for rl req = ''ip:'' @ show_ip ip)"
proof (intro conjI impI)
  have k: "key_for rl req = (case client_ip (rq_peer req) (rq_xff req) (is_trusted rl) of
      Some ip \<Rightarrow> ''ip:'' @ show_ip ip | None \<Rightarrow> ''anonymous'')"
    using assms(1) by (auto simp: key_for_def split: option.splits)
  show "key_for rl req = ''ip:'' @ show_ip peer" if "\<not> is_trusted rl peer"
    using that assms(2) by (simp add: k client_ip_def)
  have s: "split_on (CHR '','') (join_comma (h # hops)) = h # hops"
    using split_join_comma [of "h # hops"] assms(6) by blast
  have r: "\<forall>g \<in> set (rev hops). \<exists>a. parse_ip (trim g) = Some a \<and> is_trusted rl a"
    using assms(5) by simp
  show "key_for rl req = ''ip:'' @ show_ip ip" if x: "is_trusted rl peer \<and> rq_xff req \<in>
    {Some (join_comma (h # hops)), Some (forged @ CHR '','' # join_comma (h # hops))}"
  proof -
    from x obtain junk where "rev (split_on (CHR '','') (the (rq_xff req))) = rev hops @ h # junk"
        "rq_xff req \<noteq> None"
      by (auto simp: s split_on_app)
    then show ?thesis using x client_hops_trusted [OF r assms(3,4)] assms(2)
      by (auto simp: k client_ip_def)
  qed
qed

definition demo_limiter :: "unit RateLimit" where
  "demo_limiter = with_trusted_proxies [''10.0.0.0/8''] \<lparr>rl_limiter = (), rl_trusted = []\<rparr>"

lemma demo_ips:
  "parse_ip ''10.1.2.3'' = Some (V4 0x0A010203)" "parse_ip ''9.9.9.9'' = Some (V4 0x09090909)"
  by (simp_all add: parse_ip_def read_ipv4_addr_def read_octet_def read_separator_def read_number_def
      Let_def digit_val_def hex_digit_def read_char_def)

lemma demo_net: "cidr_parse ''10.0.0.0/8'' = Some \<lparr>ci_net = V4 0x0A000000, ci_bits = 8\<rparr>"
  by (simp add: cidr_parse_def split_once_def parse_ip_def read_ipv4_addr_def read_octet_def
      read_separator_def read_number_def Let_def digit_val_def hex_digit_def read_char_def
      parse_dec_def parse_unsigned_def dec_digit_def U32_MAX_def is_ipv4_def)

lemma demo_trust: "is_trusted demo_limiter (V4 0x0A010203)" "\<not> is_trusted demo_limiter (V4 0x09090909)"
  by (simp_all add: is_trusted_def demo_limiter_def with_trusted_proxies_def map_filter_simps demo_net
      cidr_contains_def shifted_def)

lemma bucket_not_client_chosen_witness:
  "key_for demo_limiter \<lparr>rq_principal = Some anonymous, rq_peer = Some (V4 0x0A010203),
     rq_xff = Some (''1.2.3.4'' @ CHR '','' # join_comma [''9.9.9.9'', ''10.1.2.3''])\<rparr> =
   ''ip:'' @ show_ip (V4 0x09090909)"
proof -
  let ?req = "\<lparr>rq_principal = Some anonymous, rq_peer = Some (V4 0x0A010203),
     rq_xff = Some (''1.2.3.4'' @ CHR '','' # join_comma [''9.9.9.9'', ''10.1.2.3''])\<rparr>"
  have t: "trim ''9.9.9.9'' = ''9.9.9.9''" "trim ''10.1.2.3'' = ''10.1.2.3''"
    by (simp_all add: trim_def is_space_def)
  have "parse_ip (trim ''9.9.9.9'') = Some (V4 0x09090909)" by (simp only: t demo_ips)
  moreover have "\<forall>g \<in> set [''10.1.2.3'']. \<exists>a. parse_ip (trim g) = Some a \<and> is_trusted demo_limiter a"
    using demo_ips(1) demo_trust(1) t(2) by simp
  ultimately show ?thesis
    using bucket_not_client_chosen [of ?req "V4 0x0A010203" "''9.9.9.9''" "V4 0x09090909" demo_limiter
        "[''10.1.2.3'']" "''1.2.3.4''"] demo_trust
    by (simp add: anonymous_def)
qed

end
