(* ===== verification/Cgn_Policies.thy ===== *)
theory Cgn_Policies
  imports Cgn_Selector Cgn_Auth
begin

text \<open>
  The policy modules of the router and the operator: deadline admission (\<open>deadline.rs\<close>), carbon
  admission (\<open>carbon/\<close>), the prefill/decode plan (\<open>disagg.rs\<close>), the model cascade
  (\<open>cascade.rs\<close>), the choice of a federation peer (\<open>federation.rs\<close>), the energy autoscaler
  (\<open>autoscaler.rs\<close> of both services) and the replica planner (\<open>planner.rs\<close>). 32-bit
  arithmetic is kept at its width where the code can overflow.
\<close>

section \<open>Deadline admission\<close>

record SamplingParams =
  sp_temperature :: f32
  sp_top_p :: f32
  sp_top_k :: u32
  sp_max_tokens :: u32
  sp_stop :: "string list"
  sp_logprobs :: bool
  sp_seed :: "u32 option"
  sp_frequency_penalty :: f32
  sp_presence_penalty :: f32
  sp_repetition_penalty :: f32

record Message =
  ms_role :: string
  ms_content :: string
  ms_name :: string
  ms_content_json :: string
  ms_tool_calls_json :: string
  ms_tool_call_id :: string

record GenerateRequest =
  gr_model :: string
  gr_messages :: "Message list"
  gr_prompt :: string
  gr_params :: "SamplingParams option"
  gr_tenant :: string
  gr_session :: string
  gr_deadline_ms :: u32
  gr_stream :: bool
  gr_traceparent :: string
  gr_tracestate :: string
  gr_extensions_json :: string

record AdmissionConfig =
  ac_max_queue :: nat
  ac_ttft_slo :: duration
  ac_max_concurrent_per_replica :: nat

datatype AdmissionOutcome = AdmitReq | DeadlineExceeded nat nat | AdmQueueFull

definition saturating_mul_u32 :: "u32 \<Rightarrow> u32 \<Rightarrow> u32" where
  "saturating_mul_u32 a b = of_nat (min U32_MAX (unat a * unat b))"

definition duration_to_ms :: "duration \<Rightarrow> u32" where
  "duration_to_ms d = (if d \<le> U32_MAX then of_nat d else of_nat U32_MAX)"

definition effective_deadline_ms :: "AdmissionConfig \<Rightarrow> GenerateRequest \<Rightarrow> u32" where
  "effective_deadline_ms cfg req =
     (if 0 < gr_deadline_ms req then gr_deadline_ms req
      else let max_tokens = (case gr_params req of None \<Rightarrow> 256 | Some p \<Rightarrow> sp_max_tokens p)
           in duration_to_ms (ac_ttft_slo cfg) + saturating_mul_u32 max_tokens 30)"

definition estimate_ttft_ms :: "AdmissionConfig \<Rightarrow> NodeEntry \<Rightarrow> nat" where
  "estimate_ttft_ms cfg node =
     min U32_MAX (max (ne_queue_depth node) 1 * 100) div max (ac_max_concurrent_per_replica cfg) 1"

definition deadline_check :: "bool \<Rightarrow> AdmissionConfig \<Rightarrow> GenerateRequest \<Rightarrow> NodeEntry \<Rightarrow> AdmissionOutcome" where
  "deadline_check deadline_admission cfg req candidate =
     (if \<not> deadline_admission then AdmitReq
      else let requested = unat (effective_deadline_ms cfg req); estimated = estimate_ttft_ms cfg candidate
           in if requested < estimated then DeadlineExceeded estimated requested else AdmitReq)"

section \<open>Carbon admission\<close>

datatype RequestPriority = PLow | PNormal | PHigh

definition parse_header :: "string \<Rightarrow> RequestPriority" where
  "parse_header v =
     (let s = to_ascii_lowercase (trim v)
      in if s = ''low'' then PLow else if s = ''high'' then PHigh else PNormal)"

record CarbonSample =
  cb_intensity :: rat
  cb_zone :: string
  cb_provider :: string
  cb_updated_at :: instant
  cb_stale :: bool

datatype CarbonProviderKind = ProvStatic | ElectricityMaps | WattTime

record CarbonConfig =
  cc_enabled :: bool
  cc_provider :: CarbonProviderKind
  cc_zone :: string
  cc_api_token :: string
  cc_static_intensity :: rat
  cc_intensity_threshold :: rat

definition CarbonSample_default :: "instant \<Rightarrow> CarbonSample" where
  "CarbonSample_default now =
     \<lparr>cb_intensity = 0, cb_zone = [], cb_provider = [], cb_updated_at = now, cb_stale = True\<rparr>"

definition carbon_store :: "instant \<Rightarrow> rat \<Rightarrow> string \<Rightarrow> string \<Rightarrow> CarbonSample" where
  "carbon_store now intensity zone prov =
     \<lparr>cb_intensity = intensity, cb_zone = zone, cb_provider = prov, cb_updated_at = now, cb_stale = False\<rparr>"

datatype CarbonAdmission = CarbonAdmit | CarbonReject rat rat

definition check_admission :: "CarbonConfig \<Rightarrow> CarbonSample \<Rightarrow> RequestPriority \<Rightarrow> CarbonAdmission" where
  "check_admission cfg sample priority =
     (if \<not> cc_enabled cfg \<or> priority \<noteq> PLow then CarbonAdmit
      else if cb_stale sample then CarbonAdmit
      else if cc_intensity_threshold cfg < cb_intensity sample
      then CarbonReject (cb_intensity sample) (cc_intensity_threshold cfg)
      else CarbonAdmit)"

text \<open>The remote providers are their answers, the argument \<open>remote\<close>.\<close>

definition build_provider :: "CarbonConfig \<Rightarrow> (Error, string) result" where
  "build_provider cfg =
     (case cc_provider cfg of
        ProvStatic \<Rightarrow> Inr ''static''
      | ElectricityMaps \<Rightarrow>
          if cc_api_token cfg = []
          then Inl (Config ''[carbon].api_token is required for provider electricitymaps'')
          else Inr ''electricitymaps''
      | WattTime \<Rightarrow>
          if cc_api_token cfg = []
          then Inl (Config ''[carbon].api_token is required for provider watttime'')
          else Inr ''watttime'')"

definition provider_fetch :: "CarbonConfig \<Rightarrow> (Error, rat) result \<Rightarrow> (Error, rat) result" where
  "provider_fetch cfg remote =
     (case cc_provider cfg of ProvStatic \<Rightarrow> Inr (cc_static_intensity cfg) | _ \<Rightarrow> remote)"

definition poll_once ::
  "CarbonConfig \<Rightarrow> string \<Rightarrow> instant \<Rightarrow> (Error, rat) result \<Rightarrow> CarbonSample
     \<Rightarrow> (Error, unit) result \<times> CarbonSample" where
  "poll_once cfg prov now remote sample =
     (case provider_fetch cfg remote of
        Inl e \<Rightarrow> (Inl e, sample)
      | Inr intensity \<Rightarrow>
          let zone = (if cc_zone cfg = [] then ''static'' else cc_zone cfg)
          in (Inr (), carbon_store now intensity zone prov))"

section \<open>Disaggregation\<close>

datatype Plan = Colocate | Split NodeRole NodeRole

definition plan :: "bool \<Rightarrow> nat \<Rightarrow> nat \<Rightarrow> Plan" where
  "plan enabled colocate_below_tokens prompt_tokens =
     (if \<not> enabled \<or> prompt_tokens < colocate_below_tokens then Colocate else Split RolePrefill RoleDecode)"

definition is_eligible :: "NodeEntry \<Rightarrow> NodeRole \<Rightarrow> bool" where
  "is_eligible node role \<longleftrightarrow> role = Unspecified \<or> role_enum node = role \<or> role_enum node = RoleBoth"

section \<open>Cascade\<close>

record Cascade =
  cd_steps :: "string list"
  cd_threshold :: f32

record StepOutcome =
  so_text :: string
  so_logprob :: f32
  so_tokens :: nat
  so_finish :: string

definition StepOutcome_default :: StepOutcome where
  "StepOutcome_default = \<lparr>so_text = [], so_logprob = 0, so_tokens = 0, so_finish = []\<rparr>"

record CascadeResult =
  cr_outcome :: StepOutcome
  cr_model_used :: string
  cr_steps_attempted :: "string list"

definition cascade_from_config ::
  "bool \<Rightarrow> f32 \<Rightarrow> (string \<rightharpoonup> string list) \<Rightarrow> string \<Rightarrow> string list \<Rightarrow> Cascade option" where
  "cascade_from_config enabled threshold models model override_chain =
     (if \<not> enabled then None
      else do { chain \<leftarrow> (if override_chain \<noteq> [] then Some override_chain else models model);
                if chain = [] then None else Some \<lparr>cd_steps = chain, cd_threshold = threshold\<rparr> })"

definition should_escalate :: "Cascade \<Rightarrow> StepOutcome \<Rightarrow> bool" where
  "should_escalate c o1 \<longleftrightarrow> so_tokens o1 = 0 \<or> so_logprob o1 < cd_threshold c"

fun cascade_loop ::
  "Cascade \<Rightarrow> (string \<Rightarrow> 's \<Rightarrow> StepOutcome \<times> 's) \<Rightarrow> StepOutcome \<Rightarrow> string \<Rightarrow> string list \<Rightarrow> string list \<Rightarrow> 's
     \<Rightarrow> CascadeResult \<times> 's" where
  "cascade_loop c step_fn lst last_model attempted [] w =
     (\<lparr>cr_outcome = lst, cr_model_used = last_model, cr_steps_attempted = attempted\<rparr>, w)"
| "cascade_loop c step_fn lst last_model attempted (step # steps) w =
     (let (outcome, w') = step_fn step w
      in if \<not> should_escalate c outcome
         then (\<lparr>cr_outcome = outcome, cr_model_used = step, cr_steps_attempted = attempted @ [step]\<rparr>, w')
         else cascade_loop c step_fn outcome step (attempted @ [step]) steps w')"

definition cascade_run :: "Cascade \<Rightarrow> (string \<Rightarrow> 's \<Rightarrow> StepOutcome \<times> 's) \<Rightarrow> 's \<Rightarrow> CascadeResult \<times> 's" where
  "cascade_run c step_fn w = cascade_loop c step_fn StepOutcome_default [] [] (cd_steps c) w"

section \<open>Federation\<close>

text \<open>\<open>probe\<close> is what connecting to a peer gives within the timeout: the round trip and a client.\<close>

definition pick_peer :: "(string \<Rightarrow> (duration \<times> 'c) option) \<Rightarrow> string list \<Rightarrow> (Error, string \<times> 'c) result" where
  "pick_peer probe peers =
     (if peers = [] then Inl (Unavailable ''no federation peers configured'')
      else let reached = List.map_filter (\<lambda>p. map_option (\<lambda>(rtt, c). (rtt, p, c)) (probe p)) peers;
               best = (case reached of
                         [] \<Rightarrow> None
                       | x # xs \<Rightarrow> Some (foldl (\<lambda>b y. if fst y < fst b then y else b) x xs))
           in case best of
                Some (_, p, c) \<Rightarrow> Inr (p, c)
              | None \<Rightarrow> Inl (Unavailable (''all '' @ show_nat (length peers) @ '' federation peers unreachable'')))"

section \<open>Energy autoscaler of the router\<close>

record AutoscalerConfig =
  as_enabled :: bool
  as_idle_util_pct :: f32
  as_high_watt_threshold :: f32
  as_deadline_admission :: bool

definition AUTOSCALER :: string where "AUTOSCALER = ''/cognitora/autoscaler/''"

definition node_load :: "NodeEntry \<Rightarrow> f32" where
  "node_load n = min (fdiv (nat_as_f32 (ne_queue_depth n)) (nat_as_f32 (max (ne_total_blocks n) 1))) 1"

definition avg_load :: "NodeEntry list \<Rightarrow> f32" where
  "avg_load ns = fdiv (foldl (\<lambda>a n. fadd a (node_load n)) 0 ns) (nat_as_f32 (length ns))"

text \<open>The hint of one node: its key and the \<open>drain\<close> flag. The free-text fields of the JSON body are
  left out. \<open>put_ok\<close> says which etcd writes succeed; a failed one is logged.\<close>

definition autoscaler_hints :: "AutoscalerConfig \<Rightarrow> NodeEntry list \<Rightarrow> (string \<times> bool) list" where
  "autoscaler_hints cfg nodes =
     (let cluster_idle = fmul (avg_load nodes) 100 < as_idle_util_pct cfg
      in map (\<lambda>n. (AUTOSCALER @ ne_node_id n, cluster_idle \<and> as_high_watt_threshold cfg < ne_power_watts n)) nodes)"

definition autoscaler_tick ::
  "AutoscalerConfig \<Rightarrow> string list \<Rightarrow> (string, unit) result \<Rightarrow> (string \<Rightarrow> bool) \<Rightarrow> NodeEntry list
     \<Rightarrow> (string \<rightharpoonup> bool) \<Rightarrow> (Error, unit) result \<times> (string \<rightharpoonup> bool)" where
  "autoscaler_tick cfg endpoints connect put_ok nodes etcd =
     (if nodes = [] \<or> endpoints = [] then (Inr (), etcd)
      else case connect of
             Inl e \<Rightarrow> (Inl (Etcd (''connect: '' @ e)), etcd)
           | Inr _ \<Rightarrow>
               (Inr (), foldl (\<lambda>m (k, d). if put_ok k then m(k \<mapsto> d) else m) etcd (autoscaler_hints cfg nodes)))"

section \<open>Hint consumer of the operator\<close>

record Hint =
  hi_drain :: bool
  hi_reason :: string

text \<open>\<open>from_str\<close> and \<open>to_string\<close> are \<open>serde_json\<close>; the etcd store holds strings.\<close>

definition json_get :: "string \<Rightarrow> json \<Rightarrow> json option" where
  "json_get k v = (case v of JObject fs \<Rightarrow> map_of fs k | _ \<Rightarrow> None)"

definition is_autoscaler_cordon :: "(string \<Rightarrow> json option) \<Rightarrow> string \<Rightarrow> bool" where
  "is_autoscaler_cordon from_str v =
     (case do { j \<leftarrow> from_str v; s \<leftarrow> json_get ''set_by'' j; json_str s } of
        None \<Rightarrow> False
      | Some s \<Rightarrow> s = ''autoscaler'')"

definition cordon_body :: "string \<Rightarrow> string \<Rightarrow> json" where
  "cordon_body reason stamp =
     JObject [(''set_by'', JString ''autoscaler''), (''reason'', JString reason), (''stamp'', JString stamp)]"

text \<open>One hint against the cordon keys, with the watch events the store then emits.\<close>

definition apply_hint ::
  "(string \<Rightarrow> json option) \<Rightarrow> (json \<Rightarrow> string) \<Rightarrow> string \<Rightarrow> node_id \<Rightarrow> Hint \<Rightarrow> (string \<rightharpoonup> string)
     \<Rightarrow> (string \<rightharpoonup> string) \<times> cl_event list" where
  "apply_hint from_str to_string stamp nid hint etcd =
     (let key = CORDON @ nid; existing = etcd key
      in if hi_drain hint
         then (if existing \<noteq> None then (etcd, [])
               else (etcd(key \<mapsto> to_string (cordon_body (hi_reason hint) stamp)), [CordonPut (Some key)]))
         else (case existing of
                 Some v \<Rightarrow> if is_autoscaler_cordon from_str v
                           then (etcd(key := None), [CordonDelete (Some key)]) else (etcd, [])
               | None \<Rightarrow> (etcd, [])))"

text \<open>A tick of the consumer: the hint keys and their decoded values, in order.\<close>

fun operator_tick ::
  "(string \<Rightarrow> json option) \<Rightarrow> (json \<Rightarrow> string) \<Rightarrow> string \<Rightarrow> (string \<times> Hint option) list \<Rightarrow> (string \<rightharpoonup> string)
     \<Rightarrow> (string \<rightharpoonup> string) \<times> cl_event list" where
  "operator_tick from_str to_string stamp [] etcd = (etcd, [])"
| "operator_tick from_str to_string stamp ((key, v) # kvs) etcd =
     (case (strip_prefix AUTOSCALER key, v) of
        (Some nid, Some hint) \<Rightarrow>
          (let (etcd1, e1) = apply_hint from_str to_string stamp nid hint etcd;
               (etcd2, e2) = operator_tick from_str to_string stamp kvs etcd1
           in (etcd2, e1 @ e2))
      | _ \<Rightarrow> operator_tick from_str to_string stamp kvs etcd)"

section \<open>Replica planner\<close>

definition DEFAULT_MIN_REPLICAS :: nat where "DEFAULT_MIN_REPLICAS = 1"
definition DEFAULT_COOLDOWN_SECS :: nat where "DEFAULT_COOLDOWN_SECS = 120"

record Heartbeat =
  hb_model :: "string option"
  hb_queue_depth :: nat
  hb_ready :: bool

record Slo =
  sl_max_queue_per_replica :: "nat option"
  sl_min_replicas :: "nat option"
  sl_max_replicas :: "nat option"
  sl_scale_cooldown_secs :: "nat option"

record ModelPool =
  mp_name :: string
  mp_namespace :: "string option"
  mp_model :: string
  mp_decode_replicas :: nat
  mp_slo :: "Slo option"

definition clamp_nat :: "nat \<Rightarrow> nat \<Rightarrow> nat \<Rightarrow> nat" where
  "clamp_nat x lo hi = (if x < lo then lo else if hi < x then hi else x)"

definition desired_replicas :: "nat \<Rightarrow> nat \<Rightarrow> nat \<Rightarrow> nat \<Rightarrow> nat" where
  "desired_replicas total_queue max_queue_per_replica lo hi =
     (let per = max max_queue_per_replica 1 in clamp_nat (div_ceil total_queue per) lo (max hi lo))"

text \<open>The sum is a \<open>u32\<close>.\<close>

definition total_queue :: "string \<Rightarrow> Heartbeat list \<Rightarrow> nat" where
  "total_queue model hbs =
     sum_list (map hb_queue_depth (filter (\<lambda>h. hb_ready h \<and> hb_model h = Some model) hbs)) mod 2 ^ 32"

definition pool_key :: "ModelPool \<Rightarrow> string" where
  "pool_key pool = (case mp_namespace pool of None \<Rightarrow> ''default'' | Some ns \<Rightarrow> ns) @ ''/'' @ mp_name pool"

text \<open>\<open>patch\<close> is the outcome of the patch request; the result is the new replica count, if any.
  \<open>now\<close> is in seconds.\<close>

definition plan_pool ::
  "(string, unit) result \<Rightarrow> instant \<Rightarrow> Heartbeat list \<Rightarrow> ModelPool \<Rightarrow> (string \<rightharpoonup> instant)
     \<Rightarrow> (Error, nat option) result \<times> (string \<rightharpoonup> instant)" where
  "plan_pool patch now hbs pool last_scale =
     (case Option.bind (mp_slo pool) sl_max_queue_per_replica of
        None \<Rightarrow> (Inr None, last_scale)
      | Some max_queue \<Rightarrow>
          let slo = the (mp_slo pool); current = mp_decode_replicas pool;
              lo = (case sl_min_replicas slo of None \<Rightarrow> DEFAULT_MIN_REPLICAS | Some m \<Rightarrow> m);
              hi = (case sl_max_replicas slo of None \<Rightarrow> current | Some m \<Rightarrow> m);
              desired = desired_replicas (total_queue (mp_model pool) hbs) max_queue lo hi;
              cooldown = (case sl_scale_cooldown_secs slo of None \<Rightarrow> DEFAULT_COOLDOWN_SECS | Some c \<Rightarrow> c)
          in if max_queue = 0 \<or> desired = current then (Inr None, last_scale)
             else if (case last_scale (pool_key pool) of None \<Rightarrow> False | Some t \<Rightarrow> now - t < cooldown)
             then (Inr None, last_scale)
             else case patch of
                    Inl e \<Rightarrow> (Inl (Unavailable (''patch model pool spec: '' @ e)), last_scale)
                  | Inr _ \<Rightarrow> (Inr (Some desired), last_scale(pool_key pool \<mapsto> now)))"

section \<open>Properties of the policies\<close>

lemma deadline_sound:
  "deadline_check True cfg req n = AdmitReq \<longleftrightarrow> estimate_ttft_ms cfg n \<le> unat (effective_deadline_ms cfg req)"
  by (auto simp: deadline_check_def Let_def)

text \<open>A request that asks for very many tokens gets a deadline of less than the objective, because
  the saturated product and the objective are added with wrap-around.\<close>

lemma huge_max_tokens_wraps:
  "effective_deadline_ms \<lparr>ac_max_queue = 1024, ac_ttft_slo = 800, ac_max_concurrent_per_replica = 16\<rparr>
     (req\<lparr>gr_deadline_ms := 0, gr_params := Some (p\<lparr>sp_max_tokens := 200000000\<rparr>)\<rparr>) = 799"
  by (simp add: effective_deadline_ms_def duration_to_ms_def saturating_mul_u32_def U32_MAX_def)

lemma carbon_rejects_only_low:
  "check_admission cfg s p = CarbonReject i t \<longleftrightarrow>
     cc_enabled cfg \<and> p = PLow \<and> \<not> cb_stale s \<and> i = cb_intensity s \<and> t = cc_intensity_threshold cfg \<and> t < i"
  by (auto simp: check_admission_def)

lemma cascade_loop_spec:
  assumes "cascade_loop c (\<lambda>m w. (f m, w)) l lm att steps w = (r, w')" and "steps \<noteq> []"
  shows "\<exists>pre m post. steps = pre @ m # post \<and> cr_model_used r = m \<and> cr_outcome r = f m \<and>
    cr_steps_attempted r = att @ pre @ [m] \<and> (\<forall>x \<in> set pre. should_escalate c (f x)) \<and>
    (should_escalate c (f m) \<longrightarrow> post = [])"
  using assms
proof (induction steps arbitrary: l lm att)
  case (Cons s steps)
  show ?case
  proof (cases "should_escalate c (f s) \<and> steps \<noteq> []")
    case True
    with Cons.prems(1) have "cascade_loop c (\<lambda>m w. (f m, w)) (f s) s (att @ [s]) steps w = (r, w')"
      by simp
    from Cons.IH [OF this] True obtain pre m post where *: "steps = pre @ m # post" "cr_model_used r = m"
      "cr_outcome r = f m" "cr_steps_attempted r = (att @ [s]) @ pre @ [m]"
      "\<forall>x \<in> set pre. should_escalate c (f x)" "should_escalate c (f m) \<longrightarrow> post = []"
      by blast
    then show ?thesis using True by (intro exI [of _ "s # pre"] exI [of _ m] exI [of _ post]) simp
  next
    case False
    with Cons.prems(1) have "cr_model_used r = s \<and> cr_outcome r = f s \<and> cr_steps_attempted r = att @ [s]"
      by (cases "should_escalate c (f s)") auto
    with False show ?thesis by (intro exI [of _ "[]"] exI [of _ s] exI [of _ steps]) auto
  qed
qed simp

lemma foldl_min:
  "foldl (\<lambda>b y. if fst y < fst b then y else b) x xs \<in> set (x # xs) \<and>
   (\<forall>y \<in> set (x # xs). fst (foldl (\<lambda>b y. if fst y < fst b then y else b) x xs) \<le> (fst y :: nat))"
proof (induction xs arbitrary: x)
  case (Cons y xs)
  show ?case
  proof (cases "fst y < fst x")
    case True
    with Cons [of y] show ?thesis by (auto intro: order_trans [OF _ less_imp_le])
  next
    case False
    with Cons [of x] show ?thesis by force
  qed
qed simp

lemma pick_peer_fastest:
  assumes "pick_peer probe peers = Inr (p, c)"
  shows "\<exists>rtt. p \<in> set peers \<and> probe p = Some (rtt, c) \<and>
    (\<forall>q \<in> set peers. \<forall>r d. probe q = Some (r, d) \<longrightarrow> rtt \<le> r)"
proof -
  let ?reached = "List.map_filter (\<lambda>p. map_option (\<lambda>(rtt, c). (rtt, p, c)) (probe p)) peers"
  have set: "(r, q, d) \<in> set ?reached \<longleftrightarrow> q \<in> set peers \<and> probe q = Some (r, d)" for r q d
    by (force simp: List.map_filter_def)
  obtain x xs where r: "?reached = x # xs"
    using assms by (cases ?reached) (auto simp: pick_peer_def split: if_splits)
  then obtain rtt where b: "foldl (\<lambda>b y. if fst y < fst b then y else b) x xs = (rtt, p, c)"
    using assms by (auto simp: pick_peer_def split: if_splits prod.splits)
  have "(rtt, p, c) \<in> set ?reached" "\<forall>y \<in> set ?reached. rtt \<le> fst y"
    using foldl_min [of x xs] unfolding b r by auto
  then show ?thesis using set by fastforce
qed

section \<open>Manual cordons\<close>

lemma apply_hint_manual:
  assumes "etcd (CORDON @ nid) = Some v" and "\<not> is_autoscaler_cordon from_str v"
  shows "fst (apply_hint from_str to_string stamp m hint etcd) (CORDON @ nid) = Some v"
  using assms by (auto simp: apply_hint_def Let_def split: option.splits)

lemma operator_tick_manual:
  assumes "etcd (CORDON @ nid) = Some v" and "\<not> is_autoscaler_cordon from_str v"
  shows "fst (operator_tick from_str to_string stamp kvs etcd) (CORDON @ nid) = Some v"
  using assms(1)
proof (induction kvs arbitrary: etcd)
  case (Cons kv kvs)
  obtain key w where kv: "kv = (key, w)" by (cases kv)
  show ?case
  proof (cases "strip_prefix AUTOSCALER key = None \<or> w = None")
    case True
    with Cons kv show ?thesis by (auto split: option.splits)
  next
    case False
    then obtain m hint where m: "strip_prefix AUTOSCALER key = Some m" "w = Some hint" by auto
    obtain etcd1 e1 where h: "apply_hint from_str to_string stamp m hint etcd = (etcd1, e1)"
      by (metis surj_pair)
    have "etcd1 (CORDON @ nid) = Some v"
      using apply_hint_manual [of etcd nid v from_str to_string stamp m hint] Cons.prems assms(2) by (simp add: h)
    then show ?thesis using Cons.IH [of etcd1] by (auto simp: kv m h split: prod.splits)
  qed
qed simp

section \<open>The planner\<close>

lemma clamp_nat_range: "lo \<le> hi \<Longrightarrow> lo \<le> clamp_nat x lo hi \<and> clamp_nat x lo hi \<le> hi"
  by (simp add: clamp_nat_def)

text \<open>The planner's target stays between the floor and the ceiling of the pool (the floor wins
  when they contradict each other); unless the ceiling cuts it, every replica of the target
  carries at most the allowed queue; and unless the floor lifts it, one replica less would
  not.\<close>

lemma desired_replicas_exact:
  assumes "0 < per" and "d = desired_replicas q per lo hi"
  shows "lo \<le> d \<and> d \<le> max hi lo \<and> (d < max hi lo \<longrightarrow> q \<le> d * per) \<and> (lo < d \<longrightarrow> (d - 1) * per < q)"
proof -
  let ?n = "div_ceil q per"
  have d: "d = clamp_nat ?n lo (max hi lo)"
    using assms by (simp add: desired_replicas_def Let_def max_absorb1)
  have le: "?n \<le> k \<longleftrightarrow> q \<le> k * per" for k by (rule div_ceil_least [OF assms(1)])
  have "lo \<le> d" "d \<le> max hi lo" using clamp_nat_range [of lo "max hi lo" ?n] by (simp_all add: d)
  moreover have "q \<le> d * per" if "d < max hi lo"
    using that unfolding le [symmetric] by (auto simp: d clamp_nat_def split: if_splits)
  moreover have "(d - 1) * per < q" if "lo < d"
  proof -
    have "\<not> ?n \<le> d - 1" using that by (auto simp: d clamp_nat_def split: if_splits)
    then show ?thesis using le [of "d - 1"] by simp
  qed
  ultimately show ?thesis by blast
qed

lemma desired_replicas_exact_witness:
  "desired_replicas 41 10 1 8 = 5 \<and> (41 :: nat) \<le> 5 * 10 \<and> (5 - 1) * 10 < (41 :: nat)"
proof -
  have v: "desired_replicas 41 10 1 8 = 5"
    by (simp add: desired_replicas_def div_ceil_def clamp_nat_def)
  with desired_replicas_exact [of 10 5 41 1 8] show ?thesis by simp
qed

text \<open>A pool is scaled at most once per cooldown, and never without an objective of its own.\<close>

lemma plan_pool_cooldown:
  assumes "plan_pool patch now hbs pool ls = (Inr (Some d), ls')"
    and "now' - now < (case sl_scale_cooldown_secs (the (mp_slo pool)) of None \<Rightarrow> DEFAULT_COOLDOWN_SECS | Some c \<Rightarrow> c)"
  shows "plan_pool patch' now' hbs' (pool\<lparr>mp_decode_replicas := d\<rparr>) ls' = (Inr None, ls')"
proof -
  have "ls' (pool_key pool) = Some now"
    using assms(1) by (auto simp: plan_pool_def Let_def split: option.splits if_splits sum.splits)
  moreover have "pool_key (pool\<lparr>mp_decode_replicas := d\<rparr>) = pool_key pool" by (simp add: pool_key_def)
  ultimately show ?thesis using assms(2)
    by (auto simp: plan_pool_def Let_def split: option.splits)
qed

end
