(* ===== verification/Cgn_Dispatch.thy ===== *)
theory Cgn_Dispatch
  imports Cgn_Policies Cgn_Selector_Props
begin

text \<open>
  The dispatch path of the gateway (\<open>gateway/generate.rs\<close>, from admission to the first token)
  with the agent connections of \<open>state.rs\<close>. The network is an environment per attempt: what
  dialling an address, an agent call or a federation peer gives. A stream is the list of its
  items and whether the first of them is late. The prompt's token ids and the outcome of
  admission are arguments; metrics and log lines are left out.
\<close>

section \<open>Agents and their streams\<close>

record Token =
  tk_text :: string
  tk_logprob :: f32
  tk_finish :: string
  tk_tool_calls_json :: string
  tk_prompt_tokens :: u32
  tk_completion_tokens :: u32
  tk_logprobs_json :: string

type_synonym stream_item = "(status, Token) result"

record TokenStream =
  ts_late :: bool
  ts_items :: "stream_item list"

record AgentGenerateRequest =
  aq_model :: string
  aq_messages :: "Message list"
  aq_params :: "SamplingParams option"
  aq_prefill_only :: bool
  aq_decode_only :: bool
  aq_blocks :: "bytes list"
  aq_traceparent :: string
  aq_tracestate :: string
  aq_extensions_json :: string
  aq_digests :: "bytes list"
  aq_prompt :: string

record agent_env =
  ev_now :: instant
  ev_endpoint :: "string \<Rightarrow> (string, unit) result"
  ev_tls :: "string \<times> string \<times> string \<Rightarrow> string \<Rightarrow> (string, unit) result"
  ev_dial :: "string \<Rightarrow> (string, unit) result"
  ev_show_status :: "status \<Rightarrow> string"
  ev_generate :: "string \<Rightarrow> AgentGenerateRequest \<Rightarrow> (status, TokenStream) result"
  ev_probe :: "string \<Rightarrow> (duration \<times> unit) option"
  ev_forward :: "string \<Rightarrow> GenerateRequest \<Rightarrow> (string, TokenStream) result"

record RouterCfg =
  rc_disagg_enabled :: bool
  rc_colocate_below_tokens :: nat
  rc_deadline_admission :: bool
  rc_admission :: AdmissionConfig
  rc_federation :: bool
  rc_peers :: "string list"
  rc_require_mtls :: bool
  rc_ca_file :: "string option"
  rc_cert_file :: "string option"
  rc_key_file :: "string option"

record Router =
  ro_state :: SharedState
  ro_channels :: "string set"
  ro_permits :: nat

section \<open>Connections\<close>

text \<open>\<open>str::split\<close> at a pattern, first two pieces: the text after the first occurrence up to the
  next one.\<close>

fun after_pat :: "string \<Rightarrow> string \<Rightarrow> string option" where
  "after_pat p [] = (if p = [] then Some [] else None)"
| "after_pat p (c # cs) = (case strip_prefix p (c # cs) of Some r \<Rightarrow> Some r | None \<Rightarrow> after_pat p cs)"

fun before_pat :: "string \<Rightarrow> string \<Rightarrow> string" where
  "before_pat p [] = []"
| "before_pat p (c # cs) = (case strip_prefix p (c # cs) of Some _ \<Rightarrow> [] | None \<Rightarrow> c # before_pat p cs)"

definition extract_host :: "string \<Rightarrow> string option" where
  "extract_host uri =
     do { r \<leftarrow> after_pat ''://'' uri;
          let host = takeWhile (\<lambda>c. c \<noteq> CHR '':'') (takeWhile (\<lambda>c. c \<noteq> CHR ''/'') (before_pat ''://'' r)) in
          if host = [] then None else Some host }"

definition tls_setup :: "RouterCfg \<Rightarrow> agent_env \<Rightarrow> string \<Rightarrow> (Error, unit) result" where
  "tls_setup cfg ev uri =
     (if \<not> rc_require_mtls cfg then Inr ()
      else case (rc_ca_file cfg, rc_cert_file cfg, rc_key_file cfg) of
             (Some ca, Some cert, Some key) \<Rightarrow>
               (case ev_tls ev (ca, cert, key) (case extract_host uri of None \<Rightarrow> ''localhost'' | Some h \<Rightarrow> h) of
                  Inl e \<Rightarrow> Inl (Tls e)
                | Inr _ \<Rightarrow> Inr ())
           | _ \<Rightarrow> Inl (Config ''require_mtls=true but [security].ca_file/cert_file/key_file are not set''))"

definition connect_agent :: "RouterCfg \<Rightarrow> agent_env \<Rightarrow> string \<Rightarrow> Router \<Rightarrow> (Error, unit) result \<times> Router" where
  "connect_agent cfg ev uri ro =
     (if uri \<in> ro_channels ro then (Inr (), ro)
      else case ev_endpoint ev uri of
             Inl e \<Rightarrow> (Inl (Internal (''agent endpoint: '' @ e)), ro)
           | Inr _ \<Rightarrow>
               (case tls_setup cfg ev uri of
                  Inl e \<Rightarrow> (Inl e, ro)
                | Inr _ \<Rightarrow>
                    (case ev_dial ev uri of
                       Inl e \<Rightarrow> (Inl (Unavailable (''agent connect '' @ uri @ '': '' @ e)), ro)
                     | Inr _ \<Rightarrow> (Inr (), ro\<lparr>ro_channels := insert uri (ro_channels ro)\<rparr>))))"

definition forget_agent :: "string \<Rightarrow> Router \<Rightarrow> Router" where
  "forget_agent uri ro = ro\<lparr>ro_channels := ro_channels ro - {uri}\<rparr>"

section \<open>One attempt\<close>

definition prefill_request :: "GenerateRequest \<Rightarrow> AgentGenerateRequest" where
  "prefill_request req =
     \<lparr>aq_model = gr_model req, aq_messages = gr_messages req, aq_params = gr_params req,
      aq_prefill_only = True, aq_decode_only = False, aq_blocks = [],
      aq_traceparent = gr_traceparent req, aq_tracestate = gr_tracestate req,
      aq_extensions_json = gr_extensions_json req, aq_digests = [], aq_prompt = gr_prompt req\<rparr>"

definition run_prefill :: "RouterCfg \<Rightarrow> agent_env \<Rightarrow> string \<Rightarrow> GenerateRequest \<Rightarrow> Router \<Rightarrow> bytes list option \<times> Router" where
  "run_prefill cfg ev address req ro =
     (case connect_agent cfg ev address ro of
        (Inl _, ro') \<Rightarrow> (None, ro')
      | (Inr _, ro') \<Rightarrow>
          (case ev_generate ev address (prefill_request req) of
             Inl _ \<Rightarrow> (None, ro')
           | Inr _ \<Rightarrow> (Some [], ro')))"

definition decode_request :: "GenerateRequest \<Rightarrow> bytes list \<Rightarrow> bytes list \<Rightarrow> AgentGenerateRequest" where
  "decode_request req blocks digests =
     \<lparr>aq_model = gr_model req, aq_messages = gr_messages req, aq_params = gr_params req,
      aq_prefill_only = False, aq_decode_only = (blocks \<noteq> []), aq_blocks = blocks,
      aq_traceparent = gr_traceparent req, aq_tracestate = gr_tracestate req,
      aq_extensions_json = gr_extensions_json req, aq_digests = digests, aq_prompt = gr_prompt req\<rparr>"

definition guard_node :: "node_id \<Rightarrow> Router \<Rightarrow> Router" where
  "guard_node nid ro = ro\<lparr>ro_state := track_node nid (ro_state ro)\<rparr>"

definition release_node :: "node_id \<Rightarrow> Router \<Rightarrow> Router" where
  "release_node nid ro = ro\<lparr>ro_state := drop_guard nid (ro_state ro)\<rparr>"

definition announce :: "instant \<Rightarrow> bytes list \<Rightarrow> node_id \<Rightarrow> Router \<Rightarrow> Router" where
  "announce now digests nid ro =
     ro\<lparr>ro_state := (ro_state ro)\<lparr>st_cluster := (st_cluster (ro_state ro))\<lparr>cl_prefix :=
       insert_many now digests nid (cl_prefix (st_cluster (ro_state ro)))\<rparr>\<rparr>\<rparr>"

definition decide ::
  "(bytes \<Rightarrow> bytes) \<Rightarrow> (NodeRegistry \<Rightarrow> node_id list) \<Rightarrow> RouterCfg \<Rightarrow> instant \<Rightarrow> SharedState \<Rightarrow> RouteKey \<Rightarrow> string list
     \<Rightarrow> (Error, RoutingDecision \<times> RoutingDecision) result" where
  "decide H order cfg now st key exclude =
     (case plan (rc_disagg_enabled cfg) (rc_colocate_below_tokens cfg) (length (rk_token_ids key)) of
        Colocate \<Rightarrow>
          (case pick_excluding H order now st key RoleBoth exclude of Inl e \<Rightarrow> Inl e | Inr d \<Rightarrow> Inr (d, d))
      | Split prefill_role decode_role \<Rightarrow> pick_pair H order now st key prefill_role decode_role exclude)"

text \<open>Everything after the node is tracked; an error drops the guard.\<close>

definition call_agent ::
  "RouterCfg \<Rightarrow> agent_env \<Rightarrow> GenerateRequest \<Rightarrow> RoutingDecision \<Rightarrow> RoutingDecision \<Rightarrow> Router
     \<Rightarrow> (Error, TokenStream) result \<times> Router" where
  "call_agent cfg ev req p d ro =
     (let nid = ne_node_id (rd_node d); address = ne_address (rd_node d);
          split = (ne_node_id (rd_node p) \<noteq> nid);
          (blocks, ro1) = (if split then
             (case run_prefill cfg ev (ne_address (rd_node p)) req ro of
                (None, r) \<Rightarrow> ([], r) | (Some bs, r) \<Rightarrow> (bs, r)) else ([], ro))
      in case connect_agent cfg ev address ro1 of
           (Inl e, ro2) \<Rightarrow> (Inl e, ro2)
         | (Inr _, ro2) \<Rightarrow>
             (case ev_generate ev address (decode_request req blocks (rd_digests d)) of
                Inl s \<Rightarrow> (Inl (Internal (''agent generate: '' @ ev_show_status ev s)), forget_agent address ro2)
              | Inr stream \<Rightarrow>
                  let ro3 = announce (ev_now ev) (rd_digests d) nid ro2
                  in (Inr stream,
                      if split then announce (ev_now ev) (rd_digests p) (ne_node_id (rd_node p)) ro3 else ro3)))"

definition dispatch_once ::
  "(bytes \<Rightarrow> bytes) \<Rightarrow> (NodeRegistry \<Rightarrow> node_id list) \<Rightarrow> RouterCfg \<Rightarrow> agent_env \<Rightarrow> GenerateRequest \<Rightarrow> RouteKey
     \<Rightarrow> string list \<Rightarrow> Router \<Rightarrow> (node_id option \<times> Error, TokenStream \<times> node_id \<times> string) result \<times> Router" where
  "dispatch_once H order cfg ev req key exclude ro =
     (case decide H order cfg (ev_now ev) (ro_state ro) key exclude of
        Inl e \<Rightarrow> (Inl (None, e), ro)
      | Inr (p, d) \<Rightarrow>
          let nid = ne_node_id (rd_node d); address = ne_address (rd_node d)
          in case deadline_check (rc_deadline_admission cfg) (rc_admission cfg) req (rd_node d) of
               DeadlineExceeded _ _ \<Rightarrow>
                 (Inl (Some nid, Unavailable ''deadline exceeded given current queue depth''), ro)
             | AdmQueueFull \<Rightarrow> (Inl (Some nid, Unavailable ''admission queue full''), ro)
             | AdmitReq \<Rightarrow>
                 (case call_agent cfg ev req p d (guard_node nid ro) of
                    (Inl e, ro') \<Rightarrow> (Inl (Some nid, e), release_node nid ro')
                  | (Inr stream, ro') \<Rightarrow> (Inr (stream, nid, address), ro')))"

section \<open>The first token\<close>

datatype FirstToken = Got Token "stream_item list" | Retry Error | Fatal Error

definition callers_fault :: "Code \<Rightarrow> bool" where
  "callers_fault c \<longleftrightarrow>
     c \<in> {C_InvalidArgument, C_NotFound, C_PermissionDenied, C_Unauthenticated, C_FailedPrecondition, C_OutOfRange}"

definition first_token :: "TokenStream \<Rightarrow> FirstToken" where
  "first_token s =
     (if ts_late s then Retry (Unavailable ''no token within the timeout'')
      else case ts_items s of
             [] \<Rightarrow> Retry (Internal ''engine stream ended before the first token'')
           | Inr t # rest \<Rightarrow> Got t rest
           | Inl (code, msg) # _ \<Rightarrow>
               if callers_fault code then Fatal (InvalidArgument msg) else Retry (Internal msg))"

definition retryable :: "Error \<Rightarrow> bool" where
  "retryable e = (case e of Unavailable _ \<Rightarrow> True | Internal _ \<Rightarrow> True | _ \<Rightarrow> False)"

definition is_unavailable :: "Error \<Rightarrow> bool" where
  "is_unavailable e = (case e of Unavailable _ \<Rightarrow> True | _ \<Rightarrow> False)"

record TokenFlow =
  tf_first :: "Token option"
  tf_rest :: "stream_item list"
  tf_prompt_estimate :: u32
  tf_node :: "node_id option"

text \<open>What \<open>next\<close> yields, in order.\<close>

definition flow_items :: "TokenFlow \<Rightarrow> stream_item list" where
  "flow_items f = (case tf_first f of None \<Rightarrow> [] | Some t \<Rightarrow> [Inr t]) @ tf_rest f"

section \<open>Federation fallback\<close>

definition federate :: "RouterCfg \<Rightarrow> agent_env \<Rightarrow> GenerateRequest \<Rightarrow> (Error, TokenStream) result" where
  "federate cfg ev req =
     (case pick_peer (ev_probe ev) (rc_peers cfg) of
        Inl e \<Rightarrow> Inl e
      | Inr (peer, _) \<Rightarrow>
          (case ev_forward ev peer req of
             Inl s \<Rightarrow> Inl (Unavailable (''federation forward: '' @ s))
           | Inr stream \<Rightarrow> Inr stream))"

definition fallback :: "RouterCfg \<Rightarrow> agent_env \<Rightarrow> GenerateRequest \<Rightarrow> u32 \<Rightarrow> Error \<Rightarrow> (Error, TokenFlow) result" where
  "fallback cfg ev req estimate err =
     (if rc_federation cfg \<and> rc_peers cfg \<noteq> []
      then case federate cfg ev req of
             Inl _ \<Rightarrow> Inl err
           | Inr stream \<Rightarrow>
               (case first_token stream of
                  Got t rest \<Rightarrow>
                    Inr \<lparr>tf_first = Some t, tf_rest = rest, tf_prompt_estimate = estimate, tf_node = None\<rparr>
                | _ \<Rightarrow> Inl err)
      else Inl err)"

section \<open>Retries\<close>

definition MAX_DISPATCH_ATTEMPTS :: nat where "MAX_DISPATCH_ATTEMPTS = 3"

text \<open>The loop returns the outcome, the nodes excluded so far, and the router.\<close>

fun open_loop ::
  "(bytes \<Rightarrow> bytes) \<Rightarrow> (NodeRegistry \<Rightarrow> node_id list) \<Rightarrow> RouterCfg \<Rightarrow> (nat \<Rightarrow> agent_env) \<Rightarrow> GenerateRequest \<Rightarrow> RouteKey
     \<Rightarrow> nat \<Rightarrow> string list \<Rightarrow> Error option \<Rightarrow> Router \<Rightarrow> (Error, TokenFlow) result \<times> string list \<times> Router" where
  "open_loop H order cfg env req key 0 exclude last_err ro =
     (Inl (case last_err of None \<Rightarrow> Unavailable ''dispatch exhausted'' | Some e \<Rightarrow> e), exclude, ro)"
| "open_loop H order cfg env req key (Suc n) exclude last_err ro =
     (let ev = env n; estimate = of_nat (length (rk_token_ids key)) in
      case dispatch_once H order cfg ev req key exclude ro of
        (Inr (stream, nid, address), ro') \<Rightarrow>
          (case first_token stream of
             Got t rest \<Rightarrow>
               (Inr \<lparr>tf_first = Some t, tf_rest = rest, tf_prompt_estimate = estimate, tf_node = Some nid\<rparr>,
                exclude, ro')
           | Fatal e \<Rightarrow> (Inl e, exclude, release_node nid ro')
           | Retry e \<Rightarrow>
               open_loop H order cfg env req key n (exclude @ [nid]) (Some e)
                 (release_node nid (forget_agent address ro')))
      | (Inl (None, e), ro') \<Rightarrow>
          if is_unavailable e
          then (fallback cfg ev req estimate (case last_err of None \<Rightarrow> e | Some le \<Rightarrow> le), exclude, ro')
          else (Inl e, exclude, ro')
      | (Inl (Some nid, e), ro') \<Rightarrow>
          if retryable e then open_loop H order cfg env req key n (exclude @ [nid]) (Some e) ro'
          else (Inl e, exclude, ro'))"

definition route_key :: "Router \<Rightarrow> GenerateRequest \<Rightarrow> u32 list \<Rightarrow> RouteKey" where
  "route_key ro req token_ids =
     \<lparr>rk_model = gr_model req,
      rk_salt = prefix_salt (st_isolation (ro_state ro)) (gr_model req) (gr_tenant req),
      rk_session = (if gr_session req \<noteq> [] then Some (gr_session req) else None),
      rk_token_ids = token_ids\<rparr>"

text \<open>\<open>admit\<close> is the outcome of admission. The permit is held by the flow; an error drops it.\<close>

definition open_request ::
  "(bytes \<Rightarrow> bytes) \<Rightarrow> (NodeRegistry \<Rightarrow> node_id list) \<Rightarrow> RouterCfg \<Rightarrow> (nat \<Rightarrow> agent_env) \<Rightarrow> (Error, unit) result
     \<Rightarrow> GenerateRequest \<Rightarrow> u32 list \<Rightarrow> Router \<Rightarrow> (Error, TokenFlow) result \<times> string list \<times> Router" where
  "open_request H order cfg env admit req token_ids ro =
     (case admit of
        Inl e \<Rightarrow> (Inl e, [], ro)
      | Inr _ \<Rightarrow>
          let ro1 = ro\<lparr>ro_permits := ro_permits ro + 1\<rparr>;
              (r, tried, ro2) =
                open_loop H order cfg env req (route_key ro req token_ids) MAX_DISPATCH_ATTEMPTS [] None ro1
          in (r, tried, case r of Inl _ \<Rightarrow> ro2\<lparr>ro_permits := ro_permits ro2 - 1\<rparr> | Inr _ \<Rightarrow> ro2))"

definition drop_flow :: "TokenFlow \<Rightarrow> Router \<Rightarrow> Router" where
  "drop_flow f ro =
     (let ro1 = ro\<lparr>ro_permits := ro_permits ro - 1\<rparr>
      in case tf_node f of None \<Rightarrow> ro1 | Some nid \<Rightarrow> release_node nid ro1)"

section \<open>Accounting\<close>

definition inflight :: "Router \<Rightarrow> node_id \<Rightarrow> nat" where
  "inflight ro nid = node_inflight (ro_state ro) nid"

lemma inflight_simps [simp]:
  "inflight (guard_node m ro) nid = inflight ro nid + (if nid = m then 1 else 0)"
  "inflight (release_node m ro) nid = inflight ro nid - (if nid = m then 1 else 0)"
  "inflight (announce now ds m ro) = inflight ro"
  "inflight (forget_agent a ro) = inflight ro"
  "inflight (ro\<lparr>ro_permits := k\<rparr>) = inflight ro"
  by (simp_all add: inflight_def guard_node_def release_node_def announce_def forget_agent_def
      track_node_def drop_guard_def node_inflight_def fun_eq_iff)

lemma permits_simps [simp]:
  "ro_permits (guard_node m ro) = ro_permits ro" "ro_permits (release_node m ro) = ro_permits ro"
  "ro_permits (announce now ds m ro) = ro_permits ro" "ro_permits (forget_agent a ro) = ro_permits ro"
  by (simp_all add: guard_node_def release_node_def announce_def forget_agent_def)

lemma connect_agent_keeps:
  "inflight (snd (connect_agent cfg ev a ro)) = inflight ro"
  "ro_permits (snd (connect_agent cfg ev a ro)) = ro_permits ro"
  "cl_nodes (st_cluster (ro_state (snd (connect_agent cfg ev a ro)))) = cl_nodes (st_cluster (ro_state ro))"
  "st_models (ro_state (snd (connect_agent cfg ev a ro))) = st_models (ro_state ro)"
  by (auto simp: connect_agent_def inflight_def fun_eq_iff split: sum.splits)

lemma run_prefill_keeps:
  "inflight (snd (run_prefill cfg ev a req ro)) = inflight ro"
  "ro_permits (snd (run_prefill cfg ev a req ro)) = ro_permits ro"
  "cl_nodes (st_cluster (ro_state (snd (run_prefill cfg ev a req ro)))) = cl_nodes (st_cluster (ro_state ro))"
  "st_models (ro_state (snd (run_prefill cfg ev a req ro))) = st_models (ro_state ro)"
  using connect_agent_keeps [of cfg ev a ro]
  by (auto simp: run_prefill_def split: prod.splits sum.splits)

text \<open>What an attempt leaves alone: other counters, the permits, the registry and the model table.\<close>

definition same_books :: "Router \<Rightarrow> Router \<Rightarrow> bool" where
  "same_books ro ro' \<longleftrightarrow> inflight ro' = inflight ro \<and> ro_permits ro' = ro_permits ro \<and>
     cl_nodes (st_cluster (ro_state ro')) = cl_nodes (st_cluster (ro_state ro)) \<and>
     st_models (ro_state ro') = st_models (ro_state ro)"

lemma books_simps [simp]:
  "cl_nodes (st_cluster (ro_state (guard_node m ro))) = cl_nodes (st_cluster (ro_state ro))"
  "cl_nodes (st_cluster (ro_state (release_node m ro))) = cl_nodes (st_cluster (ro_state ro))"
  "st_models (ro_state (guard_node m ro)) = st_models (ro_state ro)"
  "st_models (ro_state (release_node m ro)) = st_models (ro_state ro)"
  by (simp_all add: guard_node_def release_node_def track_node_def drop_guard_def)

lemma same_books_refl [simp]: "same_books ro ro"
  by (simp add: same_books_def)

lemma same_books_trans: "same_books a b \<Longrightarrow> same_books b c \<Longrightarrow> same_books a c"
  by (simp add: same_books_def)

lemma same_books_steps:
  "same_books ro (announce now ds m ro)" "same_books ro (forget_agent a ro)"
  "same_books ro (snd (connect_agent cfg ev a ro))" "same_books ro (snd (run_prefill cfg ev a req ro))"
  by (simp_all add: same_books_def connect_agent_keeps run_prefill_keeps)
    (simp_all add: announce_def forget_agent_def)

lemma same_books_guard:
  assumes "same_books (guard_node m ro) ro'"
  shows "same_books ro (release_node m ro')"
proof -
  have "inflight (release_node m ro') nid = inflight ro nid" for nid
    using assms by (simp add: same_books_def)
  then have "inflight (release_node m ro') = inflight ro" by (rule ext)
  then show ?thesis using assms by (simp add: same_books_def)
qed

lemma same_books_guard_cong:
  assumes "same_books a b"
  shows "same_books (guard_node m a) (guard_node m b)"
proof -
  have "inflight (guard_node m b) nid = inflight (guard_node m a) nid" for nid
    using assms by (simp add: same_books_def)
  then have "inflight (guard_node m b) = inflight (guard_node m a)" by (rule ext)
  then show ?thesis using assms by (simp add: same_books_def)
qed

text \<open>The books after an outcome: one more request on the flow's node, if it has one.\<close>

definition books_after :: "Router \<Rightarrow> (Error, TokenFlow) result \<Rightarrow> Router \<Rightarrow> bool" where
  "books_after ro r ro' =
     (case r of
        Inl _ \<Rightarrow> same_books ro ro'
      | Inr f \<Rightarrow> (case tf_node f of None \<Rightarrow> same_books ro ro' | Some nid \<Rightarrow> same_books (guard_node nid ro) ro'))"

lemma books_after_trans:
  assumes "same_books a b" and "books_after b r c"
  shows "books_after a r c"
proof -
  have "same_books (guard_node m a) c" if "same_books (guard_node m b) c" for m
    by (rule same_books_trans [OF same_books_guard_cong [OF assms(1)] that])
  moreover have "same_books a c" if "same_books b c" by (rule same_books_trans [OF assms(1) that])
  ultimately show ?thesis using assms(2) by (auto simp: books_after_def split: sum.splits option.splits)
qed

lemma prefill_phase_keeps:
  "same_books ro (snd (if split then
     (case run_prefill cfg ev a req ro of (None, r) \<Rightarrow> ([], r) | (Some bs, r) \<Rightarrow> (bs, r)) else ([], ro)))"
  using same_books_steps(4) [of ro cfg ev a req] by (auto split: prod.splits option.splits)

lemma call_agent_keeps: "same_books ro (snd (call_agent cfg ev req p d ro))"
proof -
  let ?split = "ne_node_id (rd_node p) \<noteq> ne_node_id (rd_node d)"
  let ?a = "ne_address (rd_node d)"
  obtain blocks ro1 where b: "(if ?split then
      (case run_prefill cfg ev (ne_address (rd_node p)) req ro of (None, r) \<Rightarrow> ([], r) | (Some bs, r) \<Rightarrow> (bs, r))
      else ([], ro)) = (blocks, ro1)" by (rule prod.exhaust)
  have 1: "same_books ro ro1"
    using prefill_phase_keeps [of ro ?split cfg ev "ne_address (rd_node p)" req] unfolding b by simp
  obtain c ro2 where c: "connect_agent cfg ev ?a ro1 = (c, ro2)" by (rule prod.exhaust)
  have "same_books ro1 ro2" using same_books_steps(3) [of ro1 cfg ev ?a] by (simp add: c)
  then have 2: "same_books ro ro2" by (rule same_books_trans [OF 1])
  have 3: "same_books ro (announce t ds m ro2)" for t ds m
    by (rule same_books_trans [OF 2 same_books_steps(1)])
  have f: "same_books ro (forget_agent ?a ro2)" by (rule same_books_trans [OF 2 same_books_steps(2)])
  have 4: "same_books ro (announce t ds m (announce t' ds' m' ro2))" for t ds m t' ds' m'
    by (rule same_books_trans [OF 3(1) same_books_steps(1)])
  show ?thesis
  proof (cases c)
    case (Inl e)
    then show ?thesis unfolding call_agent_def Let_def b by (simp add: c 2)
  next
    case (Inr u)
    then show ?thesis unfolding call_agent_def Let_def b
      by (simp add: c 3 4 f split: sum.splits)
  qed
qed

lemma dispatch_once_books:
  assumes "dispatch_once H order cfg ev req key exclude ro = (r, ro')"
  shows "case r of
      Inl _ \<Rightarrow> same_books ro ro'
    | Inr (_, nid, _) \<Rightarrow> same_books (guard_node nid ro) ro'"
proof (cases "decide H order cfg (ev_now ev) (ro_state ro) key exclude")
  case (Inl e)
  with assms show ?thesis by (auto simp: dispatch_once_def)
next
  case (Inr pd)
  obtain p d where pd: "pd = (p, d)" by (cases pd)
  let ?nid = "ne_node_id (rd_node d)"
  obtain q ro1 where c: "call_agent cfg ev req p d (guard_node ?nid ro) = (q, ro1)" by (metis surj_pair)
  have k: "same_books (guard_node ?nid ro) ro1"
    using call_agent_keeps [of "guard_node ?nid ro" cfg ev req p d] by (simp add: c)
  show ?thesis
    using assms Inr pd c k same_books_guard [OF k]
    by (auto simp: dispatch_once_def Let_def split: AdmissionOutcome.splits sum.splits)
qed

lemma open_loop_books:
  "open_loop H order cfg env req key n exclude le ro = (r, tried, ro') \<Longrightarrow>
     books_after ro r ro'"
proof (induction n arbitrary: exclude le ro)
  case (Suc n)
  obtain q ro1 where d: "dispatch_once H order cfg (env n) req key exclude ro = (q, ro1)" by (metis surj_pair)
  note books = dispatch_once_books [OF d]
  show ?case
  proof (cases q)
    case (Inl ne)
    obtain nid e where ne: "ne = (nid, e)" by (cases ne)
    have b: "same_books ro ro1" using books Inl by (simp split: prod.splits)
    show ?thesis
    proof (cases "nid \<noteq> None \<and> retryable e")
      case True
      then obtain m where "nid = Some m" by auto
      with Suc.prems d Inl ne True have
        "open_loop H order cfg env req key n (exclude @ [m]) (Some e) ro1 = (r, tried, ro')"
        by (simp add: Let_def)
      from books_after_trans [OF b Suc.IH [OF this]] show ?thesis .
    next
      case False
      have "ro' = ro1" "\<And>f. r = Inr f \<Longrightarrow> tf_node f = None"
        using Suc.prems d Inl ne False
        by (auto simp: Let_def fallback_def split: option.splits if_splits sum.splits FirstToken.splits)
      with b show ?thesis by (auto simp: books_after_def split: sum.splits)
    qed
  next
    case (Inr sna)
    obtain stream nid address where s: "sna = (stream, nid, address)" by (cases sna)
    have b: "same_books (guard_node nid ro) ro1" using books Inr s by simp
    show ?thesis
    proof (cases "first_token stream")
      case (Got t rest)
      then show ?thesis using Suc.prems d Inr s b by (auto simp: Let_def books_after_def)
    next
      case (Fatal e)
      then show ?thesis using Suc.prems d Inr s same_books_guard [OF b] by (auto simp: Let_def books_after_def)
    next
      case (Retry e)
      let ?ro2 = "release_node nid (forget_agent address ro1)"
      have "same_books (guard_node nid ro) (forget_agent address ro1)"
        using b same_books_steps(2) same_books_trans by blast
      then have b2: "same_books ro ?ro2" by (rule same_books_guard)
      have "open_loop H order cfg env req key n (exclude @ [nid]) (Some e) ?ro2 = (r, tried, ro')"
        using Suc.prems d Inr s Retry by (simp add: Let_def)
      from books_after_trans [OF b2 Suc.IH [OF this]] show ?thesis .
    qed
  qed
qed (auto simp: books_after_def)

text \<open>Opening a request that fails leaves every node's in-flight count and the number of permits as
  they were; one that succeeds charges its node and one permit, and dropping the flow gives both
  back.\<close>

lemma open_books:
  assumes "open_request H order cfg env admit req token_ids ro = (r, tried, ro')"
  shows "case r of
      Inl _ \<Rightarrow> inflight ro' = inflight ro \<and> ro_permits ro' = ro_permits ro
    | Inr f \<Rightarrow> ro_permits ro' = ro_permits ro + 1 \<and>
        (\<forall>nid. inflight ro' nid = inflight ro nid + (if tf_node f = Some nid then 1 else 0)) \<and>
        inflight (drop_flow f ro') = inflight ro \<and> ro_permits (drop_flow f ro') = ro_permits ro"
proof (cases admit)
  case (Inl e)
  with assms show ?thesis by (auto simp: open_request_def)
next
  case (Inr u)
  let ?ro1 = "ro\<lparr>ro_permits := ro_permits ro + 1\<rparr>"
  obtain r2 tried2 ro2 where l: "open_loop H order cfg env req (route_key ro req token_ids)
      MAX_DISPATCH_ATTEMPTS [] None ?ro1 = (r2, tried2, ro2)" by (rule prod_cases3)
  note b = open_loop_books [OF l]
  have r: "r = r2" "ro' = (case r2 of Inl _ \<Rightarrow> ro2\<lparr>ro_permits := ro_permits ro2 - 1\<rparr> | Inr _ \<Rightarrow> ro2)"
    using assms Inr l by (auto simp: open_request_def Let_def)
  show ?thesis
  proof (cases r2)
    case (Inl e)
    with b r show ?thesis by (simp add: books_after_def same_books_def)
  next
    case (Inr f)
    have "inflight (drop_flow f ro') = inflight ro" if "\<forall>nid. inflight ro' nid = inflight ro nid + (if tf_node f = Some nid then 1 else 0)"
      by (rule ext) (use that in \<open>auto simp: drop_flow_def Let_def split: option.splits\<close>)
    moreover have "ro_permits (drop_flow f ro') = ro_permits ro' - 1"
      by (simp add: drop_flow_def Let_def split: option.splits)
    ultimately show ?thesis using b r Inr
      by (cases "tf_node f") (auto simp: books_after_def same_books_def)
  qed
qed

section \<open>Which nodes are tried\<close>

definition first_role :: "RouterCfg \<Rightarrow> RouteKey \<Rightarrow> NodeRole" where
  "first_role cfg key =
     (case plan (rc_disagg_enabled cfg) (rc_colocate_below_tokens cfg) (length (rk_token_ids key)) of
        Colocate \<Rightarrow> RoleBoth | Split p _ \<Rightarrow> p)"

lemma pick_excluding_not_excluded:
  assumes "pick_excluding H order now st key role exclude = Inr d"
  shows "ne_node_id (rd_node d) \<notin> set exclude"
proof -
  have "rd_node d \<in> set (candidates_for order st (rk_model key) role exclude)"
    using best_of_max [OF pick_excluding_Inr(1) [OF assms]] set_prefer_under_cap by blast
  then show ?thesis by (auto simp: candidates_for_def Let_def)
qed

lemma pick_excluding_error:
  assumes "pick_excluding H order now st key role exclude = Inl e"
  shows "is_unavailable e \<and> candidates_for order st (rk_model key) role exclude = []"
proof -
  have c: "candidates_for order st (rk_model key) role exclude = []"
    using assms pick_excluding_Inl by blast
  with assms show ?thesis by (auto simp: pick_excluding_def Let_def is_unavailable_def)
qed

lemma decide_excludes:
  assumes "decide H order cfg now st key exclude = Inr (p, d)"
  shows "ne_node_id (rd_node d) \<notin> set exclude"
proof (cases "plan (rc_disagg_enabled cfg) (rc_colocate_below_tokens cfg) (length (rk_token_ids key))")
  case Colocate
  with assms have "pick_excluding H order now st key RoleBoth exclude = Inr d"
    by (auto simp: decide_def split: sum.splits)
  then show ?thesis by (rule pick_excluding_not_excluded)
next
  case (Split pr dr)
  with assms have pp: "pick_pair H order now st key pr dr exclude = Inr (p, d)" by (simp add: decide_def)
  then obtain q where q: "pick_excluding H order now st key pr exclude = Inr q"
    by (auto simp: pick_pair_def split: sum.splits)
  let ?ns = "prefer_under_cap (filter (\<lambda>n. ne_node_id n \<noteq> ne_node_id (rd_node q) \<and> ne_node_id n \<notin> set exclude)
    (nodes_for (order (cl_nodes (st_cluster st))) dr (Some (rk_model key)) (cl_nodes (st_cluster st))))"
  show ?thesis
  proof (cases "?ns = []")
    case True
    with pp q have "d = q" by (auto simp: pick_pair_def Let_def)
    then show ?thesis using pick_excluding_not_excluded [OF q] by simp
  next
    case False
    with pp q obtain sc s where "best_of sc None ?ns = Some (rd_node d, s)"
      by (auto simp: pick_pair_def Let_def split: option.splits)
    then have "rd_node d \<in> set ?ns" using best_of_max by blast
    then show ?thesis using set_prefer_under_cap by fastforce
  qed
qed

lemma decide_error:
  assumes "decide H order cfg now st key exclude = Inl e"
  shows "is_unavailable e \<and> candidates_for order st (rk_model key) (first_role cfg key) exclude = []"
proof (cases "plan (rc_disagg_enabled cfg) (rc_colocate_below_tokens cfg) (length (rk_token_ids key))")
  case Colocate
  with assms have "pick_excluding H order now st key RoleBoth exclude = Inl e"
    by (auto simp: decide_def split: sum.splits)
  from pick_excluding_error [OF this] Colocate show ?thesis by (simp add: first_role_def)
next
  case (Split pr dr)
  with assms have pp: "pick_pair H order now st key pr dr exclude = Inl e" by (simp add: decide_def)
  then obtain e' where e': "pick_excluding H order now st key pr exclude = Inl e'"
    using pick_pair_Inl by blast
  with pp have "e = e'" by (simp add: pick_pair_def)
  with pick_excluding_error [OF e'] Split show ?thesis by (simp add: first_role_def)
qed

lemma dispatch_once_node:
  assumes "dispatch_once H order cfg ev req key exclude ro = (r, ro')"
  shows "case r of
      Inl (None, e) \<Rightarrow> is_unavailable e \<and>
        candidates_for order (ro_state ro) (rk_model key) (first_role cfg key) exclude = []
    | Inl (Some nid, e) \<Rightarrow> nid \<notin> set exclude
    | Inr (_, nid, _) \<Rightarrow> nid \<notin> set exclude"
proof (cases "decide H order cfg (ev_now ev) (ro_state ro) key exclude")
  case (Inl e)
  with assms decide_error [OF Inl] show ?thesis by (auto simp: dispatch_once_def)
next
  case (Inr pd)
  obtain p d where pd: "pd = (p, d)" by (cases pd)
  have n: "ne_node_id (rd_node d) \<notin> set exclude" by (rule decide_excludes [OF Inr [unfolded pd]])
  show ?thesis
    using assms n unfolding dispatch_once_def Inr pd
    by (auto simp: Let_def split: AdmissionOutcome.splits sum.splits prod.splits)
qed

lemma candidates_same_books:
  "same_books ro ro' \<Longrightarrow> candidates_for order (ro_state ro') m role ex = candidates_for order (ro_state ro) m role ex"
  by (simp add: same_books_def candidates_for_def)

definition outcome_ok ::
  "(NodeRegistry \<Rightarrow> node_id list) \<Rightarrow> RouterCfg \<Rightarrow> RouteKey \<Rightarrow> Router \<Rightarrow> nat \<Rightarrow> (Error, TokenFlow) result \<Rightarrow> string list \<Rightarrow> bool" where
  "outcome_ok order cfg key ro k r tried \<longleftrightarrow> distinct tried \<and> length tried \<le> k \<and>
     (case r of
        Inr f \<Rightarrow> (\<forall>nid. tf_node f = Some nid \<longrightarrow> nid \<notin> set tried)
      | Inl e \<Rightarrow> retryable e \<longrightarrow> length tried = k \<or>
          candidates_for order (ro_state ro) (rk_model key) (first_role cfg key) tried = [])"

lemma fallback_outcome:
  "fallback cfg ev req est e = r \<Longrightarrow> (case r of Inl e' \<Rightarrow> e' = e | Inr f \<Rightarrow> tf_node f = None)"
  by (auto simp: fallback_def split: if_splits sum.splits FirstToken.splits)

lemma fatal_not_retryable: "first_token s = Fatal e \<Longrightarrow> \<not> retryable e"
  by (auto simp: first_token_def retryable_def split: if_splits list.splits sum.splits prod.splits)

lemma open_loop_outcome:
  assumes "open_loop H order cfg env req key n exclude le ro = (r, tried, ro')" and "distinct exclude"
    and "same_books ro0 ro" and "length exclude + n = k"
  shows "outcome_ok order cfg key ro0 k r tried"
  using assms
proof (induction n arbitrary: exclude le ro)
  case 0
  then show ?case by (auto simp: outcome_ok_def)
next
  case (Suc n)
  obtain q ro1 where d: "dispatch_once H order cfg (env n) req key exclude ro = (q, ro1)"
    by (rule prod.exhaust)
  note node = dispatch_once_node [OF d] and books = dispatch_once_books [OF d]
  have step: ?case if "open_loop H order cfg env req key n (exclude @ [m]) (Some e) ro2 = (r, tried, ro')"
      "m \<notin> set exclude" "same_books ro ro2" for m e ro2
    by (rule Suc.IH [OF that(1)]) (use that Suc.prems same_books_trans in auto)
  show ?case
  proof (cases q)
    case (Inl ne)
    obtain nid e where ne: "ne = (nid, e)" by (cases ne)
    have b: "same_books ro ro1" using books Inl by (simp split: prod.splits)
    show ?thesis
    proof (cases nid)
      case None
      then have c: "is_unavailable e" "candidates_for order (ro_state ro0) (rk_model key) (first_role cfg key) exclude = []"
        using node Inl ne candidates_same_books [OF Suc.prems(3)] by auto
      have r: "fallback cfg (env n) req (of_nat (length (rk_token_ids key))) (case le of None \<Rightarrow> e | Some x \<Rightarrow> x) = r"
          "tried = exclude"
        using Suc.prems(1) d Inl ne None c(1) by (auto simp: Let_def)
      show ?thesis using fallback_outcome [OF r(1)] r(2) c(2) Suc.prems(2,4)
        by (auto simp: outcome_ok_def split: sum.splits)
    next
      case (Some m)
      show ?thesis
      proof (cases "retryable e")
        case True
        then show ?thesis using step [of m e ro1] Suc.prems(1) d Inl ne Some node b by (simp add: Let_def)
      next
        case False
        then show ?thesis using Suc.prems d Inl ne Some by (auto simp: outcome_ok_def Let_def)
      qed
    qed
  next
    case (Inr sna)
    obtain stream nid address where s: "sna = (stream, nid, address)" by (cases sna)
    have b: "same_books (guard_node nid ro) ro1" and nid: "nid \<notin> set exclude" using books node Inr s by simp_all
    show ?thesis
    proof (cases "first_token stream")
      case (Got t rest)
      then show ?thesis using Suc.prems d Inr s nid by (auto simp: outcome_ok_def Let_def)
    next
      case (Fatal e)
      then show ?thesis using Suc.prems d Inr s fatal_not_retryable [OF Fatal]
        by (auto simp: outcome_ok_def Let_def)
    next
      case (Retry e)
      have "same_books ro (release_node nid (forget_agent address ro1))"
        by (rule same_books_guard [OF same_books_trans [OF b same_books_steps(2)]])
      then show ?thesis using step [of nid e] Suc.prems(1) d Inr s Retry nid by (simp add: Let_def)
    qed
  qed
qed

text \<open>C29: Retries make progress. The nodes a request failed on are pairwise different and at most
  three, the node that finally serves it is none of them, and the request is given up with a
  retryable error only after three failed nodes or when no eligible node is left that was not
  tried.\<close>

theorem retries_exhaust_nodes:
  assumes "open_request H order cfg env (Inr ()) req token_ids ro = (r, tried, ro')"
  shows "distinct tried \<and> length tried \<le> 3 \<and>
    (case r of
       Inr f \<Rightarrow> (\<forall>nid. tf_node f = Some nid \<longrightarrow> nid \<notin> set tried)
     | Inl e \<Rightarrow> retryable e \<longrightarrow> length tried = 3 \<or>
         candidates_for order (ro_state ro) (gr_model req) (first_role cfg (route_key ro req token_ids)) tried = [])"
proof -
  let ?key = "route_key ro req token_ids" and ?ro1 = "ro\<lparr>ro_permits := ro_permits ro + 1\<rparr>"
  obtain r2 tried2 ro2 where l: "open_loop H order cfg env req ?key MAX_DISPATCH_ATTEMPTS [] None ?ro1 = (r2, tried2, ro2)"
    by (rule prod_cases3)
  have rt: "r = r2" "tried = tried2" using assms l by (auto simp: open_request_def Let_def)
  have "outcome_ok order cfg ?key ?ro1 3 r tried"
    unfolding rt by (rule open_loop_outcome [OF l]) (simp_all add: MAX_DISPATCH_ATTEMPTS_def)
  moreover have "rk_model ?key = gr_model req" by (simp add: route_key_def)
  ultimately show ?thesis by (auto simp: outcome_ok_def candidates_for_def split: sum.splits)
qed

definition demo_cfg :: RouterCfg where
  "demo_cfg = \<lparr>rc_disagg_enabled = False, rc_colocate_below_tokens = 256, rc_deadline_admission = False,
     rc_admission = \<lparr>ac_max_queue = 8, ac_ttft_slo = 800, ac_max_concurrent_per_replica = 1\<rparr>,
     rc_federation = False, rc_peers = [], rc_require_mtls = False, rc_ca_file = None,
     rc_cert_file = None, rc_key_file = None\<rparr>"

text \<open>An environment in which every agent answers the call and then ends the stream.\<close>

definition demo_env :: "nat \<Rightarrow> agent_env" where
  "demo_env i = \<lparr>ev_now = i, ev_endpoint = (\<lambda>_. Inr ()), ev_tls = (\<lambda>_ _. Inr ()), ev_dial = (\<lambda>_. Inr ()),
     ev_show_status = snd, ev_generate = (\<lambda>_ _. Inr \<lparr>ts_late = False, ts_items = []\<rparr>), ev_probe = (\<lambda>_. None),
     ev_forward = (\<lambda>_ _. Inl ''none'')\<rparr>"

definition demo_req :: GenerateRequest where
  "demo_req = \<lparr>gr_model = ''m'', gr_messages = [], gr_prompt = ''hi'', gr_params = None, gr_tenant = [],
     gr_session = [], gr_deadline_ms = 0, gr_stream = False, gr_traceparent = [], gr_tracestate = [],
     gr_extensions_json = []\<rparr>"

definition demo_router :: Router where
  "demo_router = \<lparr>ro_state = demo_state, ro_channels = {}, ro_permits = 0\<rparr>"

definition demo_outcome :: "(Error, TokenFlow) result \<times> string list \<times> Router" where
  "demo_outcome = open_request toy_hash (\<lambda>_. [''a'', ''b'']) demo_cfg demo_env (Inr ()) demo_req [7] demo_router"

theorem retries_exhaust_nodes_witness:
  "case demo_outcome of (r, tried, _) \<Rightarrow> distinct tried \<and> length tried \<le> 3"
proof -
  obtain r tried ro' where o: "demo_outcome = (r, tried, ro')" by (rule prod_cases3)
  from retries_exhaust_nodes [OF o [unfolded demo_outcome_def]] show ?thesis by (simp add: o)
qed

section \<open>Claims of a node that failed\<close>

lemma claim_insert_many:
  "claim (insert_many now ds n idx) (d, n) = (if d \<in> set ds then Some now else claim idx (d, n))"
  by (induction ds arbitrary: idx) (auto simp: claim_insert)

text \<open>The claims of an attempt are recorded when the agent accepts the call, before the first token:
  a node whose stream then fails keeps them, although the request moves on to another node.\<close>

lemma failed_node_keeps_claims:
  assumes "dispatch_once H order cfg ev req key exclude ro = (Inr (stream, nid, address), ro1)"
    and "first_token stream = Retry e" and "\<not> rc_disagg_enabled cfg"
    and "d \<in> set (hash_seq_chunks H (rk_salt key) (rk_token_ids key))"
  shows "claim (cl_prefix (st_cluster (ro_state (release_node nid (forget_agent address ro1))))) (d, nid)
    = Some (ev_now ev)"
proof -
  have pl: "plan (rc_disagg_enabled cfg) (rc_colocate_below_tokens cfg) (length (rk_token_ids key)) = Colocate"
    using assms(3) by (simp add: plan_def)
  obtain p where p: "pick_excluding H order (ev_now ev) (ro_state ro) key RoleBoth exclude = Inr p"
    and dec: "decide H order cfg (ev_now ev) (ro_state ro) key exclude = Inr (p, p)"
    using assms(1) by (auto simp: dispatch_once_def decide_def pl split: sum.splits)
  have ds: "rd_digests p = hash_seq_chunks H (rk_salt key) (rk_token_ids key)"
    by (rule pick_excluding_Inr(2) [OF p])
  let ?a = "ne_address (rd_node p)" and ?n = "ne_node_id (rd_node p)"
  obtain c ro2 where c: "connect_agent cfg ev ?a (guard_node ?n ro) = (c, ro2)" by (rule prod.exhaust)
  from assms(1) have "nid = ?n" "ro1 = announce (ev_now ev) (rd_digests p) ?n ro2"
    by (auto simp: dispatch_once_def dec call_agent_def Let_def c split: AdmissionOutcome.splits sum.splits)
  then show ?thesis
    by (simp add: release_node_def forget_agent_def drop_guard_def announce_def claim_insert_many ds assms(4)
        del: insert_many.simps)
qed

text \<open>The prefill stage never hands over blocks, so no decode request ever skips its prefill.\<close>

lemma prefill_hands_over_nothing: "fst (run_prefill cfg ev a req ro) \<in> {None, Some []}"
  by (auto simp: run_prefill_def split: prod.splits sum.splits)

text \<open>The TLS server name taken from an address with an IPv6 literal is an opening bracket.\<close>

lemma extract_host_examples:
  "extract_host ''https://10.0.0.7:7071'' = Some ''10.0.0.7''" "extract_host ''https://[::1]:7071'' = Some ''[''"
  by (simp_all add: extract_host_def strip_prefix_def)

end
