(* ===== verification/Cgn_Usage.thy ===== *)
theory Cgn_Usage
  imports Cgn_Auth
begin

text \<open>
  Token accounting (\<open>cgn-router/src/usage.rs\<close>) and per-request authorization
  (\<open>gateway/authz.rs\<close>). The ledger is a map from subjects to a 64-bit total and a one-minute
  window; a JSON document of the totals is the parameter \<open>enc\<close>/\<open>dec\<close>. Counters are 64-bit
  words, which wrap as they do in a release build.
\<close>

section \<open>The ledger\<close>

definition MINUTE_SECS :: nat where "MINUTE_SECS = 60"

record Entry =
  en_total :: u64
  en_window :: "nat \<times> u64"

definition Entry_default :: Entry where
  "Entry_default = \<lparr>en_total = 0, en_window = (0, 0)\<rparr>"

record Exceeded =
  ex_limit :: string
  ex_message :: string
  ex_retry_after_secs :: nat

record UsageReport =
  ur_subject :: string
  ur_tenant :: string
  ur_total_tokens :: u64
  ur_tokens_this_minute :: u64
  ur_tpm_limit :: "nat option"
  ur_budget_limit :: "nat option"

record UsageLedger =
  ul_entries :: "string \<rightharpoonup> Entry"
  ul_path :: "string option"

text \<open>\<open>file\<close> is what \<open>read\<close> finds at the path: nothing, an I/O error or the bytes.\<close>

definition ledger_open ::
  "(bytes \<Rightarrow> (string, string \<rightharpoonup> u64) result) \<Rightarrow> (string \<Rightarrow> (string, bytes) result option) \<Rightarrow> string option
     \<Rightarrow> (string, UsageLedger) result" where
  "ledger_open dec file path =
     (case Option.bind path file of
        None \<Rightarrow> Inr \<lparr>ul_entries = (\<lambda>_. None), ul_path = path\<rparr>
      | Some (Inl e) \<Rightarrow> Inl e
      | Some (Inr bs) \<Rightarrow>
          (case dec bs of
             Inl e \<Rightarrow> Inl e
           | Inr saved \<Rightarrow>
               Inr \<lparr>ul_entries = (\<lambda>s. map_option (\<lambda>t. Entry_default\<lparr>en_total := t\<rparr>) (saved s)),
                    ul_path = path\<rparr>))"

definition check_budget :: "nat option \<Rightarrow> Entry \<Rightarrow> (Exceeded, unit) result" where
  "check_budget budget e =
     (case budget of
        None \<Rightarrow> Inr ()
      | Some b \<Rightarrow>
          if b \<le> unat (en_total e)
          then Inl \<lparr>ex_limit = ''budget'', ex_message = ''token budget of '' @ show_nat b @ '' exhausted'',
                    ex_retry_after_secs = 0\<rparr>
          else Inr ())"

definition check_tpm :: "nat \<Rightarrow> nat option \<Rightarrow> Entry \<Rightarrow> (Exceeded, unit) result" where
  "check_tpm now tpm e =
     (case tpm of
        None \<Rightarrow> Inr ()
      | Some t \<Rightarrow>
          if fst (en_window e) = now div MINUTE_SECS \<and> t \<le> unat (snd (en_window e))
          then Inl \<lparr>ex_limit = ''tpm'',
                    ex_message = ''rate of '' @ show_nat t @ '' tokens per minute exceeded'',
                    ex_retry_after_secs = MINUTE_SECS - now mod MINUTE_SECS\<rparr>
          else Inr ())"

definition check_at :: "UsageLedger \<Rightarrow> Principal \<Rightarrow> nat \<Rightarrow> (Exceeded, unit) result" where
  "check_at ul p now =
     (let tpm = limit p ''tpm''; budget = limit p ''budget'' in
      if tpm = None \<and> budget = None then Inr ()
      else case ul_entries ul (pr_subject p) of
             None \<Rightarrow> Inr ()
           | Some e \<Rightarrow>
               (case check_budget budget e of
                  Inl x \<Rightarrow> Inl x
                | Inr _ \<Rightarrow> check_tpm now tpm e))"

definition charge_at :: "UsageLedger \<Rightarrow> string \<Rightarrow> u32 \<Rightarrow> u32 \<Rightarrow> nat \<Rightarrow> UsageLedger" where
  "charge_at ul subject prompt completion now =
     (let tokens = (ucast prompt :: u64) + ucast completion;
          e = (case ul_entries ul subject of None \<Rightarrow> Entry_default | Some e \<Rightarrow> e);
          minute = now div MINUTE_SECS;
          w = (if fst (en_window e) \<noteq> minute then (minute, 0) else en_window e)
      in ul\<lparr>ul_entries := (ul_entries ul)(subject \<mapsto>
              \<lparr>en_total = en_total e + tokens, en_window = (fst w, snd w + tokens)\<rparr>)\<rparr>)"

definition report :: "UsageLedger \<Rightarrow> Principal \<Rightarrow> nat \<Rightarrow> UsageReport" where
  "report ul p now =
     (let minute = now div MINUTE_SECS;
          (total, this_minute) =
            (case ul_entries ul (pr_subject p) of
               None \<Rightarrow> (0, 0)
             | Some e \<Rightarrow> (en_total e, if fst (en_window e) = minute then snd (en_window e) else 0))
      in \<lparr>ur_subject = pr_subject p, ur_tenant = tenant p, ur_total_tokens = total,
          ur_tokens_this_minute = this_minute, ur_tpm_limit = limit p ''tpm'',
          ur_budget_limit = limit p ''budget''\<rparr>)"

text \<open>\<open>mkdir\<close>, \<open>write\<close> and \<open>rename\<close> are the outcomes of the three file operations; the file at the
  path changes only by the rename.\<close>

definition persist ::
  "((string \<rightharpoonup> u64) \<Rightarrow> (string, bytes) result) \<Rightarrow> (string, unit) result \<Rightarrow> (string, unit) result
     \<Rightarrow> (string, unit) result \<Rightarrow> UsageLedger \<Rightarrow> (string, bytes) result option
     \<Rightarrow> (string, unit) result \<times> (string, bytes) result option" where
  "persist enc mkdir write rename ul old =
     (case ul_path ul of
        None \<Rightarrow> (Inr (), old)
      | Some _ \<Rightarrow>
          let snapshot = (\<lambda>s. map_option en_total (ul_entries ul s))
          in case mkdir of
               Inl e \<Rightarrow> (Inl e, old)
             | Inr _ \<Rightarrow>
                 (case enc snapshot of
                    Inl e \<Rightarrow> (Inl e, old)
                  | Inr bs \<Rightarrow>
                      (case write of
                         Inl e \<Rightarrow> (Inl e, old)
                       | Inr _ \<Rightarrow>
                           (case rename of Inl e \<Rightarrow> (Inl e, old) | Inr _ \<Rightarrow> (Inr (), Some (Inr bs))))))"

section \<open>Authorization\<close>

record Caller =
  ca_subject :: string
  ca_tenant :: string

definition Caller_default :: Caller where
  "Caller_default = \<lparr>ca_subject = [], ca_tenant = []\<rparr>"

definition caller_charge :: "Caller \<Rightarrow> UsageLedger \<Rightarrow> u32 \<Rightarrow> u32 \<Rightarrow> nat \<Rightarrow> UsageLedger" where
  "caller_charge c ul prompt completion now =
     (if ca_subject c \<noteq> [] then charge_at ul (ca_subject c) prompt completion now else ul)"

datatype Denied =
    Forbidden string
  | TooManyRequests string string "nat option"

definition forbidden :: "string \<Rightarrow> Denied" where
  "forbidden message = Forbidden message"

definition authorize ::
  "bool \<Rightarrow> UsageLedger \<Rightarrow> nat \<Rightarrow> Principal option \<Rightarrow> string \<Rightarrow> string \<Rightarrow> (Denied, Caller) result" where
  "authorize enforce_scopes ul now pr scope model =
     (case pr of
        None \<Rightarrow> Inr Caller_default
      | Some p \<Rightarrow>
          if enforce_scopes \<and> \<not> has_scope p scope
          then Inl (forbidden (''token lacks the `'' @ scope @ ''` scope''))
          else if \<not> allows_model p model
          then Inl (forbidden (''token may not use model `'' @ model @ ''`''))
          else case check_at ul p now of
                 Inl e \<Rightarrow>
                   Inl (TooManyRequests (ex_message e) (ex_limit e)
                     (if 0 < ex_retry_after_secs e then Some (ex_retry_after_secs e) else None))
               | Inr _ \<Rightarrow> Inr \<lparr>ca_subject = pr_subject p, ca_tenant = tenant p\<rparr>)"

section \<open>Totals and windows\<close>

definition spent :: "UsageLedger \<Rightarrow> string \<Rightarrow> u64" where
  "spent ul s = (case ul_entries ul s of None \<Rightarrow> 0 | Some e \<Rightarrow> en_total e)"

lemma spent_charge:
  "spent (charge_at ul s a b now) t = spent ul t + (if t = s then ucast a + ucast b else 0)"
  by (simp add: spent_def charge_at_def Let_def Entry_default_def split: option.splits)

lemma charge_same_minute:
  assumes "ul_entries ul s = Some e" and "fst (en_window e) = now div MINUTE_SECS"
  shows "map_option en_window (ul_entries (charge_at ul s a b now) s) =
    Some (now div MINUTE_SECS, snd (en_window e) + (ucast a + ucast b))"
  using assms by (simp add: charge_at_def Let_def)

text \<open>A refusal for the minute's allowance tells the client a time in which the window is over.\<close>

lemma tpm_retry_after:
  assumes "check_tpm now tpm e = Inl x"
  shows "0 < ex_retry_after_secs x \<and> ex_retry_after_secs x \<le> 60 \<and>
    check_tpm (now + ex_retry_after_secs x) tpm e = Inr ()"
proof -
  have m: "now mod 60 < 60" by simp
  from assms have x: "ex_retry_after_secs x = 60 - now mod 60" and w: "fst (en_window e) = now div 60"
    by (auto simp: check_tpm_def MINUTE_SECS_def split: option.splits if_splits)
  have "now + (60 - now mod 60) = (now div 60 + 1) * 60"
    by presburger
  then have "(now + (60 - now mod 60)) div 60 \<noteq> now div 60" by simp
  with x w m show ?thesis by (auto simp: check_tpm_def MINUTE_SECS_def split: option.splits)
qed

text \<open>A restart keeps the totals, and with them every exhausted budget, and forgets the windows.\<close>

lemma restart_keeps_totals:
  assumes "\<And>m. \<exists>bs. enc m = Inr bs \<and> dec bs = Inr m" and "ul_path ul = Some path"
    and "persist enc (Inr ()) (Inr ()) (Inr ()) ul old = (r, file)"
  shows "\<exists>ul'. ledger_open dec (\<lambda>_. file) (Some path) = Inr ul' \<and> (\<forall>s. spent ul' s = spent ul s)"
proof -
  let ?snap = "\<lambda>s. map_option en_total (ul_entries ul s)"
  obtain bs where bs: "enc ?snap = Inr bs" "dec bs = Inr ?snap" using assms(1) by blast
  then have "file = Some (Inr bs)" using assms(2,3) by (auto simp: persist_def Let_def)
  then show ?thesis using bs by (auto simp: ledger_open_def spent_def split: option.splits)
qed

section \<open>Budgets under concurrent requests\<close>

text \<open>The events of one key: a request passes the check and is in flight, a request in flight
  reports at most \<open>m\<close> tokens and is charged, another subject is charged. At most \<open>k\<close> requests of
  the key are in flight at a time.\<close>

inductive serve :: "Principal \<Rightarrow> nat \<Rightarrow> nat \<Rightarrow> UsageLedger \<times> nat \<Rightarrow> UsageLedger \<times> nat \<Rightarrow> bool"
  for p k m where
  admit: "check_at ul p now = Inr () \<Longrightarrow> i < k \<Longrightarrow> serve p k m (ul, i) (ul, Suc i)"
| finish: "unat a + unat b \<le> m \<Longrightarrow>
    serve p k m (ul, Suc i) (charge_at ul (pr_subject p) a b now, i)"
| other: "s \<noteq> pr_subject p \<Longrightarrow> serve p k m (ul, i) (charge_at ul s a b now, i)"

inductive_cases serve_cases [elim!]: "serve p k m (ul, i) y"

lemma check_at_budget:
  assumes "limit p ''budget'' = Some b" and "0 < b"
  shows "check_at ul p now = Inr () \<Longrightarrow> unat (spent ul (pr_subject p)) < b"
    and "b \<le> unat (spent ul (pr_subject p)) \<Longrightarrow> check_at ul p now =
      Inl \<lparr>ex_limit = ''budget'', ex_message = ''token budget of '' @ show_nat b @ '' exhausted'',
           ex_retry_after_secs = 0\<rparr>"
  using assms by (auto simp: check_at_def spent_def check_budget_def split: option.splits if_splits)

lemma unat_tokens: "unat ((ucast (a :: u32) :: u64) + ucast (b :: u32)) = unat a + unat b"
proof -
  have "unat a < 4294967296" "unat b < 4294967296"
    using unsigned_less [of a, where ?'a = nat] unsigned_less [of b, where ?'a = nat] by simp_all
  then show ?thesis by (simp add: unat_word_ariths unsigned_ucast_eq take_bit_eq_mod)
qed

lemma serve_invariant:
  assumes step: "serve p k m (ul, i) (ul', i')"
    and budget: "limit p ''budget'' = Some b" "0 < b" and room: "b + k * m \<le> 2 ^ 64"
    and inv: "unat (spent ul (pr_subject p)) + i * m < b + k * m" "i \<le> k"
  shows "unat (spent ul' (pr_subject p)) + i' * m < b + k * m \<and> i' \<le> k"
  using step
proof cases
  case (admit now)
  then have "unat (spent ul (pr_subject p)) < b" using check_at_budget(1) [OF budget] by simp
  moreover have "Suc i * m \<le> k * m" using admit by (intro mult_le_mono1) simp
  ultimately show ?thesis using admit by simp
next
  case (finish a c now)
  let ?t = "ucast a + ucast c :: u64"
  have t: "unat ?t \<le> m" using finish by (simp add: unat_tokens)
  have "unat (spent ul (pr_subject p)) + unat ?t < 2 ^ 64" using inv(1) t finish room by simp
  then have "unat (spent ul (pr_subject p) + ?t) = unat (spent ul (pr_subject p)) + unat ?t"
    by (simp add: unat_word_ariths)
  then show ?thesis using inv t finish by (simp add: spent_charge)
next
  case (other s a c now)
  then show ?thesis using inv by (simp add: spent_charge)
qed

text \<open>C36: A token budget holds under every interleaving of a key's requests: with at most \<open>k\<close> in
  flight and \<open>m\<close> tokens each, the key never spends \<open>k * m\<close> or more beyond its budget, and from the
  moment the budget is reached every further request is refused with that reason.\<close>

theorem budget_overshoot_bound:
  assumes "(serve p k m)\<^sup>*\<^sup>* (ul, 0) (ul', i)" and "limit p ''budget'' = Some b" and "0 < b"
    and "b + k * m \<le> 2 ^ 64" and "unat (spent ul (pr_subject p)) < b"
  shows "unat (spent ul' (pr_subject p)) < b + k * m \<and>
    (b \<le> unat (spent ul' (pr_subject p)) \<longrightarrow> check_at ul' p now =
      Inl \<lparr>ex_limit = ''budget'', ex_message = ''token budget of '' @ show_nat b @ '' exhausted'',
           ex_retry_after_secs = 0\<rparr>)"
proof -
  have "unat (spent ul' (pr_subject p)) + i * m < b + k * m \<and> i \<le> k"
    using assms(1)
  proof (induction "(ul', i)" arbitrary: ul' i rule: rtranclp_induct)
    case base
    then show ?case using assms(5) by simp
  next
    case (step y)
    obtain uly iy where y: "y = (uly, iy)" by (cases y)
    with step have "unat (spent uly (pr_subject p)) + iy * m < b + k * m" "iy \<le> k" by simp_all
    with step(2) y show ?case using serve_invariant [OF _ assms(2-4), of uly iy ul' i] by simp
  qed
  then show ?thesis using check_at_budget(2) [OF assms(2,3)] by simp
qed

definition demo_virtual_key :: Principal where
  "demo_virtual_key = \<lparr>pr_subject = ''apikey:1'', pr_scopes = [''budget:5''], pr_kind = ApiKey\<rparr>"

definition demo_ledger :: UsageLedger where
  "demo_ledger = \<lparr>ul_entries = (\<lambda>_. None), ul_path = None\<rparr>"

lemma demo_limit: "limit demo_virtual_key ''budget'' = Some 5"
  by (simp add: limit_def demo_virtual_key_def strip_prefix_def parse_dec_def parse_unsigned_def dec_digit_def
      U64_MAX_def)

lemma demo_check: "check_at demo_ledger demo_virtual_key 0 = Inr ()"
  by (simp add: check_at_def demo_ledger_def Let_def)

lemma two_in_flight:
  "(serve demo_virtual_key 2 10)\<^sup>*\<^sup>* (demo_ledger, 0)
     (charge_at (charge_at demo_ledger ''apikey:1'' 4 6 0) ''apikey:1'' 4 6 0, 0)"
proof -
  have a: "serve demo_virtual_key 2 10 (demo_ledger, 0) (demo_ledger, Suc 0)"
    "serve demo_virtual_key 2 10 (demo_ledger, Suc 0) (demo_ledger, Suc (Suc 0))"
    by (rule serve.admit [OF demo_check], simp)+
  have f: "serve demo_virtual_key 2 10 (ul, Suc i) (charge_at ul ''apikey:1'' 4 6 0, i)" for ul i
    using serve.finish [of 4 6 10 demo_virtual_key 2 ul i 0] by (simp add: demo_virtual_key_def)
  note step = converse_rtranclp_into_rtranclp [where r = "serve demo_virtual_key 2 10"]
  show ?thesis
    by (rule step, rule a(1), rule step, rule a(2), rule step, rule f, rule r_into_rtranclp, rule f)
qed

text \<open>Two requests of ten tokens under a budget of five spend twenty: the overshoot is not bounded
  by the size of one request.\<close>

lemma overshoot_exceeds_one_request:
  "unat (spent (charge_at (charge_at demo_ledger ''apikey:1'' 4 6 0) ''apikey:1'' 4 6 0) ''apikey:1'') = 5 + 15"
  by (simp add: spent_charge) (simp add: spent_def demo_ledger_def)

theorem budget_overshoot_bound_witness:
  "unat (spent (charge_at (charge_at demo_ledger ''apikey:1'' 4 6 0) ''apikey:1'' 4 6 0) ''apikey:1'') < 5 + 2 * 10"
proof -
  have "spent demo_ledger (pr_subject demo_virtual_key) = 0" by (simp add: spent_def demo_ledger_def)
  then have "unat (spent demo_ledger (pr_subject demo_virtual_key)) < 5" by simp
  from budget_overshoot_bound [OF two_in_flight demo_limit _ _ this] show ?thesis
    by (simp add: demo_virtual_key_def)
qed

section \<open>What authorization grants\<close>

text \<open>A caller that authorization lets through holds the demanded scope when scopes are
  enforced, may use the model it names, has tokens left, and is billed under the subject and the
  tenant of its credential.\<close>

lemma authorize_sound:
  assumes "authorize enforce ul now (Some p) scope model = Inr c"
  shows "(enforce \<longrightarrow> scope \<in> set (pr_scopes p) \<or> ''*'' \<in> set (pr_scopes p)) \<and> allows_model p model \<and>
    (\<forall>b. limit p ''budget'' = Some b \<and> 0 < b \<longrightarrow> unat (spent ul (pr_subject p)) < b) \<and>
    c = \<lparr>ca_subject = pr_subject p, ca_tenant = tenant p\<rparr>"
proof -
  from assms have *: "\<not> (enforce \<and> \<not> has_scope p scope)" "allows_model p model"
    "check_at ul p now = Inr ()" "c = \<lparr>ca_subject = pr_subject p, ca_tenant = tenant p\<rparr>"
    by (auto simp: authorize_def split: if_splits sum.splits)
  then show ?thesis using check_at_budget(1) by (auto simp: has_scope_def list_ex_iff)
qed

lemma authorize_sound_witness:
  "authorize False demo_ledger 0 (Some demo_virtual_key) ''chat'' ''m'' =
     Inr \<lparr>ca_subject = ''apikey:1'', ca_tenant = ''apikey:1''\<rparr> \<and> allows_model demo_virtual_key ''m''"
proof -
  have m: "allows_model demo_virtual_key ''m''"
    by (simp add: allows_model_def demo_virtual_key_def strip_prefix_def)
  have t: "tenant demo_virtual_key = ''apikey:1''"
    by (simp add: tenant_def demo_virtual_key_def strip_prefix_def)
  have s: "pr_subject demo_virtual_key = ''apikey:1''" by (simp add: demo_virtual_key_def)
  have a: "authorize False demo_ledger 0 (Some demo_virtual_key) ''chat'' ''m'' =
      Inr \<lparr>ca_subject = pr_subject demo_virtual_key, ca_tenant = tenant demo_virtual_key\<rparr>"
    by (simp add: authorize_def m demo_check)
  with authorize_sound [OF a] show ?thesis by (simp add: t s)
qed

end
