(* ===== verification/Cgn_Gateway.thy ===== *)
theory Cgn_Gateway
  imports Cgn_Dispatch Cgn_Usage
begin

text \<open>
  The response side of the gateway: collecting or streaming a token flow
  (\<open>gateway/generate.rs\<close>), server-sent events (\<open>sse.rs\<close>), the cascade, and the two OpenAI
  handlers (\<open>chat.rs\<close>). \<open>serde_json\<close> is the pair \<open>from_str\<close>, \<open>to_string\<close>; chunks are kept as
  records and rendered by the encoder. A client that disconnects accepts a number of events and
  no more; \<open>None\<close> is one that stays.
\<close>

section \<open>Totals over a stream\<close>

record Usage =
  us_prompt_tokens :: u32
  us_completion_tokens :: u32
  us_total_tokens :: u32

record Tally =
  ta_chunks :: u32
  ta_logprob_sum :: rat
  ta_logprob_n :: u32
  ta_prompt_tokens :: u32
  ta_completion_tokens :: u32

definition Tally_default :: Tally where
  "Tally_default = \<lparr>ta_chunks = 0, ta_logprob_sum = 0, ta_logprob_n = 0, ta_prompt_tokens = 0,
     ta_completion_tokens = 0\<rparr>"

definition tally_observe :: "Token \<Rightarrow> Tally \<Rightarrow> Tally" where
  "tally_observe t ta =
     (let a = (if tk_text t \<noteq> [] \<or> tk_tool_calls_json t \<noteq> [] then ta\<lparr>ta_chunks := ta_chunks ta + 1\<rparr> else ta);
          b = (if tk_logprob t \<noteq> 0
               then a\<lparr>ta_logprob_sum := f64_round (ta_logprob_sum a + tk_logprob t),
                      ta_logprob_n := ta_logprob_n a + 1\<rparr> else a)
      in b\<lparr>ta_prompt_tokens := max (ta_prompt_tokens b) (tk_prompt_tokens t),
           ta_completion_tokens := max (ta_completion_tokens b) (tk_completion_tokens t)\<rparr>)"

definition tally_usage :: "u32 \<Rightarrow> Tally \<Rightarrow> Usage" where
  "tally_usage prompt_estimate ta =
     (let p = (if 0 < ta_prompt_tokens ta then ta_prompt_tokens ta else prompt_estimate);
          c = (if 0 < ta_completion_tokens ta then ta_completion_tokens ta else ta_chunks ta)
      in \<lparr>us_prompt_tokens = p, us_completion_tokens = c, us_total_tokens = p + c\<rparr>)"

definition mean_logprob :: "Tally \<Rightarrow> f32 option" where
  "mean_logprob ta =
     (if 0 < ta_logprob_n ta
      then Some (f32_round (f64_round (ta_logprob_sum ta / of_nat (unat (ta_logprob_n ta))))) else None)"

section \<open>Tool calls\<close>

record ToolCall =
  tc_id :: string
  tc_type :: string
  tc_name :: string
  tc_arguments :: string

definition ToolCall_default :: ToolCall where
  "ToolCall_default = \<lparr>tc_id = [], tc_type = ''function'', tc_name = [], tc_arguments = []\<rparr>"

text \<open>The \<open>BTreeMap\<close> is its list of entries in key order.\<close>

fun btree_update :: "nat \<Rightarrow> (ToolCall \<Rightarrow> ToolCall) \<Rightarrow> (nat \<times> ToolCall) list \<Rightarrow> (nat \<times> ToolCall) list" where
  "btree_update k f [] = [(k, f ToolCall_default)]"
| "btree_update k f ((j, c) # xs) =
     (if k < j then (k, f ToolCall_default) # (j, c) # xs
      else if k = j then (k, f c) # xs else (j, c) # btree_update k f xs)"

definition json_as_u64 :: "json \<Rightarrow> nat option" where
  "json_as_u64 v = (case v of JUint n \<Rightarrow> Some n | _ \<Rightarrow> None)"

definition fragment_index :: "json \<Rightarrow> nat" where
  "fragment_index e = (case Option.bind (json_get ''index'' e) json_as_u64 of None \<Rightarrow> 0 | Some i \<Rightarrow> i)"

definition field_str :: "string \<Rightarrow> json \<Rightarrow> string option" where
  "field_str k e = Option.bind (json_get k e) json_str"

definition fragment_args :: "json \<Rightarrow> string" where
  "fragment_args e =
     (case Option.bind (json_get ''function'' e) (field_str ''arguments'') of None \<Rightarrow> [] | Some a \<Rightarrow> a)"

definition merge_fragment :: "json \<Rightarrow> ToolCall \<Rightarrow> ToolCall" where
  "merge_fragment e c =
     (let c1 = (case field_str ''id'' e of None \<Rightarrow> c | Some i \<Rightarrow> c\<lparr>tc_id := i\<rparr>);
          c2 = (case field_str ''type'' e of None \<Rightarrow> c1 | Some t \<Rightarrow> c1\<lparr>tc_type := t\<rparr>)
      in case json_get ''function'' e of
           None \<Rightarrow> c2
         | Some f \<Rightarrow>
             (let c3 = (case field_str ''name'' f of None \<Rightarrow> c2 | Some n \<Rightarrow> c2\<lparr>tc_name := n\<rparr>)
              in case field_str ''arguments'' f of
                   None \<Rightarrow> c3
                 | Some a \<Rightarrow> c3\<lparr>tc_arguments := tc_arguments c3 @ a\<rparr>))"

definition tools_push :: "json \<Rightarrow> (nat \<times> ToolCall) list \<Rightarrow> (nat \<times> ToolCall) list" where
  "tools_push delta calls =
     (case delta of
        JArray frags \<Rightarrow> foldl (\<lambda>cs e. btree_update (fragment_index e) (merge_fragment e) cs) calls frags
      | _ \<Rightarrow> calls)"

definition call_json :: "ToolCall \<Rightarrow> json" where
  "call_json c =
     JObject [(''id'', JString (tc_id c)), (''type'', JString (tc_type c)),
       (''function'', JObject [(''name'', JString (tc_name c)), (''arguments'', JString (tc_arguments c))])]"

definition tools_finish :: "(nat \<times> ToolCall) list \<Rightarrow> json option" where
  "tools_finish calls = (if calls = [] then None else Some (JArray (map (call_json \<circ> snd) calls)))"

section \<open>A buffered generation\<close>

record Generated =
  gn_text :: string
  gn_finish :: string
  gn_tool_calls :: "json option"
  gn_logprobs :: "json option"
  gn_usage :: Usage
  gn_mean_logprob :: "f32 option"

record collecting =
  co_text :: string
  co_finish :: string
  co_tally :: Tally
  co_tools :: "(nat \<times> ToolCall) list"
  co_logprobs :: "json list"

definition logprob_items :: "(string \<Rightarrow> json option) \<Rightarrow> Token \<Rightarrow> json list" where
  "logprob_items from_str t =
     (if tk_logprobs_json t = [] then []
      else case from_str (tk_logprobs_json t) of
             Some (JObject fs) \<Rightarrow> (case map_of fs ''content'' of Some (JArray items) \<Rightarrow> items | _ \<Rightarrow> [])
           | _ \<Rightarrow> [])"

definition collect_token :: "(string \<Rightarrow> json option) \<Rightarrow> Token \<Rightarrow> collecting \<Rightarrow> collecting" where
  "collect_token from_str t c =
     \<lparr>co_text = co_text c @ tk_text t,
      co_finish = (if tk_finish t \<noteq> [] then tk_finish t else co_finish c),
      co_tally = tally_observe t (co_tally c),
      co_tools = (if tk_tool_calls_json t \<noteq> []
                  then (case from_str (tk_tool_calls_json t) of Some v \<Rightarrow> tools_push v (co_tools c) | None \<Rightarrow> co_tools c)
                  else co_tools c),
      co_logprobs = co_logprobs c @ logprob_items from_str t\<rparr>"

fun collect_loop :: "(string \<Rightarrow> json option) \<Rightarrow> stream_item list \<Rightarrow> collecting \<Rightarrow> (Error, collecting) result" where
  "collect_loop from_str [] c = Inr c"
| "collect_loop from_str (Inl s # items) c = Inl (Internal (''stream: '' @ snd s))"
| "collect_loop from_str (Inr t # items) c = collect_loop from_str items (collect_token from_str t c)"

definition collect_start :: collecting where
  "collect_start = \<lparr>co_text = [], co_finish = ''stop'', co_tally = Tally_default, co_tools = [], co_logprobs = []\<rparr>"

definition collect :: "(string \<Rightarrow> json option) \<Rightarrow> TokenFlow \<Rightarrow> (Error, Generated) result" where
  "collect from_str flow =
     (case collect_loop from_str (flow_items flow) collect_start of
        Inl e \<Rightarrow> Inl e
      | Inr c \<Rightarrow>
          Inr \<lparr>gn_text = co_text c, gn_finish = co_finish c, gn_tool_calls = tools_finish (co_tools c),
               gn_logprobs = (if co_logprobs c = [] then None
                              else Some (JObject [(''content'', JArray (co_logprobs c))])),
               gn_usage = tally_usage (tf_prompt_estimate flow) (co_tally c),
               gn_mean_logprob = mean_logprob (co_tally c)\<rparr>)"

section \<open>Server-sent events\<close>

datatype 'd SseEvent = Data 'd | Fail json

definition frame :: "string \<Rightarrow> string" where
  "frame js = ''data: '' @ js @ [NL, NL]"

definition DONE :: string where
  "DONE = ''data: [DONE]'' @ [NL, NL]"

fun encode :: "('d \<Rightarrow> string) \<Rightarrow> (json \<Rightarrow> string) \<Rightarrow> 'd SseEvent list \<Rightarrow> string list" where
  "encode render to_string [] = [DONE]"
| "encode render to_string (Data d # es) = frame (render d) # encode render to_string es"
| "encode render to_string (Fail j # es) = [frame (to_string j)]"

section \<open>Streaming\<close>

datatype Surface = Chat | TextSurface

record ResponseCtx =
  rx_id :: string
  rx_created :: int
  rx_model :: string
  rx_surface :: Surface
  rx_include_usage :: bool
  rx_caller :: Caller

record Choice =
  ch_role :: "string option"
  ch_text :: "string option"
  ch_tool_calls :: "json option"
  ch_finish_reason :: "string option"
  ch_logprobs :: "json option"

record Chunk =
  ck_id :: string
  ck_object :: string
  ck_created :: int
  ck_model :: string
  ck_choices :: "Choice list"
  ck_usage :: "Usage option"

definition surface_object :: "Surface \<Rightarrow> string" where
  "surface_object s = (case s of Chat \<Rightarrow> ''chat.completion.chunk'' | TextSurface \<Rightarrow> ''text_completion'')"

definition chunk ::
  "ResponseCtx \<Rightarrow> string option \<Rightarrow> string option \<Rightarrow> json option \<Rightarrow> string option \<Rightarrow> json option \<Rightarrow> Chunk" where
  "chunk ctx role txt tools fin logprobs =
     \<lparr>ck_id = rx_id ctx, ck_object = surface_object (rx_surface ctx), ck_created = rx_created ctx,
      ck_model = rx_model ctx,
      ck_choices =
        [case rx_surface ctx of
           Chat \<Rightarrow> \<lparr>ch_role = role, ch_text = txt, ch_tool_calls = tools, ch_finish_reason = fin, ch_logprobs = logprobs\<rparr>
         | TextSurface \<Rightarrow> \<lparr>ch_role = None, ch_text = Some (case txt of None \<Rightarrow> [] | Some s \<Rightarrow> s), ch_tool_calls = None,
             ch_finish_reason = fin, ch_logprobs = logprobs\<rparr>],
      ck_usage = None\<rparr>"

definition usage_chunk :: "ResponseCtx \<Rightarrow> Usage \<Rightarrow> Chunk" where
  "usage_chunk ctx usage =
     \<lparr>ck_id = rx_id ctx, ck_object = surface_object (rx_surface ctx), ck_created = rx_created ctx,
      ck_model = rx_model ctx, ck_choices = [], ck_usage = Some usage\<rparr>"

definition send :: "nat option \<Rightarrow> 'e \<Rightarrow> 'e list \<Rightarrow> 'e list option" where
  "send accepts e sent =
     (if (case accepts of None \<Rightarrow> True | Some n \<Rightarrow> length sent < n) then Some (sent @ [e]) else None)"

definition try_send :: "nat option \<Rightarrow> 'e \<Rightarrow> 'e list \<Rightarrow> 'e list" where
  "try_send accepts e sent = (case send accepts e sent of None \<Rightarrow> sent | Some s \<Rightarrow> s)"

fun code_debug :: "Code \<Rightarrow> string" where
  "code_debug C_Ok = ''Ok''"
| "code_debug C_Cancelled = ''Cancelled''"
| "code_debug C_Unknown = ''Unknown''"
| "code_debug C_InvalidArgument = ''InvalidArgument''"
| "code_debug C_DeadlineExceeded = ''DeadlineExceeded''"
| "code_debug C_NotFound = ''NotFound''"
| "code_debug C_AlreadyExists = ''AlreadyExists''"
| "code_debug C_PermissionDenied = ''PermissionDenied''"
| "code_debug C_ResourceExhausted = ''ResourceExhausted''"
| "code_debug C_FailedPrecondition = ''FailedPrecondition''"
| "code_debug C_Aborted = ''Aborted''"
| "code_debug C_OutOfRange = ''OutOfRange''"
| "code_debug C_Unimplemented = ''Unimplemented''"
| "code_debug C_Internal = ''Internal''"
| "code_debug C_Unavailable = ''Unavailable''"
| "code_debug C_DataLoss = ''DataLoss''"
| "code_debug C_Unauthenticated = ''Unauthenticated''"

definition fail_body :: "status \<Rightarrow> json" where
  "fail_body s =
     JObject [(''error'', JObject [(''message'', JString (snd s)), (''type'', JString ''server_error''),
       (''code'', JString (code_debug (fst s)))])]"

definition non_empty :: "string \<Rightarrow> string option" where
  "non_empty s = (if s \<noteq> [] then Some s else None)"

definition token_chunk :: "(string \<Rightarrow> json option) \<Rightarrow> ResponseCtx \<Rightarrow> Token \<Rightarrow> Chunk" where
  "token_chunk from_str ctx t =
     chunk ctx None (non_empty (tk_text t)) (from_str (tk_tool_calls_json t)) (non_empty (tk_finish t))
       (from_str (tk_logprobs_json t))"

definition has_payload :: "Token \<Rightarrow> bool" where
  "has_payload t \<longleftrightarrow> tk_text t \<noteq> [] \<or> tk_tool_calls_json t \<noteq> [] \<or> tk_finish t \<noteq> []"

text \<open>The result \<open>True\<close> is \<open>Ok\<close>.\<close>

fun pump_loop ::
  "(string \<Rightarrow> json option) \<Rightarrow> ResponseCtx \<Rightarrow> nat option \<Rightarrow> stream_item list \<Rightarrow> Tally \<Rightarrow> Chunk SseEvent list
     \<Rightarrow> bool \<times> Tally \<times> Chunk SseEvent list" where
  "pump_loop from_str ctx accepts [] ta sent = (True, ta, sent)"
| "pump_loop from_str ctx accepts (Inr t # items) ta sent =
     (let ta' = tally_observe t ta in
      if \<not> has_payload t then pump_loop from_str ctx accepts items ta' sent
      else case send accepts (Data (token_chunk from_str ctx t)) sent of
             None \<Rightarrow> (True, ta', sent)
           | Some sent' \<Rightarrow> pump_loop from_str ctx accepts items ta' sent')"
| "pump_loop from_str ctx accepts (Inl s # items) ta sent =
     (False, ta, try_send accepts (Fail (fail_body s)) sent)"

definition role_chunk :: "ResponseCtx \<Rightarrow> Chunk" where
  "role_chunk ctx = chunk ctx (Some ''assistant'') None None None None"

text \<open>The events sent, the result, and the usage that is settled, if any.\<close>

definition pump ::
  "(string \<Rightarrow> json option) \<Rightarrow> ResponseCtx \<Rightarrow> nat option \<Rightarrow> TokenFlow
     \<Rightarrow> Chunk SseEvent list \<times> bool \<times> Usage option" where
  "pump from_str ctx accepts flow =
     (case (if rx_surface ctx = Chat then send accepts (Data (role_chunk ctx)) [] else Some []) of
        None \<Rightarrow> ([], True, None)
      | Some sent0 \<Rightarrow>
          let (ok, ta, sent) = pump_loop from_str ctx accepts (flow_items flow) Tally_default sent0;
              usage = tally_usage (tf_prompt_estimate flow) ta
          in (if ok \<and> rx_include_usage ctx then try_send accepts (Data (usage_chunk ctx usage)) sent else sent,
              ok, Some usage))"

definition emit_generated :: "ResponseCtx \<Rightarrow> nat option \<Rightarrow> Generated \<Rightarrow> Chunk SseEvent list \<times> Usage" where
  "emit_generated ctx accepts g =
     (let s0 = (if rx_surface ctx = Chat then try_send accepts (Data (role_chunk ctx)) [] else []);
          s1 = try_send accepts (Data (chunk ctx None (Some (gn_text g)) None None None)) s0;
          s2 = try_send accepts (Data (chunk ctx None None None (Some (gn_finish g)) None)) s1;
          s3 = (if rx_include_usage ctx then try_send accepts (Data (usage_chunk ctx (gn_usage g))) s2 else s2)
      in (s3, gn_usage g))"

definition settle :: "ResponseCtx \<Rightarrow> Usage \<Rightarrow> nat \<Rightarrow> UsageLedger \<Rightarrow> UsageLedger" where
  "settle ctx usage now ul =
     caller_charge (rx_caller ctx) ul (us_prompt_tokens usage) (us_completion_tokens usage) now"

section \<open>What a client reads\<close>

definition event_text :: "Chunk SseEvent \<Rightarrow> string" where
  "event_text e =
     (case e of
        Fail _ \<Rightarrow> []
      | Data c \<Rightarrow> concat (map (\<lambda>ch. case ch_text ch of None \<Rightarrow> [] | Some s \<Rightarrow> s) (ck_choices c)))"

definition sent_text :: "Chunk SseEvent list \<Rightarrow> string" where
  "sent_text es = concat (map event_text es)"

definition is_fail :: "'d SseEvent \<Rightarrow> bool" where
  "is_fail e = (case e of Fail _ \<Rightarrow> True | Data _ \<Rightarrow> False)"

lemma send_connected [simp]: "send None e sent = Some (sent @ [e])" "try_send None e sent = sent @ [e]"
  by (simp_all add: send_def try_send_def)

lemma sent_text_simps [simp]: "sent_text [] = []" "sent_text (es @ fs) = sent_text es @ sent_text fs"
  "sent_text [Data c] = event_text (Data c)" "sent_text [Fail j] = []"
  by (simp_all add: sent_text_def event_text_def)

lemma event_text_chunk [simp]:
  "event_text (Data (chunk ctx r txt tls fin lp)) = (case txt of None \<Rightarrow> [] | Some s \<Rightarrow> s)"
  by (cases "rx_surface ctx") (simp_all add: event_text_def chunk_def split: option.splits)

lemma event_text_usage [simp]: "event_text (Data (usage_chunk ctx u)) = []"
  by (simp add: event_text_def usage_chunk_def)

lemma event_text_token [simp]: "event_text (Data (token_chunk f ctx t)) = tk_text t"
  by (simp add: token_chunk_def non_empty_def)

lemma event_text_role [simp]: "event_text (Data (role_chunk ctx)) = []"
  by (simp add: role_chunk_def)

text \<open>The encoder ends with the success sentinel unless a failure was sent.\<close>

lemma encode_done:
  "\<forall>e \<in> set es. \<not> is_fail e \<Longrightarrow> encode render to_string es = map (\<lambda>e. case e of Data d \<Rightarrow> frame (render d) | Fail j \<Rightarrow> []) es @ [DONE]"
  by (induction render to_string es rule: encode.induct) (auto simp: is_fail_def)

lemma encode_fail:
  "\<forall>e \<in> set es. \<not> is_fail e \<Longrightarrow> encode render to_string (es @ Fail j # fs) =
     map (\<lambda>e. case e of Data d \<Rightarrow> frame (render d) | Fail j \<Rightarrow> []) es @ [frame (to_string j)]"
  by (induction render to_string es rule: encode.induct) (auto simp: is_fail_def)

lemma pump_loop_collect:
  assumes "pump_loop f ctx None items ta sent = (ok, ta', sent')" and "co_tally c = ta"
    and "\<forall>e \<in> set sent. \<not> is_fail e"
  shows "case collect_loop f items c of
      Inr c' \<Rightarrow> ok \<and> co_tally c' = ta' \<and> (\<forall>e \<in> set sent'. \<not> is_fail e) \<and>
        (\<exists>x. co_text c' = co_text c @ x \<and> sent_text sent' = sent_text sent @ x)
    | Inl e \<Rightarrow> \<not> ok \<and> (\<exists>es j. sent' = es @ [Fail j] \<and> (\<forall>e \<in> set es. \<not> is_fail e))"
  using assms
proof (induction items arbitrary: ta sent c)
  case (Cons i items)
  show ?case
  proof (cases i)
    case (Inl s)
    with Cons.prems show ?thesis by auto
  next
    case (Inr t)
    let ?c = "collect_token f t c" and ?ta = "tally_observe t ta"
    have c: "co_tally ?c = ?ta" "co_text ?c = co_text c @ tk_text t"
      using Cons.prems(2) by (simp_all add: collect_token_def)
    show ?thesis
    proof (cases "has_payload t")
      case True
      let ?sent = "sent @ [Data (token_chunk f ctx t)]"
      have "pump_loop f ctx None items ?ta ?sent = (ok, ta', sent')"
        using Cons.prems(1) Inr True by (simp add: Let_def)
      moreover have "\<forall>e \<in> set ?sent. \<not> is_fail e" using Cons.prems(3) by (simp add: is_fail_def)
      ultimately show ?thesis using Cons.IH [of ?ta ?sent ?c] c Inr by (auto split: sum.splits)
    next
      case False
      then have "tk_text t = []" by (simp add: has_payload_def)
      moreover have "pump_loop f ctx None items ?ta sent = (ok, ta', sent')"
        using Cons.prems(1) Inr False by (simp add: Let_def)
      ultimately show ?thesis using Cons.IH [of ?ta sent ?c] Cons.prems(3) c Inr by (auto split: sum.splits)
    qed
  qed
qed auto

text \<open>C30: Streaming and buffering a response are equivalent. For a client that stays connected, the
  texts of the streamed chunks concatenate to the text of the buffered answer, the same usage is
  settled, and the stream ends with the success sentinel exactly when buffering would have
  succeeded; otherwise it ends with the error frame and without the sentinel.\<close>

theorem stream_equals_buffered:
  assumes "pump f ctx None flow = (events, ok, usage)"
  shows "case collect f flow of
      Inr g \<Rightarrow> ok \<and> sent_text events = gn_text g \<and> usage = Some (gn_usage g) \<and>
        (\<exists>fs. encode render to_string events = fs @ [DONE] \<and> length fs = length events)
    | Inl e \<Rightarrow> \<not> ok \<and> (\<exists>fs j. encode render to_string events = fs @ [frame (to_string j)] \<and>
        length events = length fs + 1)"
proof -
  define sent0 where "sent0 = (if rx_surface ctx = Chat then [Data (role_chunk ctx)] else [])"
  obtain k ta sent where l: "pump_loop f ctx None (flow_items flow) Tally_default sent0 = (k, ta, sent)"
    by (rule prod_cases3)
  have s0: "\<forall>e \<in> set sent0. \<not> is_fail e" "sent_text sent0 = []"
    by (simp_all add: sent0_def is_fail_def)
  have p: "ok = k" "usage = Some (tally_usage (tf_prompt_estimate flow) ta)"
    "events = (if k \<and> rx_include_usage ctx
      then sent @ [Data (usage_chunk ctx (tally_usage (tf_prompt_estimate flow) ta))] else sent)"
    using assms l by (auto simp: pump_def sent0_def Let_def split: if_splits)
  have t0: "co_tally collect_start = Tally_default" "co_text collect_start = []"
    by (simp_all add: collect_start_def)
  note c = pump_loop_collect [OF l t0(1) s0(1)]
  show ?thesis
  proof (cases "collect_loop f (flow_items flow) collect_start")
    case (Inl e)
    with c obtain es j where es: "\<not> k" "sent = es @ [Fail j]" "\<forall>e \<in> set es. \<not> is_fail e" by auto
    then have "encode render to_string events =
        map (\<lambda>e. case e of Data d \<Rightarrow> frame (render d) | Fail j \<Rightarrow> []) es @ [frame (to_string j)]"
      using encode_fail [OF es(3), of render to_string j "[]"] by (simp add: p)
    then show ?thesis using Inl es p by (fastforce simp: collect_def)
  next
    case (Inr c')
    with c have k: "k" "co_tally c' = ta" "\<forall>e \<in> set sent. \<not> is_fail e" "sent_text sent = co_text c'"
      using s0(2) t0(2) by auto
    then have ev: "\<forall>e \<in> set events. \<not> is_fail e" "sent_text events = co_text c'"
      by (auto simp: p is_fail_def)
    show ?thesis using Inr k p(1,2) ev encode_done [OF ev(1), of render to_string]
      by (auto simp: collect_def)
  qed
qed

definition demo_token :: "string \<Rightarrow> Token" where
  "demo_token s = \<lparr>tk_text = s, tk_logprob = 0, tk_finish = [], tk_tool_calls_json = [], tk_prompt_tokens = 0,
     tk_completion_tokens = 0, tk_logprobs_json = []\<rparr>"

definition demo_ctx :: ResponseCtx where
  "demo_ctx = \<lparr>rx_id = ''x'', rx_created = 0, rx_model = ''m'', rx_surface = Chat, rx_include_usage = False,
     rx_caller = Caller_default\<rparr>"

theorem stream_equals_buffered_witness:
  "sent_text (fst (pump (\<lambda>_. None) demo_ctx None
     \<lparr>tf_first = Some (demo_token ''Hel''), tf_rest = [Inr (demo_token ''lo'')], tf_prompt_estimate = 1, tf_node = None\<rparr>))
   = ''Hello''"
proof -
  let ?flow = "\<lparr>tf_first = Some (demo_token ''Hel''), tf_rest = [Inr (demo_token ''lo'')], tf_prompt_estimate = 1, tf_node = None\<rparr>"
  obtain g where g: "collect (\<lambda>_. None) ?flow = Inr g" "gn_text g = ''Hello''"
    by (simp add: collect_def flow_items_def collect_token_def demo_token_def collect_start_def)
  obtain events ok usage where p: "pump (\<lambda>_. None) demo_ctx None ?flow = (events, ok, usage)" by (rule prod_cases3)
  from stream_equals_buffered [OF p] g show ?thesis by (simp add: p)
qed

text \<open>A buffered answer that is replayed as a stream loses the tool calls and log-probabilities it
  holds.\<close>

lemma emit_generated_drops:
  "Data c \<in> set (fst (emit_generated ctx None g)) \<Longrightarrow> ch \<in> set (ck_choices c) \<Longrightarrow>
     ch_tool_calls ch = None \<and> ch_logprobs ch = None"
  by (auto simp: emit_generated_def Let_def chunk_def role_chunk_def usage_chunk_def
      split: if_splits Surface.splits)

section \<open>Tool-call fragments\<close>

definition call_args :: "nat \<Rightarrow> (nat \<times> ToolCall) list \<Rightarrow> string" where
  "call_args i calls = (case map_of calls i of None \<Rightarrow> [] | Some c \<Rightarrow> tc_arguments c)"

lemma merge_fragment_args: "tc_arguments (merge_fragment e c) = tc_arguments c @ fragment_args e"
  by (auto simp: merge_fragment_def fragment_args_def Let_def split: option.splits)

lemma map_of_btree_update:
  assumes "sorted_wrt (<) (map fst calls)"
  shows "map_of (btree_update k f calls) i =
    (if i = k then Some (f (case map_of calls k of None \<Rightarrow> ToolCall_default | Some c \<Rightarrow> c)) else map_of calls i)"
  using assms
proof (induction calls)
  case (Cons jc calls)
  obtain j c where jc: "jc = (j, c)" by (cases jc)
  have "map_of calls k = None" if "k < j"
    using Cons.prems that by (auto simp: jc map_of_eq_None_iff)
  with Cons show ?case by (auto simp: jc)
qed simp

lemma btree_update_keys: "fst ` set (btree_update k f calls) = insert k (fst ` set calls)"
  by (induction k f calls rule: btree_update.induct) auto

lemma btree_update_sorted:
  "sorted_wrt (<) (map fst calls) \<Longrightarrow> sorted_wrt (<) (map fst (btree_update k f calls))"
proof (induction k f calls rule: btree_update.induct)
  case (2 k f j c xs)
  have "j < x" if "x \<in> fst ` set (btree_update k f xs)" "j < k" for x
    using that 2(2) unfolding btree_update_keys by auto
  with 2 show ?case by (auto intro: less_trans)
qed simp

text \<open>The arguments of every call are its fragments in the order they arrived, however the
  fragments of several calls interleave.\<close>

lemma tools_push_args:
  assumes "sorted_wrt (<) (map fst calls)"
  shows "call_args i (tools_push (JArray es) calls) =
    call_args i calls @ concat (map fragment_args (filter (\<lambda>e. fragment_index e = i) es))"
  using assms
proof (induction es arbitrary: calls)
  case (Cons e es)
  let ?calls = "btree_update (fragment_index e) (merge_fragment e) calls"
  have "call_args i ?calls = call_args i calls @ (if fragment_index e = i then fragment_args e else [])"
    using Cons.prems
    by (auto simp: call_args_def map_of_btree_update merge_fragment_args ToolCall_default_def split: option.splits)
  with Cons.IH [of ?calls] btree_update_sorted [OF Cons.prems, of "fragment_index e" "merge_fragment e"]
  show ?case by (simp add: tools_push_def)
qed (simp add: tools_push_def)

end
