(* ===== verification/Cgn_Chat.thy ===== *)
theory Cgn_Chat
  imports Cgn_Gateway
begin

text \<open>
  The OpenAI handlers (\<open>gateway/chat.rs\<close>) over dispatch and streaming: request translation,
  carbon admission, the cascade, error responses and the complete handling of a chat or text
  completion. The request types are those of \<open>gateway/types.rs\<close>.
\<close>

section \<open>Requests\<close>

datatype ContentSpec = ContentText string | ContentParts json
datatype StopSpec = StopSingle string | StopMulti "string list"
datatype PromptSpec = PromptOne string | PromptMany "string list"

fun stop_into_vec :: "StopSpec \<Rightarrow> string list" where
  "stop_into_vec (StopSingle s) = [s]"
| "stop_into_vec (StopMulti v) = v"

text \<open>The plain-text view of a message; the texts of the parts are joined by line feeds.\<close>

definition as_text :: "ContentSpec \<Rightarrow> string" where
  "as_text c =
     (case c of
        ContentText s \<Rightarrow> s
      | ContentParts v \<Rightarrow> (case v of JArray parts \<Rightarrow> join_nl (List.map_filter (field_str ''text'') parts) | _ \<Rightarrow> []))"

record ChatMessage =
  cm_role :: string
  cm_content :: ContentSpec
  cm_name :: "string option"
  cm_tool_calls :: "json option"
  cm_tool_call_id :: "string option"

record ChatRequest =
  cq_model :: string
  cq_messages :: "ChatMessage list"
  cq_temperature :: "f32 option"
  cq_top_p :: "f32 option"
  cq_max_tokens :: "u32 option"
  cq_max_completion_tokens :: "u32 option"
  cq_n :: "nat option"
  cq_stream :: "bool option"
  cq_stream_options :: "bool option"
  cq_logprobs :: "bool option"
  cq_top_logprobs :: "json option"
  cq_logit_bias :: "json option"
  cq_parallel_tool_calls :: "json option"
  cq_top_k :: "u32 option"
  cq_min_p :: "json option"
  cq_repetition_penalty :: "f32 option"
  cq_stop :: "StopSpec option"
  cq_frequency_penalty :: "f32 option"
  cq_presence_penalty :: "f32 option"
  cq_user :: "string option"
  cq_seed :: "u32 option"
  cq_tools :: "json option"
  cq_tool_choice :: "json option"
  cq_response_format :: "json option"

record CompletionRequest =
  lq_model :: string
  lq_prompt :: PromptSpec
  lq_temperature :: "f32 option"
  lq_top_p :: "f32 option"
  lq_max_tokens :: "u32 option"
  lq_n :: "nat option"
  lq_stream :: "bool option"
  lq_stream_options :: "bool option"
  lq_stop :: "StopSpec option"
  lq_frequency_penalty :: "f32 option"
  lq_presence_penalty :: "f32 option"
  lq_seed :: "u32 option"
  lq_echo :: "bool option"
  lq_logprobs :: "nat option"
  lq_user :: "string option"

definition or_else :: "'a option \<Rightarrow> 'a \<Rightarrow> 'a" where
  "or_else x d = (case x of None \<Rightarrow> d | Some v \<Rightarrow> v)"

definition pins_model :: "ChatRequest \<Rightarrow> bool" where
  "pins_model r \<longleftrightarrow> cq_tools r \<noteq> None \<or> cq_tool_choice r \<noteq> None \<or> cq_response_format r \<noteq> None"

section \<open>Libraries, configuration and state\<close>

record libs =
  lb_hash :: "bytes \<Rightarrow> bytes"
  lb_order :: "NodeRegistry \<Rightarrow> node_id list"
  lb_from_str :: "string \<Rightarrow> json option"
  lb_to_string :: "json \<Rightarrow> string"
  lb_ln :: "f32 \<Rightarrow> f32"

record GatewayCfg =
  gc_router :: RouterCfg
  gc_carbon :: CarbonConfig
  gc_cascade_enabled :: bool
  gc_confidence_threshold :: f32
  gc_cascades :: "string \<rightharpoonup> string list"
  gc_enforce_scopes :: bool

text \<open>What happens around one request: per cascade step the network and the outcome of admission,
  the tokenizer, the events the client accepts, and the time of settlement.\<close>

record world =
  wo_env :: "nat \<Rightarrow> nat \<Rightarrow> agent_env"
  wo_admit :: "nat \<Rightarrow> (Error, unit) result"
  wo_tokens :: "GenerateRequest \<Rightarrow> u32 list"
  wo_accepts :: "nat option"
  wo_now :: nat

record Server =
  sv_router :: Router
  sv_ledger :: UsageLedger
  sv_carbon :: CarbonSample

section \<open>Translation\<close>

definition isolation_ext :: "libs \<Rightarrow> bool \<Rightarrow> Caller \<Rightarrow> (string \<times> json) list \<Rightarrow> (string \<times> json) list" where
  "isolation_ext lb kv_tenant_isolation caller ext =
     (if ca_tenant caller \<noteq> [] \<and> kv_tenant_isolation
      then (''cache_salt'', JString (hex_string (lb_hash lb (str_bytes (ca_tenant caller))))) # ext
      else ext)"

definition ext_string :: "libs \<Rightarrow> (string \<times> json) list \<Rightarrow> string" where
  "ext_string lb ext = (if ext = [] then [] else lb_to_string lb (JObject ext))"

definition put_ext :: "string \<Rightarrow> json option \<Rightarrow> (string \<times> json) list" where
  "put_ext k v = (case v of None \<Rightarrow> [] | Some j \<Rightarrow> [(k, j)])"

definition chat_ext :: "ChatRequest \<Rightarrow> (string \<times> json) list" where
  "chat_ext r =
     put_ext ''tools'' (cq_tools r) @ put_ext ''tool_choice'' (cq_tool_choice r) @
     put_ext ''response_format'' (cq_response_format r) @ put_ext ''logit_bias'' (cq_logit_bias r) @
     put_ext ''parallel_tool_calls'' (cq_parallel_tool_calls r) @
     put_ext ''top_logprobs'' (cq_top_logprobs r) @ put_ext ''min_p'' (cq_min_p r)"

definition proto_message :: "libs \<Rightarrow> ChatMessage \<Rightarrow> Message" where
  "proto_message lb m =
     \<lparr>ms_role = cm_role m,
      ms_content = (case cm_content m of ContentText s \<Rightarrow> s | ContentParts _ \<Rightarrow> []),
      ms_name = or_else (cm_name m) [],
      ms_content_json = (case cm_content m of ContentText _ \<Rightarrow> [] | ContentParts v \<Rightarrow> lb_to_string lb v),
      ms_tool_calls_json = (case cm_tool_calls m of None \<Rightarrow> [] | Some v \<Rightarrow> lb_to_string lb v),
      ms_tool_call_id = or_else (cm_tool_call_id m) []\<rparr>"

definition build_proto_request :: "libs \<Rightarrow> bool \<Rightarrow> ChatRequest \<Rightarrow> Caller \<Rightarrow> GenerateRequest" where
  "build_proto_request lb isolate r caller =
     \<lparr>gr_model = cq_model r, gr_messages = map (proto_message lb) (cq_messages r), gr_prompt = [],
      gr_params = Some
        \<lparr>sp_temperature = or_else (cq_temperature r) 1, sp_top_p = or_else (cq_top_p r) 1,
         sp_top_k = or_else (cq_top_k r) 0,
         sp_max_tokens = (case cq_max_completion_tokens r of Some n \<Rightarrow> n | None \<Rightarrow> or_else (cq_max_tokens r) 0),
         sp_stop = (case cq_stop r of None \<Rightarrow> [] | Some s \<Rightarrow> stop_into_vec s),
         sp_logprobs = or_else (cq_logprobs r) False, sp_seed = cq_seed r,
         sp_frequency_penalty = or_else (cq_frequency_penalty r) 0,
         sp_presence_penalty = or_else (cq_presence_penalty r) 0,
         sp_repetition_penalty = or_else (cq_repetition_penalty r) 1\<rparr>,
      gr_tenant = ca_tenant caller, gr_session = or_else (cq_user r) [], gr_deadline_ms = 0,
      gr_stream = or_else (cq_stream r) False, gr_traceparent = [], gr_tracestate = [],
      gr_extensions_json = ext_string lb (isolation_ext lb isolate caller (chat_ext r))\<rparr>"

definition text_proto_request :: "libs \<Rightarrow> bool \<Rightarrow> CompletionRequest \<Rightarrow> string \<Rightarrow> Caller \<Rightarrow> GenerateRequest" where
  "text_proto_request lb isolate r prompt caller =
     \<lparr>gr_model = lq_model r, gr_messages = [], gr_prompt = prompt,
      gr_params = Some
        \<lparr>sp_temperature = or_else (lq_temperature r) 1, sp_top_p = or_else (lq_top_p r) 1, sp_top_k = 0,
         sp_max_tokens = or_else (lq_max_tokens r) 0,
         sp_stop = (case lq_stop r of None \<Rightarrow> [] | Some s \<Rightarrow> stop_into_vec s),
         sp_logprobs = False, sp_seed = lq_seed r,
         sp_frequency_penalty = or_else (lq_frequency_penalty r) 0,
         sp_presence_penalty = or_else (lq_presence_penalty r) 0, sp_repetition_penalty = 1\<rparr>,
      gr_tenant = ca_tenant caller, gr_session = or_else (lq_user r) [], gr_deadline_ms = 0,
      gr_stream = or_else (lq_stream r) False, gr_traceparent = [], gr_tracestate = [],
      gr_extensions_json = ext_string lb (isolation_ext lb isolate caller [])\<rparr>"

definition apply_headers :: "(string \<rightharpoonup> string) \<Rightarrow> GenerateRequest \<Rightarrow> GenerateRequest" where
  "apply_headers get proto =
     (let p1 = proto\<lparr>gr_traceparent := or_else (get ''traceparent'') [],
                     gr_tracestate := or_else (get ''tracestate'') []\<rparr>;
          p2 = (case Option.bind (get ''x-cgn-deadline-ms'') (parse_dec U32_MAX) of
                  None \<Rightarrow> p1 | Some ms \<Rightarrow> p1\<lparr>gr_deadline_ms := of_nat ms\<rparr>)
      in case get ''x-session-id'' of None \<Rightarrow> p2 | Some s \<Rightarrow> p2\<lparr>gr_session := s\<rparr>)"

section \<open>The cascade over the cluster\<close>

definition heuristic_logprob :: "(f32 \<Rightarrow> f32) \<Rightarrow> u32 \<Rightarrow> f32" where
  "heuristic_logprob ln_f tokens = fdiv (- 1) (max (ln_f (max (nat_as_f32 (unat tokens)) 1)) (1 / 2))"

datatype Resolved = Live TokenFlow | Finished Generated

definition open_step :: "libs \<Rightarrow> RouterCfg \<Rightarrow> world \<Rightarrow> nat \<Rightarrow> GenerateRequest \<Rightarrow> Router \<Rightarrow> (Error, TokenFlow) result \<times> Router" where
  "open_step lb cfg w i req ro =
     (let (r, _, ro') =
            open_request (lb_hash lb) (lb_order lb) cfg (wo_env w i) (wo_admit w i) req (wo_tokens w req) ro
      in (r, ro'))"

definition step_request :: "GenerateRequest \<Rightarrow> string \<Rightarrow> GenerateRequest" where
  "step_request proto step =
     proto\<lparr>gr_model := step, gr_params := map_option (\<lambda>p. p\<lparr>sp_logprobs := True\<rparr>) (gr_params proto)\<rparr>"

definition step_outcome :: "libs \<Rightarrow> Generated \<Rightarrow> StepOutcome" where
  "step_outcome lb g =
     StepOutcome_default\<lparr>so_logprob := (case gn_mean_logprob g of
          Some lp \<Rightarrow> lp | None \<Rightarrow> heuristic_logprob (lb_ln lb) (us_completion_tokens (gn_usage g))),
        so_tokens := unat (us_completion_tokens (gn_usage g))\<rparr>"

fun resolve_early ::
  "libs \<Rightarrow> RouterCfg \<Rightarrow> world \<Rightarrow> GenerateRequest \<Rightarrow> Cascade \<Rightarrow> nat \<Rightarrow> string list \<Rightarrow> Router \<Rightarrow> Generated option \<times> Router" where
  "resolve_early lb cfg w proto casc i [] ro = (None, ro)"
| "resolve_early lb cfg w proto casc i (step # steps) ro =
     (case open_step lb cfg w i (step_request proto step) ro of
        (Inl _, ro1) \<Rightarrow> resolve_early lb cfg w proto casc (Suc i) steps ro1
      | (Inr flow, ro1) \<Rightarrow>
          (case collect (lb_from_str lb) flow of
             Inl _ \<Rightarrow> resolve_early lb cfg w proto casc (Suc i) steps (drop_flow flow ro1)
           | Inr g \<Rightarrow>
               if \<not> should_escalate casc (step_outcome lb g) then (Some g, drop_flow flow ro1)
               else resolve_early lb cfg w proto casc (Suc i) steps (drop_flow flow ro1)))"

definition resolve_cascade ::
  "libs \<Rightarrow> RouterCfg \<Rightarrow> world \<Rightarrow> GenerateRequest \<Rightarrow> Cascade \<Rightarrow> Router \<Rightarrow> (Error, Resolved) result \<times> Router" where
  "resolve_cascade lb cfg w proto casc ro =
     (case resolve_early lb cfg w proto casc 0 (butlast (cd_steps casc)) ro of
        (Some g, ro1) \<Rightarrow> (Inr (Finished g), ro1)
      | (None, ro1) \<Rightarrow>
          (case open_step lb cfg w (length (cd_steps casc) - 1) (proto\<lparr>gr_model := last (cd_steps casc)\<rparr>) ro1 of
             (Inl e, ro2) \<Rightarrow> (Inl e, ro2)
           | (Inr flow, ro2) \<Rightarrow> (Inr (Live flow), ro2)))"

section \<open>Responses\<close>

text \<open>An error body has a status, a message, a type and a code; \<open>Retry-After\<close> is its seconds.\<close>

datatype Response =
    ErrorResponse nat string string "string option" "nat option"
  | CarbonDeferred rat rat
  | SseResponse "Chunk SseEvent list"
  | JsonResponse Generated

definition bad_request :: "string \<Rightarrow> Response" where
  "bad_request message = ErrorResponse 400 message ''invalid_request_error'' None None"

definition error_status :: "Error \<Rightarrow> nat \<times> string" where
  "error_status e =
     (case e of
        InvalidArgument _ \<Rightarrow> (400, ''invalid_request_error'')
      | NotFound _ \<Rightarrow> (404, ''not_found_error'')
      | Unavailable msg \<Rightarrow>
          if str_contains msg ''admission queue full'' \<or> str_contains msg ''deadline exceeded''
          then (429, ''server_error'') else (503, ''server_error'')
      | _ \<Rightarrow> (500, ''server_error''))"

definition error_json :: "Error \<Rightarrow> Response" where
  "error_json e =
     (let (st, ty) = error_status e
      in ErrorResponse st (display snd e) ty None (if st \<in> {429, 503} then Some 1 else None))"

definition denied_response :: "Denied \<Rightarrow> Response" where
  "denied_response d =
     (case d of
        Forbidden message \<Rightarrow> ErrorResponse 403 message ''permission_error'' None None
      | TooManyRequests message code retry \<Rightarrow> ErrorResponse 429 message ''insufficient_quota'' (Some code) retry)"

section \<open>Serving\<close>

definition resolve ::
  "libs \<Rightarrow> GatewayCfg \<Rightarrow> world \<Rightarrow> GenerateRequest \<Rightarrow> Cascade option \<Rightarrow> Router \<Rightarrow> (Error, Resolved) result \<times> Router" where
  "resolve lb cfg w proto casc ro =
     (case casc of
        Some c \<Rightarrow> resolve_cascade lb (gc_router cfg) w proto c ro
      | None \<Rightarrow>
          (case open_step lb (gc_router cfg) w 0 proto ro of
             (Inl e, ro') \<Rightarrow> (Inl e, ro')
           | (Inr flow, ro') \<Rightarrow> (Inr (Live flow), ro')))"

text \<open>The streaming task: it owns the flow and drops it at the end.\<close>

definition stream_response :: "libs \<Rightarrow> world \<Rightarrow> ResponseCtx \<Rightarrow> Resolved \<Rightarrow> Server \<Rightarrow> Response \<times> Server" where
  "stream_response lb w ctx res sv =
     (case res of
        Live flow \<Rightarrow>
          (let (events, _, usage) = pump (lb_from_str lb) ctx (wo_accepts w) flow;
               ul = (case usage of None \<Rightarrow> sv_ledger sv | Some u \<Rightarrow> settle ctx u (wo_now w) (sv_ledger sv))
           in (SseResponse events, sv\<lparr>sv_router := drop_flow flow (sv_router sv), sv_ledger := ul\<rparr>))
      | Finished g \<Rightarrow>
          (let (events, usage) = emit_generated ctx (wo_accepts w) g
           in (SseResponse events, sv\<lparr>sv_ledger := settle ctx usage (wo_now w) (sv_ledger sv)\<rparr>)))"

definition buffered :: "libs \<Rightarrow> world \<Rightarrow> ResponseCtx \<Rightarrow> Resolved \<Rightarrow> Server \<Rightarrow> Response \<times> Server" where
  "buffered lb w ctx res sv =
     (let (generated, sv1) =
        (case res of
           Finished g \<Rightarrow> (Inr g, sv)
         | Live flow \<Rightarrow> (collect (lb_from_str lb) flow, sv\<lparr>sv_router := drop_flow flow (sv_router sv)\<rparr>))
      in case generated of
           Inr g \<Rightarrow> (JsonResponse g, sv1\<lparr>sv_ledger := settle ctx (gn_usage g) (wo_now w) (sv_ledger sv1)\<rparr>)
         | Inl e \<Rightarrow> (error_json e, sv1))"

definition serve_request ::
  "libs \<Rightarrow> GatewayCfg \<Rightarrow> world \<Rightarrow> (string \<rightharpoonup> string) \<Rightarrow> GenerateRequest \<Rightarrow> Cascade option \<Rightarrow> ResponseCtx \<Rightarrow> bool
     \<Rightarrow> Server \<Rightarrow> Response \<times> Server" where
  "serve_request lb cfg w headers proto casc ctx stream sv =
     (let priority = (case headers ''x-cgn-priority'' of None \<Rightarrow> PNormal | Some v \<Rightarrow> parse_header v)
      in case check_admission (gc_carbon cfg) (sv_carbon sv) priority of
           CarbonReject i t \<Rightarrow> (CarbonDeferred i t, sv)
         | CarbonAdmit \<Rightarrow>
             (case resolve lb cfg w (apply_headers headers proto) casc (sv_router sv) of
                (Inl e, ro) \<Rightarrow> (error_json e, sv\<lparr>sv_router := ro\<rparr>)
              | (Inr res, ro) \<Rightarrow>
                  (if stream then stream_response else buffered) lb w ctx res (sv\<lparr>sv_router := ro\<rparr>)))"

text \<open>\<open>uuid\<close> gives the response id, \<open>created\<close> its time stamp.\<close>

definition response_ctx :: "string \<Rightarrow> string \<Rightarrow> int \<Rightarrow> string \<Rightarrow> Surface \<Rightarrow> bool \<Rightarrow> Caller \<Rightarrow> ResponseCtx" where
  "response_ctx pre uuid created model surface include_usage caller =
     \<lparr>rx_id = pre @ ''-'' @ take 16 uuid, rx_created = created, rx_model = model, rx_surface = surface,
      rx_include_usage = include_usage, rx_caller = caller\<rparr>"

definition completions ::
  "libs \<Rightarrow> GatewayCfg \<Rightarrow> world \<Rightarrow> string \<Rightarrow> int \<Rightarrow> Principal option \<Rightarrow> (string \<rightharpoonup> string) \<Rightarrow> ChatRequest \<Rightarrow> Server
     \<Rightarrow> Response \<times> Server" where
  "completions lb cfg w uuid created pr headers req sv =
     (case authorize (gc_enforce_scopes cfg) (sv_ledger sv) (wo_now w) pr ''chat'' (cq_model req) of
        Inl d \<Rightarrow> (denied_response d, sv)
      | Inr caller \<Rightarrow>
          if cq_n req \<noteq> None \<and> cq_n req \<noteq> Some 1 then (bad_request ''only n=1 is supported'', sv)
          else let casc = (if pins_model req then None
                           else cascade_from_config (gc_cascade_enabled cfg) (gc_confidence_threshold cfg)
                                  (gc_cascades cfg) (cq_model req) []);
                   ctx = response_ctx ''chatcmpl'' uuid created (cq_model req) Chat
                           (or_else (cq_stream_options req) False) caller;
                   proto = build_proto_request lb (st_isolation (ro_state (sv_router sv))) req caller
               in serve_request lb cfg w headers proto casc ctx (or_else (cq_stream req) False) sv)"

definition single_prompt :: "PromptSpec \<Rightarrow> (string, string) result" where
  "single_prompt p =
     (case p of
        PromptOne s \<Rightarrow> Inr s
      | PromptMany [s] \<Rightarrow> Inr s
      | PromptMany _ \<Rightarrow> Inl ''prompt arrays must hold exactly one string'')"

definition text_completions ::
  "libs \<Rightarrow> GatewayCfg \<Rightarrow> world \<Rightarrow> string \<Rightarrow> int \<Rightarrow> Principal option \<Rightarrow> (string \<rightharpoonup> string) \<Rightarrow> CompletionRequest \<Rightarrow> Server
     \<Rightarrow> Response \<times> Server" where
  "text_completions lb cfg w uuid created pr headers req sv =
     (case authorize (gc_enforce_scopes cfg) (sv_ledger sv) (wo_now w) pr ''chat'' (lq_model req) of
        Inl d \<Rightarrow> (denied_response d, sv)
      | Inr caller \<Rightarrow>
          if lq_n req \<noteq> None \<and> lq_n req \<noteq> Some 1 then (bad_request ''only n=1 is supported'', sv)
          else if lq_echo req = Some True then (bad_request ''echo is not supported'', sv)
          else if lq_logprobs req \<noteq> None then (bad_request ''logprobs is not supported on /v1/completions'', sv)
          else case single_prompt (lq_prompt req) of
                 Inl m \<Rightarrow> (bad_request m, sv)
               | Inr prompt \<Rightarrow>
                   if prompt = [] then (bad_request ''prompt must not be empty'', sv)
                   else let ctx = response_ctx ''cmpl'' uuid created (lq_model req) TextSurface
                                    (or_else (lq_stream_options req) False) caller;
                            proto = text_proto_request lb (st_isolation (ro_state (sv_router sv))) req prompt caller
                        in serve_request lb cfg w headers proto None ctx (or_else (lq_stream req) False) sv)"

section \<open>A request handled to the end\<close>







text \<open>The bill of a response: a JSON answer is charged its own usage; a stream is charged one usage,
  the one its usage chunk reports if it has one, and nothing if the client left before the first
  event; every other response is free. A usage chunk ends each stream that asked for one, succeeded
  and was read to the end.\<close>

definition usage_of :: "Chunk SseEvent \<Rightarrow> Usage option" where
  "usage_of e = (case e of Data c \<Rightarrow> ck_usage c | Fail _ \<Rightarrow> None)"

definition stream_bill :: "ResponseCtx \<Rightarrow> nat option \<Rightarrow> Chunk SseEvent list \<Rightarrow> Usage \<Rightarrow> bool" where
  "stream_bill ctx accepts events u \<longleftrightarrow> (\<forall>e \<in> set events. usage_of e = None \<or> usage_of e = Some u) \<and>
     (accepts = None \<longrightarrow> rx_include_usage ctx \<longrightarrow> (\<forall>e \<in> set events. \<not> is_fail e) \<longrightarrow>
        events \<noteq> [] \<and> usage_of (last events) = Some u)"

definition billed :: "ResponseCtx \<Rightarrow> nat option \<Rightarrow> nat \<Rightarrow> Response \<Rightarrow> UsageLedger \<Rightarrow> UsageLedger \<Rightarrow> bool" where
  "billed ctx accepts now resp ul ul' \<longleftrightarrow>
     (case resp of
        JsonResponse g \<Rightarrow> ul' = settle ctx (gn_usage g) now ul
      | SseResponse events \<Rightarrow>
          (ul' = ul \<and> events = [] \<and> accepts = Some 0) \<or> (\<exists>u. ul' = settle ctx u now ul \<and> stream_bill ctx accepts events u)
      | _ \<Rightarrow> ul' = ul)"

lemma usage_of_simps [simp]:
  "usage_of (Data (chunk ctx r txt tls fin lp)) = None" "usage_of (Data (usage_chunk ctx u)) = Some u"
  "usage_of (Data (token_chunk f ctx t)) = None" "usage_of (Data (role_chunk ctx)) = None" "usage_of (Fail j) = None"
  by (simp_all add: usage_of_def chunk_def usage_chunk_def token_chunk_def role_chunk_def)






lemma billed_simps [simp]:
  "billed ctx a n (error_json e) ul ul' \<longleftrightarrow> ul' = ul" "billed ctx a n (CarbonDeferred i t) ul ul' \<longleftrightarrow> ul' = ul"
  "billed ctx a n (JsonResponse g) ul ul' \<longleftrightarrow> ul' = settle ctx (gn_usage g) n ul"
  by (simp_all add: billed_def error_json_def split: prod.splits)










section \<open>Tenants\<close>

text \<open>The tenant a request runs as is the one of its credential, and so is the salt that the engine
  mixes into its own prefix cache: no field of the request body reaches either.\<close>

lemma chat_ext_no_salt: "k \<in> fst ` set (chat_ext r) \<Longrightarrow> k \<noteq> ''cache_salt''"
  by (auto simp: chat_ext_def put_ext_def split: option.splits)

lemma chat_tenant:
  assumes "ca_tenant caller \<noteq> []"
  shows "gr_tenant (build_proto_request lb isolate r caller) = ca_tenant caller"
    and "map_of (isolation_ext lb True caller (chat_ext r)) ''cache_salt'' =
      Some (JString (hex_string (lb_hash lb (str_bytes (ca_tenant caller)))))"
  using assms by (simp_all add: build_proto_request_def isolation_ext_def)

lemma headers_keep_tenant: "gr_tenant (apply_headers h p) = gr_tenant p"
  by (simp add: apply_headers_def Let_def split: option.splits)

lemma retry_after_iff: "error_json e = ErrorResponse st m ty c ra \<Longrightarrow> ra = Some 1 \<longleftrightarrow> st \<in> {429, 503}"
  by (auto simp: error_json_def split: prod.splits if_splits)

end
