(* ===== verification/Cgn_Outcome.thy ===== *)
theory Cgn_Outcome
  imports Cgn_Prelude
begin

text \<open>
  The outcome of Rust code that can panic: a call returns, fails with an error (\<open>Err\<close>), or panics.
  \<open>and_then\<close> is the question mark operator.
\<close>

datatype ('e, 'a) outcome = Panic | Err 'e | Ok 'a

fun and_then :: "('e, 'a) outcome \<Rightarrow> ('a \<Rightarrow> ('e, 'b) outcome) \<Rightarrow> ('e, 'b) outcome" where
  "and_then Panic f = Panic"
| "and_then (Err e) f = Err e"
| "and_then (Ok x) f = f x"

fun map_err :: "('e \<Rightarrow> 'f) \<Rightarrow> ('e, 'a) outcome \<Rightarrow> ('f, 'a) outcome" where
  "map_err f Panic = Panic"
| "map_err f (Err e) = Err (f e)"
| "map_err f (Ok x) = Ok x"

fun ok_or :: "'e \<Rightarrow> 'a option \<Rightarrow> ('e, 'a) outcome" where
  "ok_or e None = Err e"
| "ok_or e (Some x) = Ok x"

definition of_result :: "('e, 'a) result \<Rightarrow> ('e, 'a) outcome" where
  "of_result r = (case r of Inl e \<Rightarrow> Err e | Inr x \<Rightarrow> Ok x)"

lemma of_result_Ok [simp]: "of_result r = Ok x \<longleftrightarrow> r = Inr x"
  by (cases r) (simp_all add: of_result_def)

lemma and_then_Ok: "and_then m f = Ok y \<longleftrightarrow> (\<exists>x. m = Ok x \<and> f x = Ok y)"
  by (cases m) auto

lemma map_err_Ok [simp]: "map_err f m = Ok y \<longleftrightarrow> m = Ok y"
  by (cases m) auto

lemma ok_or_Ok [simp]: "ok_or e m = Ok y \<longleftrightarrow> m = Some y"
  by (cases m) auto

lemma and_then_assoc: "and_then (and_then m f) g = and_then m (\<lambda>x. and_then (f x) g)"
  by (cases m) auto

end
