(* ===== verification/Cgn_Llama.thy ===== *)
theory Cgn_Llama
  imports Cgn_Outcome Cgn_Text Cgn_Error Cgn_F32
begin

text \<open>
  The quantized forward pass of the inference engine (\<open>cgn-infer/src/model/llama.rs\<close>):
  layer ranges, the GGUF header, loading a slice of layers, the per-sequence KV cache, the forward
  pass of one sequence and the batched decode step. The tensor library (candle) is the record
  \<open>candle\<close> of the operations the code calls; each of them may fail or panic. A tensor is
  a value of the type \<open>'t\<close>, \<open>'q\<close> is a quantized tensor of the file,
  \<open>'w\<close> a quantized matrix and \<open>'n\<close> a normalisation layer. Mutable KV slots are
  passed in and returned, so that what a failed call leaves behind is visible.
\<close>

section \<open>Layer ranges\<close>

definition USIZE_MAX :: nat where
  "USIZE_MAX = 2 ^ 64 - 1"

record LayerRange =
  lr_start :: nat
  lr_end :: nat

definition show_range :: "LayerRange \<Rightarrow> string" where
  "show_range r = show_nat (lr_start r) @ '':'' @ show_nat (lr_end r)"

definition layer_range_new :: "nat \<Rightarrow> nat \<Rightarrow> (Error, LayerRange) result" where
  "layer_range_new start end' =
     (if start \<ge> end'
      then Inl (InvalidArgument (''layer range '' @ show_nat start @ '':'' @ show_nat end' @ '' is empty''))
      else Inr \<lparr> lr_start = start, lr_end = end' \<rparr>)"

text \<open>The texts of \<open>ParseIntError\<close>.\<close>

fun digits_error :: "nat \<Rightarrow> nat \<Rightarrow> string \<Rightarrow> string" where
  "digits_error m acc [] = []"
| "digits_error m acc (c # cs) =
     (case dec_digit c of
        None \<Rightarrow> ''invalid digit found in string''
      | Some d \<Rightarrow>
          if m < acc * 10 + d then ''number too large to fit in target type''
          else digits_error m (acc * 10 + d) cs)"

definition parse_int_error :: "nat \<Rightarrow> string \<Rightarrow> string" where
  "parse_int_error m s =
     (case s of
        [] \<Rightarrow> ''cannot parse integer from empty string''
      | c # cs \<Rightarrow> if c = CHR ''+'' \<and> cs \<noteq> [] then digits_error m 0 cs else digits_error m 0 s)"

definition layer_range_parse :: "string \<Rightarrow> (Error, LayerRange) result" where
  "layer_range_parse s =
     (case split_once (CHR '':'') s of
        None \<Rightarrow> Inl (InvalidArgument (''layer range `'' @ s @ ''` must be of the form A:B''))
      | Some (a, b) \<Rightarrow>
          (case parse_dec USIZE_MAX (trim a) of
             None \<Rightarrow> Inl (InvalidArgument (''layer range start `'' @ a @ ''`: '' @ parse_int_error USIZE_MAX (trim a)))
           | Some start \<Rightarrow>
               (case parse_dec USIZE_MAX (trim b) of
                  None \<Rightarrow> Inl (InvalidArgument (''layer range end `'' @ b @ ''`: '' @ parse_int_error USIZE_MAX (trim b)))
                | Some end' \<Rightarrow> layer_range_new start end')))"

fun split_loop :: "nat \<Rightarrow> nat \<Rightarrow> nat \<Rightarrow> nat \<Rightarrow> nat list \<Rightarrow> LayerRange list" where
  "split_loop base rem parts start [] = []"
| "split_loop base rem parts start (i # is) =
     (let len = base + (if i < rem then 1 else 0)
      in \<lparr> lr_start = start, lr_end = start + len \<rparr> # split_loop base rem parts (start + len) is)"

definition split_layers :: "nat \<Rightarrow> nat \<Rightarrow> (Error, LayerRange list) result" where
  "split_layers n parts =
     (if parts = 0 \<or> parts > n
      then Inl (InvalidArgument (''cannot split '' @ show_nat n @ '' layers into '' @ show_nat parts @ '' parts''))
      else Inr (split_loop (n div parts) (n mod parts) parts 0 [0..<parts]))"

fun coverage_loop :: "nat \<Rightarrow> LayerRange list \<Rightarrow> (Error, nat) result" where
  "coverage_loop next [] = Inr next"
| "coverage_loop next (r # rs) =
     (if lr_start r \<noteq> next
      then Inl (InvalidArgument (''pipeline layer ranges must be contiguous: expected a range starting at ''
             @ show_nat next @ '', got '' @ show_range r))
      else coverage_loop (lr_end r) rs)"

definition validate_coverage :: "nat \<Rightarrow> LayerRange list \<Rightarrow> (Error, unit) result" where
  "validate_coverage n ranges =
     (case coverage_loop 0 ranges of
        Inl e \<Rightarrow> Inl e
      | Inr next \<Rightarrow>
          if next \<noteq> n
          then Inl (InvalidArgument (''pipeline layer ranges cover [0, '' @ show_nat next @ '') but the model has ''
                 @ show_nat n @ '' layers''))
          else Inr ())"

section \<open>The GGUF header\<close>

text \<open>A parsed file: the metadata read as a string, a \<open>u32\<close> or an \<open>f32\<close>, and its tensors.\<close>

record 'q Gguf =
  gg_str :: "string \<Rightarrow> string option"
  gg_u32 :: "string \<Rightarrow> nat option"
  gg_f32 :: "string \<Rightarrow> f32 option"
  gg_tensor :: "string \<Rightarrow> (string, 'q) outcome"

datatype RopeStyle = Interleaved | Neox

record QLlamaConfig =
  qc_architecture :: string
  qc_n_layers :: nat
  qc_n_head :: nat
  qc_n_kv_head :: nat
  qc_head_dim :: nat
  qc_embedding_length :: nat
  qc_rms_eps :: rat
  qc_rope_freq_base :: f32
  qc_rope_dim :: nat
  qc_context_length :: nat
  qc_qkv_bias :: bool
  qc_rope_style :: RopeStyle

definition arch_supported :: "'q Gguf \<Rightarrow> bool" where
  "arch_supported g =
     (let arch = case_option [] id (gg_str g ''general.architecture'')
      in if arch = ''qwen2'' then True
         else if arch = ''llama'' then case_option 0 id (gg_u32 g ''llama.expert_count'') \<le> 1
         else False)"

text \<open>Integer division by a head count of zero panics.\<close>

definition from_gguf :: "'q Gguf \<Rightarrow> (Error, QLlamaConfig) outcome" where
  "from_gguf g =
     and_then (ok_or (Config ''gguf: missing general.architecture'') (gg_str g ''general.architecture'')) (\<lambda>arch.
     let get_u32 = (\<lambda>k. ok_or (Config (''gguf: missing '' @ arch @ ''.'' @ k)) (gg_u32 g (arch @ ''.'' @ k))) in
     and_then (get_u32 ''attention.head_count'') (\<lambda>n_head.
     and_then (get_u32 ''attention.head_count_kv'') (\<lambda>n_kv_head.
     and_then (get_u32 ''block_count'') (\<lambda>n_layers.
     and_then (get_u32 ''embedding_length'') (\<lambda>embedding_length.
     let context_length = case_option 4096 id (gg_u32 g (arch @ ''.context_length'')) in
     if n_head = 0 then Panic
     else
       let head_dim = embedding_length div n_head;
           rms_eps = case_option (f32_round (1 / 100000)) id (gg_f32 g (arch @ ''.attention.layer_norm_rms_epsilon''));
           rope_freq_base = case_option 10000 id (gg_f32 g (arch @ ''.rope.freq_base'')) in
       and_then
         (if arch = ''qwen2'' then Ok (True, Neox, head_dim)
          else if arch = ''llama''
          then Ok (False, Interleaved, case_option head_dim id (gg_u32 g ''llama.rope.dimension_count''))
          else Err (Config (''architecture `'' @ arch @ ''` is not supported by the batched runtime'')))
         (\<lambda>(qkv_bias, rope_style, rope_dim).
         Ok \<lparr> qc_architecture = arch, qc_n_layers = n_layers, qc_n_head = n_head, qc_n_kv_head = n_kv_head,
              qc_head_dim = head_dim, qc_embedding_length = embedding_length, qc_rms_eps = rms_eps,
              qc_rope_freq_base = rope_freq_base, qc_rope_dim = rope_dim, qc_context_length = context_length,
              qc_qkv_bias = qkv_bias, qc_rope_style = rope_style \<rparr>))))))"

section \<open>The tensor library\<close>

text \<open>
  One field per operation of candle that the forward pass calls. \<open>tc_rows a b x\<close> is
  \<open>x.i(a..b)\<close>, \<open>tc_last k x\<close> is \<open>x.i((.., k, ..))\<close>, \<open>tc_at j k x\<close> is \<open>x.i((j, k, ..))\<close>, \<open>tc_scale\<close> divides by the
  square root of an integer and \<open>tc_masked mask neg x\<close> puts \<open>neg\<close> (the scalar \<open>tc_neg_inf\<close>) where the mask is set.
\<close>

record ('t, 'q, 'w, 'n) candle =
  tc_dims3 :: "'t \<Rightarrow> (string, nat \<times> nat \<times> nat) outcome"
  tc_of_tokens :: "u32 list \<Rightarrow> (string, 't) outcome"
  tc_of_f32s :: "f32 list \<Rightarrow> (string, 't) outcome"
  tc_of_mask :: "nat list \<Rightarrow> nat \<Rightarrow> nat \<Rightarrow> (string, 't) outcome"
  tc_arange :: "nat \<Rightarrow> nat \<Rightarrow> (string, 't) outcome"
  tc_to_f32 :: "'t \<Rightarrow> (string, 't) outcome"
  tc_unsqueeze :: "nat \<Rightarrow> 't \<Rightarrow> (string, 't) outcome"
  tc_squeeze :: "nat \<Rightarrow> 't \<Rightarrow> (string, 't) outcome"
  tc_reshape :: "nat list \<Rightarrow> 't \<Rightarrow> (string, 't) outcome"
  tc_transpose :: "nat \<Rightarrow> nat \<Rightarrow> 't \<Rightarrow> (string, 't) outcome"
  tc_contiguous :: "'t \<Rightarrow> (string, 't) outcome"
  tc_t :: "'t \<Rightarrow> (string, 't) outcome"
  tc_narrow :: "nat \<Rightarrow> nat \<Rightarrow> nat \<Rightarrow> 't \<Rightarrow> (string, 't) outcome"
  tc_rows :: "nat \<Rightarrow> nat \<Rightarrow> 't \<Rightarrow> (string, 't) outcome"
  tc_last :: "nat \<Rightarrow> 't \<Rightarrow> (string, 't) outcome"
  tc_at :: "nat \<Rightarrow> nat \<Rightarrow> 't \<Rightarrow> (string, 't) outcome"
  tc_rank :: "'t \<Rightarrow> nat"
  tc_cat :: "'t list \<Rightarrow> nat \<Rightarrow> (string, 't) outcome"
  tc_matmul :: "'t \<Rightarrow> 't \<Rightarrow> (string, 't) outcome"
  tc_mul :: "'t \<Rightarrow> 't \<Rightarrow> (string, 't) outcome"
  tc_add :: "'t \<Rightarrow> 't \<Rightarrow> (string, 't) outcome"
  tc_broadcast_add :: "'t \<Rightarrow> 't \<Rightarrow> (string, 't) outcome"
  tc_scale :: "nat \<Rightarrow> 't \<Rightarrow> (string, 't) outcome"
  tc_neg_inf :: "(string, 't) outcome"
  tc_masked :: "'t \<Rightarrow> 't \<Rightarrow> 't \<Rightarrow> (string, 't) outcome"
  tc_softmax :: "'t \<Rightarrow> (string, 't) outcome"
  tc_silu :: "'t \<Rightarrow> (string, 't) outcome"
  tc_cos :: "'t \<Rightarrow> (string, 't) outcome"
  tc_sin :: "'t \<Rightarrow> (string, 't) outcome"
  tc_rope_i :: "'t \<Rightarrow> 't \<Rightarrow> 't \<Rightarrow> (string, 't) outcome"
  tc_rope :: "'t \<Rightarrow> 't \<Rightarrow> 't \<Rightarrow> (string, 't) outcome"
  tc_repeat_kv :: "nat \<Rightarrow> 't \<Rightarrow> (string, 't) outcome"
  tc_embed :: "'t \<Rightarrow> 't \<Rightarrow> (string, 't) outcome"
  tc_norm :: "'n \<Rightarrow> 't \<Rightarrow> (string, 't) outcome"
  tc_qmatmul :: "'w \<Rightarrow> 't \<Rightarrow> (string, 't) outcome"
  tc_dequantize :: "'q \<Rightarrow> (string, 't) outcome"
  tc_norm_from :: "'q \<Rightarrow> rat \<Rightarrow> (string, 'n) outcome"
  tc_qmatmul_from :: "'q \<Rightarrow> (string, 'w) outcome"
  tc_to_vec1 :: "'t \<Rightarrow> (string, f32 list) outcome"
  tc_to_vec2 :: "'t \<Rightarrow> (string, f32 list list) outcome"
  tc_flatten :: "'t \<Rightarrow> (string, 't) outcome"
  tc_of_vec3 :: "f32 list \<Rightarrow> nat \<Rightarrow> nat \<Rightarrow> nat \<Rightarrow> (string, 't) outcome"
  tc_powf :: "f32 \<Rightarrow> f32 \<Rightarrow> f32"

definition internal :: "string \<Rightarrow> string \<Rightarrow> Error" where
  "internal what e = Internal (what @ '': '' @ e)"

section \<open>Per-sequence KV cache\<close>

type_synonym 't slot = "('t \<times> 't) option"

record 't SeqKv =
  kv_entries :: "'t slot list"
  kv_tokens :: nat

definition seq_kv_new :: "nat \<Rightarrow> 't SeqKv" where
  "seq_kv_new n_layers = \<lparr> kv_entries = replicate n_layers None, kv_tokens = 0 \<rparr>"

definition seq_kv_clear :: "'t SeqKv \<Rightarrow> 't SeqKv" where
  "seq_kv_clear kv = \<lparr> kv_entries = map (\<lambda>_. None) (kv_entries kv), kv_tokens = 0 \<rparr>"

section \<open>The model\<close>

record ('t, 'w) QkvProj =
  qp_weight :: 'w
  qp_bias :: "'t option"

record ('t, 'w, 'n) Block =
  bl_attn_norm :: 'n
  bl_wq :: "('t, 'w) QkvProj"
  bl_wk :: "('t, 'w) QkvProj"
  bl_wv :: "('t, 'w) QkvProj"
  bl_wo :: 'w
  bl_ffn_norm :: 'n
  bl_w_gate :: 'w
  bl_w_down :: 'w
  bl_w_up :: 'w

record ('t, 'w, 'n) QLlama =
  ql_cfg :: QLlamaConfig
  ql_range :: LayerRange
  ql_embed :: "'t option"
  ql_blocks :: "('t, 'w, 'n) Block list"
  ql_out :: "('n \<times> 'w) option"
  ql_cos :: 't
  ql_sin :: 't
  ql_neg_inf :: 't

record ModelParts =
  mp_embedding :: bool
  mp_output :: bool

definition parts_full :: ModelParts where
  "parts_full = \<lparr> mp_embedding = True, mp_output = True \<rparr>"

definition parts_middle :: ModelParts where
  "parts_middle = \<lparr> mp_embedding = False, mp_output = False \<rparr>"

definition qkv_forward :: "('t, 'q, 'w, 'n) candle \<Rightarrow> ('t, 'w) QkvProj \<Rightarrow> 't \<Rightarrow> (string, 't) outcome" where
  "qkv_forward lib p x =
     and_then (tc_qmatmul lib (qp_weight p) x) (\<lambda>y.
     case qp_bias p of Some b \<Rightarrow> tc_broadcast_add lib y b | None \<Rightarrow> Ok y)"

definition mlp :: "('t, 'q, 'w, 'n) candle \<Rightarrow> ('t, 'w, 'n) Block \<Rightarrow> 't \<Rightarrow> (string, 't) outcome" where
  "mlp lib b x =
     and_then (tc_qmatmul lib (bl_w_gate b) x) (\<lambda>gate.
     and_then (tc_qmatmul lib (bl_w_up b) x) (\<lambda>up.
     and_then (tc_silu lib gate) (\<lambda>s.
     and_then (tc_mul lib s up) (\<lambda>act.
     tc_qmatmul lib (bl_w_down b) act))))"

definition rope_apply :: "('t, 'q, 'w, 'n) candle \<Rightarrow> ('t, 'w, 'n) QLlama \<Rightarrow> 't \<Rightarrow> nat \<Rightarrow> nat \<Rightarrow> (string, 't) outcome" where
  "rope_apply lib m x pos t =
     and_then (tc_narrow lib 0 pos t (ql_cos m)) (\<lambda>cs.
     and_then (tc_narrow lib 0 pos t (ql_sin m)) (\<lambda>sn.
     and_then (tc_contiguous lib x) (\<lambda>x.
     case qc_rope_style (ql_cfg m) of
       Interleaved \<Rightarrow> tc_rope_i lib x cs sn
     | Neox \<Rightarrow> tc_rope lib x cs sn)))"

definition mask_rows :: "nat \<Rightarrow> nat \<Rightarrow> nat list" where
  "mask_rows t start_pos =
     concat (map (\<lambda>i. map (\<lambda>j. if j > start_pos + i then 1 else 0) [0..<start_pos + t]) [0..<t])"

definition causal_mask :: "('t, 'q, 'w, 'n) candle \<Rightarrow> nat \<Rightarrow> nat \<Rightarrow> (Error, 't option) outcome" where
  "causal_mask lib t start_pos =
     (if t = 1 then Ok None
      else and_then (map_err (internal ''mask'') (tc_of_mask lib (mask_rows t start_pos) t (start_pos + t))) (\<lambda>m. Ok (Some m)))"

text \<open>\<open>n_head / n_kv_head\<close> panics when the header declares no KV head.\<close>

definition attend :: "('t, 'q, 'w, 'n) candle \<Rightarrow> ('t, 'w, 'n) QLlama \<Rightarrow> 't \<Rightarrow> 't \<Rightarrow> 't \<Rightarrow> 't option \<Rightarrow> (string, 't) outcome" where
  "attend lib m q k v msk =
     (if qc_n_kv_head (ql_cfg m) = 0 then Panic
      else
        let rep = qc_n_head (ql_cfg m) div qc_n_kv_head (ql_cfg m) in
        and_then (tc_repeat_kv lib rep k) (\<lambda>k.
        and_then (tc_repeat_kv lib rep v) (\<lambda>v.
        and_then (tc_t lib k) (\<lambda>kt.
        and_then (tc_matmul lib q kt) (\<lambda>att.
        and_then (tc_scale lib (qc_head_dim (ql_cfg m)) att) (\<lambda>att.
        and_then (case msk of None \<Rightarrow> Ok att | Some mk \<Rightarrow> tc_masked lib mk (ql_neg_inf m) att) (\<lambda>att.
        and_then (tc_softmax lib att) (\<lambda>att.
        and_then (tc_contiguous lib v) (\<lambda>v.
        tc_matmul lib att v)))))))))"

text \<open>
  The two block functions share their first half (normalisation, projections, split into heads) and
  their second half (output projection, residual, MLP); \<open>t\<close> is \<open>1\<close> in a decode step.
\<close>

definition heads :: "('t, 'q, 'w, 'n) candle \<Rightarrow> nat list \<Rightarrow> 't \<Rightarrow> (string, 't) outcome" where
  "heads lib shape x = and_then (tc_reshape lib shape x) (tc_transpose lib 1 2)"

definition project :: "('t, 'q, 'w, 'n) candle \<Rightarrow> ('t, 'w, 'n) QLlama \<Rightarrow> ('t, 'w, 'n) Block \<Rightarrow> nat \<Rightarrow> nat \<Rightarrow> 't
    \<Rightarrow> (string, 't \<times> 't \<times> 't) outcome" where
  "project lib m blk b t x =
     and_then (tc_norm lib (bl_attn_norm blk) x) (\<lambda>xn.
     and_then (qkv_forward lib (bl_wq blk) xn) (\<lambda>q.
     and_then (qkv_forward lib (bl_wk blk) xn) (\<lambda>k.
     and_then (qkv_forward lib (bl_wv blk) xn) (\<lambda>v.
     and_then (heads lib [b, t, qc_n_head (ql_cfg m), qc_head_dim (ql_cfg m)] q) (\<lambda>q.
     and_then (heads lib [b, t, qc_n_kv_head (ql_cfg m), qc_head_dim (ql_cfg m)] k) (\<lambda>k.
     and_then (heads lib [b, t, qc_n_kv_head (ql_cfg m), qc_head_dim (ql_cfg m)] v) (\<lambda>v.
     and_then (tc_contiguous lib v) (\<lambda>v. Ok (q, k, v)))))))))"

definition merge_heads :: "('t, 'q, 'w, 'n) candle \<Rightarrow> ('t, 'w, 'n) Block \<Rightarrow> nat list \<Rightarrow> 't \<Rightarrow> 't \<Rightarrow> (string, 't) outcome" where
  "merge_heads lib blk shape x y =
     and_then (tc_transpose lib 1 2 y) (\<lambda>y.
     and_then (tc_reshape lib shape y) (\<lambda>y.
     and_then (tc_qmatmul lib (bl_wo blk) y) (\<lambda>y.
     and_then (tc_add lib y x) (\<lambda>x.
     and_then (tc_norm lib (bl_ffn_norm blk) x) (\<lambda>xn.
     and_then (mlp lib blk xn) (\<lambda>y.
     tc_add lib y x))))))"

text \<open>\<open>slot.take()\<close> followed by the concatenation with the cached keys and values.\<close>

definition grow_slot :: "('t, 'q, 'w, 'n) candle \<Rightarrow> nat \<Rightarrow> 't slot \<Rightarrow> 't \<Rightarrow> 't \<Rightarrow> (string, 't \<times> 't) outcome" where
  "grow_slot lib pos slot k v =
     (case slot of
        Some (kc, vc) \<Rightarrow>
          if pos > 0
          then and_then (tc_cat lib [kc, k] 2) (\<lambda>k'. and_then (tc_cat lib [vc, v] 2) (\<lambda>v'. Ok (k', v')))
          else Ok (k, v)
      | None \<Rightarrow> Ok (k, v))"

definition block_forward_single :: "('t, 'q, 'w, 'n) candle \<Rightarrow> ('t, 'w, 'n) QLlama \<Rightarrow> ('t, 'w, 'n) Block \<Rightarrow> 't \<Rightarrow> nat \<Rightarrow> nat
    \<Rightarrow> 't option \<Rightarrow> 't slot \<Rightarrow> (string, 't) outcome \<times> 't slot" where
  "block_forward_single lib m blk x start_pos t msk slot =
     (case and_then (tc_dims3 lib x) (\<lambda>(b, _, e).
            and_then (project lib m blk b t x) (\<lambda>(q, k, v).
            and_then (rope_apply lib m q start_pos t) (\<lambda>q.
            and_then (rope_apply lib m k start_pos t) (\<lambda>k. Ok (b, e, q, k, v))))) of
        Panic \<Rightarrow> (Panic, slot)
      | Err er \<Rightarrow> (Err er, slot)
      | Ok (b, e, q, k, v) \<Rightarrow>
          (case grow_slot lib start_pos slot k v of
             Panic \<Rightarrow> (Panic, None)
           | Err er \<Rightarrow> (Err er, None)
           | Ok (k, v) \<Rightarrow>
               (and_then (attend lib m q k v msk) (merge_heads lib blk [b, t, e] x), Some (k, v))))"

fun forward_blocks :: "('t, 'q, 'w, 'n) candle \<Rightarrow> ('t, 'w, 'n) QLlama \<Rightarrow> nat \<Rightarrow> nat \<Rightarrow> 't option
    \<Rightarrow> ('t, 'w, 'n) Block list \<Rightarrow> 't slot list \<Rightarrow> 't \<Rightarrow> (string, 't) outcome \<times> 't slot list" where
  "forward_blocks lib m start_pos t msk (blk # blks) (slot # slots) x =
     (case block_forward_single lib m blk x start_pos t msk slot of
        (Ok x', slot') \<Rightarrow>
          (case forward_blocks lib m start_pos t msk blks slots x' of (r, slots') \<Rightarrow> (r, slot' # slots'))
      | (r, slot') \<Rightarrow> (r, slot' # slots))"
| "forward_blocks lib m start_pos t msk _ slots x = (Ok x, slots)"

definition forward_hidden :: "('t, 'q, 'w, 'n) candle \<Rightarrow> ('t, 'w, 'n) QLlama \<Rightarrow> 't \<Rightarrow> nat \<Rightarrow> 't SeqKv
    \<Rightarrow> (Error, 't) outcome \<times> 't SeqKv" where
  "forward_hidden lib m hidden start_pos kv =
     (if length (kv_entries kv) \<noteq> length (ql_blocks m) then (Err (Internal ''SeqKv layer count mismatch''), kv)
      else
        (case and_then (map_err (internal ''hidden dims'') (tc_dims3 lib hidden)) (\<lambda>(_, t, _).
               and_then (causal_mask lib t start_pos) (\<lambda>msk. Ok (t, msk))) of
           Panic \<Rightarrow> (Panic, kv)
         | Err e \<Rightarrow> (Err e, kv)
         | Ok (t, msk) \<Rightarrow>
             (case forward_blocks lib m start_pos t msk (ql_blocks m) (kv_entries kv) hidden of
                (Ok x, slots) \<Rightarrow> (Ok x, \<lparr> kv_entries = slots, kv_tokens = start_pos + t \<rparr>)
              | (r, slots) \<Rightarrow> (map_err (internal ''layer forward'') r, kv\<lparr> kv_entries := slots \<rparr>))))"

definition new_kv :: "('t, 'w, 'n) QLlama \<Rightarrow> 't SeqKv" where
  "new_kv m = seq_kv_new (length (ql_blocks m))"

definition embed_tokens :: "('t, 'q, 'w, 'n) candle \<Rightarrow> ('t, 'w, 'n) QLlama \<Rightarrow> u32 list \<Rightarrow> (Error, 't) outcome" where
  "embed_tokens lib m tokens =
     and_then (ok_or (Internal ''this stage has no embedding table'') (ql_embed m)) (\<lambda>w.
     and_then (map_err (internal ''embed input'') (and_then (tc_of_tokens lib tokens) (tc_unsqueeze lib 0))) (\<lambda>x.
     map_err (internal ''embed'') (tc_embed lib w x)))"

text \<open>\<open>t - 1\<close> on \<open>usize\<close> wraps at zero; candle then reports the index as out of range.\<close>

definition pred_usize :: "nat \<Rightarrow> nat" where
  "pred_usize t = (if t = 0 then USIZE_MAX else t - 1)"

definition lm_output :: "('t, 'q, 'w, 'n) candle \<Rightarrow> ('t, 'w, 'n) QLlama \<Rightarrow> 't \<Rightarrow> (Error, 't) outcome" where
  "lm_output lib m hidden =
     and_then (ok_or (Internal ''this stage has no output head'') (ql_out m)) (\<lambda>(norm, head).
     and_then (map_err (internal ''output dims'') (tc_dims3 lib hidden)) (\<lambda>(_, t, _).
     and_then (map_err (internal ''output norm'') (tc_norm lib norm hidden)) (\<lambda>x.
     and_then (map_err (internal ''last position'') (tc_last lib (pred_usize t) x)) (\<lambda>x.
     map_err (internal ''lm head'') (tc_qmatmul lib head x)))))"

section \<open>Batched decoding\<close>

text \<open>
  RoPE and attention per sequence: \<open>i\<close> is the row of the batch. \<open>entries[layer]\<close> and
  \<open>positions[i]\<close> panic out of range.
\<close>

definition attend_row :: "('t, 'q, 'w, 'n) candle \<Rightarrow> ('t, 'w, 'n) QLlama \<Rightarrow> nat \<Rightarrow> 't \<Rightarrow> 't \<Rightarrow> 't \<Rightarrow> nat \<Rightarrow> nat \<Rightarrow> 't SeqKv
    \<Rightarrow> (string, 't) outcome \<times> 't SeqKv" where
  "attend_row lib m layer q k v i pos kv =
     (case and_then (tc_rows lib i (i + 1) q) (\<lambda>qi.
            and_then (rope_apply lib m qi pos 1) (\<lambda>qi.
            and_then (tc_rows lib i (i + 1) k) (\<lambda>ki.
            and_then (rope_apply lib m ki pos 1) (\<lambda>ki.
            and_then (tc_rows lib i (i + 1) v) (\<lambda>vi.
            and_then (tc_contiguous lib vi) (\<lambda>vi. Ok (qi, ki, vi))))))) of
        Panic \<Rightarrow> (Panic, kv)
      | Err e \<Rightarrow> (Err e, kv)
      | Ok (qi, ki, vi) \<Rightarrow>
          if layer \<ge> length (kv_entries kv) then (Panic, kv)
          else
            (case grow_slot lib pos (kv_entries kv ! layer) ki vi of
               Panic \<Rightarrow> (Panic, kv\<lparr> kv_entries := (kv_entries kv)[layer := None] \<rparr>)
             | Err e \<Rightarrow> (Err e, kv\<lparr> kv_entries := (kv_entries kv)[layer := None] \<rparr>)
             | Ok (ki, vi) \<Rightarrow>
                 (attend lib m qi ki vi None, kv\<lparr> kv_entries := (kv_entries kv)[layer := Some (ki, vi)] \<rparr>)))"

fun attend_rows :: "('t, 'q, 'w, 'n) candle \<Rightarrow> ('t, 'w, 'n) QLlama \<Rightarrow> nat \<Rightarrow> 't \<Rightarrow> 't \<Rightarrow> 't \<Rightarrow> nat \<Rightarrow> nat list \<Rightarrow> 't SeqKv list
    \<Rightarrow> (string, 't list) outcome \<times> 't SeqKv list" where
  "attend_rows lib m layer q k v i positions [] = (Ok [], [])"
| "attend_rows lib m layer q k v i positions (kv # kvs) =
     (if i \<ge> length positions then (Panic, kv # kvs)
      else
        (case attend_row lib m layer q k v i (positions ! i) kv of
           (Ok y, kv') \<Rightarrow>
             (case attend_rows lib m layer q k v (i + 1) positions kvs of
                (r, kvs') \<Rightarrow> (and_then r (\<lambda>ys. Ok (y # ys)), kv' # kvs'))
         | (Err e, kv') \<Rightarrow> (Err e, kv' # kvs)
         | (Panic, kv') \<Rightarrow> (Panic, kv' # kvs)))"

definition block_forward_batch :: "('t, 'q, 'w, 'n) candle \<Rightarrow> ('t, 'w, 'n) QLlama \<Rightarrow> ('t, 'w, 'n) Block \<Rightarrow> nat \<Rightarrow> 't \<Rightarrow> nat list
    \<Rightarrow> 't SeqKv list \<Rightarrow> (string, 't) outcome \<times> 't SeqKv list" where
  "block_forward_batch lib m blk layer x positions kvs =
     (case and_then (tc_dims3 lib x) (\<lambda>(b, _, e). and_then (project lib m blk b 1 x) (\<lambda>(q, k, v). Ok (b, e, q, k, v))) of
        Panic \<Rightarrow> (Panic, kvs)
      | Err er \<Rightarrow> (Err er, kvs)
      | Ok (b, e, q, k, v) \<Rightarrow>
          (case attend_rows lib m layer q k v 0 positions kvs of
             (r, kvs') \<Rightarrow>
               (and_then r (\<lambda>ys. and_then (tc_cat lib ys 0) (merge_heads lib blk [b, 1, e] x)), kvs')))"

fun batch_blocks :: "('t, 'q, 'w, 'n) candle \<Rightarrow> ('t, 'w, 'n) QLlama \<Rightarrow> nat list \<Rightarrow> nat \<Rightarrow> ('t, 'w, 'n) Block list
    \<Rightarrow> 't \<Rightarrow> 't SeqKv list \<Rightarrow> (string, 't) outcome \<times> 't SeqKv list" where
  "batch_blocks lib m positions l [] x kvs = (Ok x, kvs)"
| "batch_blocks lib m positions l (blk # blks) x kvs =
     (case block_forward_batch lib m blk l x positions kvs of
        (Ok x', kvs') \<Rightarrow> batch_blocks lib m positions (l + 1) blks x' kvs'
      | (r, kvs') \<Rightarrow> (r, kvs'))"

definition qllama_decode_step :: "('t, 'q, 'w, 'n) candle \<Rightarrow> ('t, 'w, 'n) QLlama \<Rightarrow> 't \<Rightarrow> nat list \<Rightarrow> 't SeqKv list
    \<Rightarrow> (Error, 't) outcome \<times> 't SeqKv list" where
  "qllama_decode_step lib m hiddens positions kvs =
     (case map_err (internal ''decode dims'') (tc_dims3 lib hiddens) of
        Panic \<Rightarrow> (Panic, kvs)
      | Err e \<Rightarrow> (Err e, kvs)
      | Ok (b, t, _) \<Rightarrow>
          if t \<noteq> 1 \<or> b \<noteq> length positions \<or> b \<noteq> length kvs
          then (Err (Internal (''decode_step batch mismatch: b='' @ show_nat b @ '' t='' @ show_nat t @ '' positions=''
                  @ show_nat (length positions) @ '' kvs='' @ show_nat (length kvs))), kvs)
          else
            (case batch_blocks lib m positions 0 (ql_blocks m) hiddens kvs of
               (Ok x, kvs') \<Rightarrow> (Ok x, map (\<lambda>kv. kv\<lparr> kv_tokens := kv_tokens kv + 1 \<rparr>) kvs')
             | (r, kvs') \<Rightarrow> (map_err (internal ''batched layer forward'') r, kvs')))"

section \<open>Loading\<close>

definition theta :: "('t, 'q, 'w, 'n) candle \<Rightarrow> nat \<Rightarrow> f32 \<Rightarrow> f32 list" where
  "theta lib rope_dim freq_base =
     map (\<lambda>i. fdiv 1 (tc_powf lib freq_base (fdiv (nat_as_f32 i) (nat_as_f32 rope_dim))))
       (filter even [0..<rope_dim])"

definition precompute_freqs :: "('t, 'q, 'w, 'n) candle \<Rightarrow> nat \<Rightarrow> f32 \<Rightarrow> nat \<Rightarrow> (Error, 't \<times> 't) outcome" where
  "precompute_freqs lib rope_dim freq_base context_length =
     (let ce = internal ''rope tables''; th = theta lib rope_dim freq_base in
      and_then (map_err ce (tc_of_f32s lib th)) (\<lambda>th'.
      and_then (map_err ce (and_then (tc_arange lib 0 context_length) (\<lambda>a.
        and_then (tc_to_f32 lib a) (\<lambda>a.
        and_then (tc_reshape lib [context_length, 1] a) (\<lambda>a.
        and_then (tc_reshape lib [1, length th] th') (tc_matmul lib a)))))) (\<lambda>idx.
      and_then (map_err ce (tc_cos lib idx)) (\<lambda>cs.
      and_then (map_err ce (tc_sin lib idx)) (\<lambda>sn. Ok (cs, sn))))))"

definition load_tensor :: "'q Gguf \<Rightarrow> string \<Rightarrow> (Error, 'q) outcome" where
  "load_tensor g name = map_err (internal ''weight load'') (gg_tensor g name)"

definition load_matmul :: "('t, 'q, 'w, 'n) candle \<Rightarrow> 'q Gguf \<Rightarrow> string \<Rightarrow> (Error, 'w) outcome" where
  "load_matmul lib g name = and_then (load_tensor g name) (\<lambda>q. map_err (internal ''weight load'') (tc_qmatmul_from lib q))"

definition load_norm :: "('t, 'q, 'w, 'n) candle \<Rightarrow> 'q Gguf \<Rightarrow> rat \<Rightarrow> string \<Rightarrow> (Error, 'n) outcome" where
  "load_norm lib g eps name = and_then (load_tensor g name) (\<lambda>q. map_err (internal ''weight load'') (tc_norm_from lib q eps))"

definition load_proj :: "('t, 'q, 'w, 'n) candle \<Rightarrow> 'q Gguf \<Rightarrow> QLlamaConfig \<Rightarrow> string \<Rightarrow> string \<Rightarrow> (Error, ('t, 'w) QkvProj) outcome" where
  "load_proj lib g cfg p name =
     and_then (load_matmul lib g (p @ ''.'' @ name @ ''.weight'')) (\<lambda>w.
     and_then
       (if qc_qkv_bias cfg \<and> name \<noteq> ''attn_output''
        then and_then (load_tensor g (p @ ''.'' @ name @ ''.bias'')) (\<lambda>q.
             and_then (map_err (internal ''weight load'') (tc_dequantize lib q)) (\<lambda>b. Ok (Some b)))
        else Ok None)
       (\<lambda>bias. Ok \<lparr> qp_weight = w, qp_bias = bias \<rparr>))"

definition load_block :: "('t, 'q, 'w, 'n) candle \<Rightarrow> 'q Gguf \<Rightarrow> QLlamaConfig \<Rightarrow> nat \<Rightarrow> (Error, ('t, 'w, 'n) Block) outcome" where
  "load_block lib g cfg idx =
     (let p = ''blk.'' @ show_nat idx in
      and_then (load_proj lib g cfg p ''attn_q'') (\<lambda>wq.
      and_then (load_proj lib g cfg p ''attn_k'') (\<lambda>wk.
      and_then (load_proj lib g cfg p ''attn_v'') (\<lambda>wv.
      and_then (load_matmul lib g (p @ ''.attn_output.weight'')) (\<lambda>wo.
      and_then (load_norm lib g (qc_rms_eps cfg) (p @ ''.attn_norm.weight'')) (\<lambda>attn_norm.
      and_then (load_norm lib g (qc_rms_eps cfg) (p @ ''.ffn_norm.weight'')) (\<lambda>ffn_norm.
      and_then (load_matmul lib g (p @ ''.ffn_gate.weight'')) (\<lambda>w_gate.
      and_then (load_matmul lib g (p @ ''.ffn_down.weight'')) (\<lambda>w_down.
      and_then (load_matmul lib g (p @ ''.ffn_up.weight'')) (\<lambda>w_up.
      Ok \<lparr> bl_attn_norm = attn_norm, bl_wq = wq, bl_wk = wk, bl_wv = wv, bl_wo = wo, bl_ffn_norm = ffn_norm,
           bl_w_gate = w_gate, bl_w_down = w_down, bl_w_up = w_up \<rparr>))))))))))"

fun load_blocks :: "('t, 'q, 'w, 'n) candle \<Rightarrow> 'q Gguf \<Rightarrow> QLlamaConfig \<Rightarrow> nat list \<Rightarrow> (Error, ('t, 'w, 'n) Block list) outcome" where
  "load_blocks lib g cfg [] = Ok []"
| "load_blocks lib g cfg (i # is) =
     and_then (load_block lib g cfg i) (\<lambda>b. and_then (load_blocks lib g cfg is) (\<lambda>bs. Ok (b # bs)))"

text \<open>The LM head falls back to the token embedding when the file has no \<open>output.weight\<close>.\<close>

definition load_head :: "('t, 'q, 'w, 'n) candle \<Rightarrow> 'q Gguf \<Rightarrow> rat \<Rightarrow> (Error, 'n \<times> 'w) outcome" where
  "load_head lib g eps =
     and_then (load_norm lib g eps ''output_norm.weight'') (\<lambda>norm.
     and_then
       (case gg_tensor g ''output.weight'' of
          Ok t \<Rightarrow> Ok t | Err _ \<Rightarrow> load_tensor g ''token_embd.weight'' | Panic \<Rightarrow> Panic) (\<lambda>head_q.
     and_then (map_err (internal ''weight load'') (tc_qmatmul_from lib head_q)) (\<lambda>w. Ok (norm, w))))"

definition qllama_load :: "('t, 'q, 'w, 'n) candle \<Rightarrow> 'q Gguf \<Rightarrow> LayerRange \<Rightarrow> ModelParts \<Rightarrow> (Error, ('t, 'w, 'n) QLlama) outcome" where
  "qllama_load lib g rng parts =
     and_then (from_gguf g) (\<lambda>cfg.
     if lr_end rng > qc_n_layers cfg
     then Err (InvalidArgument (''layer range '' @ show_range rng @ '' exceeds model layer count '' @ show_nat (qc_n_layers cfg)))
     else
       and_then (precompute_freqs lib (qc_rope_dim cfg) (qc_rope_freq_base cfg) (qc_context_length cfg)) (\<lambda>(cs, sn).
       and_then (map_err (internal ''weight load'') (tc_neg_inf lib)) (\<lambda>neg_inf.
       and_then
         (if mp_embedding parts
          then and_then (load_tensor g ''token_embd.weight'') (\<lambda>q.
               and_then (map_err (internal ''weight load'') (tc_dequantize lib q)) (\<lambda>w. Ok (Some w)))
          else Ok None) (\<lambda>embed.
       and_then
         (if mp_output parts then and_then (load_head lib g (qc_rms_eps cfg)) (\<lambda>h. Ok (Some h)) else Ok None) (\<lambda>out.
       and_then (load_blocks lib g cfg [lr_start rng..<lr_end rng]) (\<lambda>blocks.
       Ok \<lparr> ql_cfg = cfg, ql_range = rng, ql_embed = embed, ql_blocks = blocks, ql_out = out,
            ql_cos = cs, ql_sin = sn, ql_neg_inf = neg_inf \<rparr>))))))"

end
