(* ===== verification/Cgn_Llama_Props.thy ===== *)
theory Cgn_Llama_Props
  imports Cgn_Llama
begin

text \<open>
  Properties of the forward pass: layer ranges (text form, splitting, coverage), composition of
  layer slices, loading by slices, and the row-by-row meaning of the batched decode step.
\<close>

section \<open>Layer ranges\<close>

lemma dec_char_plain: "d < 10 \<Longrightarrow> \<not> is_space (dec_char d) \<and> dec_char d \<noteq> CHR '':''"
proof -
  assume "d < 10"
  then have "d \<in> {0, 1, 2, 3, 4, 5, 6, 7, 8, 9}" by auto
  then show ?thesis by (auto simp: dec_char_def is_space_def HEX_def)
qed

lemma set_show_nat:
  "set (show_nat n) = (if n < 10 then {dec_char n} else insert (dec_char (n mod 10)) (set (show_nat (n div 10))))"
  by (subst show_nat.simps) simp

lemma show_nat_plain: "c \<in> set (show_nat n) \<Longrightarrow> \<not> is_space c \<and> c \<noteq> CHR '':''"
proof (induction n rule: less_induct)
  case (less n)
  have "c \<in> (if n < 10 then {dec_char n} else insert (dec_char (n mod 10)) (set (show_nat (n div 10))))"
    using less.prems set_show_nat [of n] by blast
  then consider "n < 10" "c = dec_char n" | "\<not> n < 10" "c = dec_char (n mod 10)" | "\<not> n < 10" "c \<in> set (show_nat (n div 10))"
    by (metis insertE singletonD)
  then show ?case
  proof cases
    case 1
    show ?thesis unfolding 1(2) by (rule dec_char_plain [OF 1(1)])
  next
    case 2
    show ?thesis unfolding 2(2) by (rule dec_char_plain) simp
  next
    case 3
    then have "n div 10 < n" by simp
    then show ?thesis by (rule less.IH) (rule 3(2))
  qed
qed

lemma dropWhile_none: "\<forall>x \<in> set xs. \<not> P x \<Longrightarrow> dropWhile P xs = xs"
  by (cases xs) simp_all

lemma trim_plain: "\<forall>c \<in> set s. \<not> is_space c \<Longrightarrow> trim s = s"
  by (simp add: trim_def trim_start_def dropWhile_none)

text \<open>A printed range parses back to itself.\<close>

lemma layer_range_round_trip:
  assumes "lr_start r < lr_end r" and "lr_end r \<le> USIZE_MAX"
  shows "layer_range_parse (show_range r) = Inr r"
proof -
  have "CHR '':'' \<notin> set (show_nat (lr_start r))" using show_nat_plain by blast
  then have "split_once (CHR '':'') (show_range r) = Some (show_nat (lr_start r), show_nat (lr_end r))"
    by (simp add: show_range_def)
  moreover have "trim (show_nat n) = show_nat n" for n using show_nat_plain trim_plain by blast
  ultimately show ?thesis using assms
    by (simp add: layer_range_parse_def parse_dec_show_nat layer_range_new_def)
qed

definition layers_of :: "LayerRange list \<Rightarrow> nat list" where
  "layers_of rs = concat (map (\<lambda>r. [lr_start r..<lr_end r]) rs)"

lemma layers_of_simps [simp]:
  "layers_of [] = []" "layers_of (r # rs) = [lr_start r..<lr_end r] @ layers_of rs"
  by (simp_all add: layers_of_def)

lemma coverage_loop_tiles:
  "coverage_loop a rs = Inr b \<Longrightarrow> \<forall>r \<in> set rs. lr_start r \<le> lr_end r \<Longrightarrow> a \<le> b \<and> layers_of rs = [a..<b]"
proof (induction rs arbitrary: a)
  case (Cons r rs)
  then have "lr_end r \<le> b \<and> layers_of rs = [lr_end r..<b]" "lr_start r = a" "a \<le> lr_end r"
    by (auto split: if_splits)
  moreover from this have "[a..<lr_end r] @ [lr_end r..<b] = [a..<b]"
    using upt_add_eq_append [of a "lr_end r" "b - lr_end r"] by (simp only: le_add_diff_inverse)
  ultimately show ?case by simp
qed simp

text \<open>Ranges that pass the check enumerate every layer exactly once and in order.\<close>

lemma validate_coverage_tiles:
  "validate_coverage n rs = Inr () \<Longrightarrow> \<forall>r \<in> set rs. lr_start r \<le> lr_end r \<Longrightarrow> layers_of rs = [0..<n]"
  by (auto simp: validate_coverage_def dest: coverage_loop_tiles split: sum.splits if_splits)

lemma split_loop_covers:
  "coverage_loop s (split_loop base rem p s is) = Inr (s + length is * base + length (filter (\<lambda>i. i < rem) is))"
  by (induction "is" arbitrary: s) (auto simp: Let_def)

lemma split_loop_lengths:
  "r \<in> set (split_loop base rem p s is) \<Longrightarrow> lr_end r - lr_start r \<in> {base, base + 1} \<and> lr_start r \<le> lr_end r"
  by (induction "is" arbitrary: s) (auto simp: Let_def)

lemma length_split_loop [simp]: "length (split_loop base rem p s is) = length is"
  by (induction "is" arbitrary: s) (auto simp: Let_def)

text \<open>
  Splitting the layers of a model gives the requested number of non-empty ranges that pass the
  coverage check and differ by at most one layer.
\<close>

lemma split_layers_valid:
  assumes "split_layers n p = Inr rs"
  shows "length rs = p \<and> validate_coverage n rs = Inr () \<and>
    (\<forall>r \<in> set rs. lr_start r < lr_end r \<and> lr_end r - lr_start r \<in> {n div p, n div p + 1})"
proof -
  from assms have p: "0 < p" "p \<le> n" and rs: "rs = split_loop (n div p) (n mod p) p 0 [0..<p]"
    by (auto simp: split_layers_def split: if_splits)
  have "filter (\<lambda>i. i < n mod p) [0..<p] = [0..<n mod p]"
  proof -
    have "[0..<p] = [0..<n mod p] @ [n mod p..<p]"
      using upt_add_eq_append [of 0 "n mod p" "p - n mod p"] p by (simp only: le_add_diff_inverse mod_less_divisor less_imp_le le0)
    then show ?thesis by (simp only: filter_append) (simp add: filter_id_conv)
  qed
  moreover have "p * (n div p) + n mod p = n" by simp
  ultimately have "coverage_loop 0 rs = Inr n"
    using split_loop_covers [of 0 "n div p" "n mod p" p "[0..<p]"] by (simp add: rs)
  moreover have "0 < n div p" using p by (simp add: div_greater_zero_iff)
  moreover have "lr_end r - lr_start r \<in> {n div p, n div p + 1} \<and> lr_start r \<le> lr_end r" if "r \<in> set rs" for r
    using split_loop_lengths that unfolding rs by blast
  ultimately show ?thesis
    by (force simp: validate_coverage_def rs)
qed

section \<open>Slices of layers\<close>

text \<open>What the layer loop reads of a loaded model.\<close>

definition same_stage :: "('t, 'w, 'n) QLlama \<Rightarrow> ('t, 'w, 'n) QLlama \<Rightarrow> bool" where
  "same_stage m m' \<longleftrightarrow> ql_cfg m = ql_cfg m' \<and> ql_cos m = ql_cos m' \<and> ql_sin m = ql_sin m' \<and> ql_neg_inf m = ql_neg_inf m'"

lemma block_forward_cong:
  assumes "same_stage m m'"
  shows "block_forward_single lib m = block_forward_single lib m'"
proof -
  have "project lib m = project lib m'" "rope_apply lib m = rope_apply lib m'" "attend lib m = attend lib m'"
    using assms by (intro ext, simp add: same_stage_def project_def rope_apply_def attend_def cong: option.case_cong)+
  then show ?thesis by (intro ext) (simp only: block_forward_single_def)
qed

lemma forward_blocks_cong:
  assumes "same_stage m m'"
  shows "forward_blocks lib m p t mk bs ss x = forward_blocks lib m' p t mk bs ss x"
proof (induction bs arbitrary: ss x)
  case (Cons b bs)
  then have "forward_blocks lib m p t mk bs = forward_blocks lib m' p t mk bs" by (intro ext)
  then show ?case
    by (cases ss) (simp_all add: block_forward_cong [OF assms] split: prod.split outcome.split)
qed simp

lemma forward_blocks_append:
  "length bs = length ss \<Longrightarrow> forward_blocks lib m p t mk (bs @ bs') (ss @ ss') x =
    (case forward_blocks lib m p t mk bs ss x of
       (Ok y, us) \<Rightarrow> (case forward_blocks lib m p t mk bs' ss' y of (r, us') \<Rightarrow> (r, us @ us'))
     | (r, us) \<Rightarrow> (r, us @ ss'))"
proof (induction bs ss arbitrary: x rule: list_induct2)
  case Nil
  then show ?case by (cases bs'; cases ss') (auto split: prod.splits outcome.splits)
next
  case (Cons b bs s ss)
  then show ?case by (auto split: prod.splits outcome.splits)
qed

lemma length_forward_blocks: "length (snd (forward_blocks lib m p t mk bs ss x)) = length ss"
  by (induction lib m p t mk bs ss x rule: forward_blocks.induct) (auto split: prod.splits outcome.splits)

lemma forward_blocks_length: "forward_blocks lib m p t mk bs ss x = (r, ss') \<Longrightarrow> length ss' = length ss"
  using length_forward_blocks [of lib m p t mk bs ss x] by simp

lemma load_blocks_append:
  "load_blocks lib g cfg (is @ js) =
    and_then (load_blocks lib g cfg is) (\<lambda>bs. and_then (load_blocks lib g cfg js) (\<lambda>bs'. Ok (bs @ bs')))"
proof (induction "is")
  case Nil
  show ?case by (cases "load_blocks lib g cfg js") auto
next
  case (Cons i "is")
  show ?case
    by (cases "load_block lib g cfg i"; cases "load_blocks lib g cfg is"; cases "load_blocks lib g cfg js")
      (auto simp: Cons)
qed

lemma load_blocks_length: "load_blocks lib g cfg is = Ok bs \<Longrightarrow> length bs = length is"
  by (induction "is" arbitrary: bs) (auto simp: and_then_Ok)

lemma qllama_load_Ok:
  assumes "qllama_load lib g rng parts = Ok m"
  shows "from_gguf g = Ok (ql_cfg m) \<and> lr_end rng \<le> qc_n_layers (ql_cfg m) \<and> ql_range m = rng \<and>
    load_blocks lib g (ql_cfg m) [lr_start rng..<lr_end rng] = Ok (ql_blocks m) \<and>
    precompute_freqs lib (qc_rope_dim (ql_cfg m)) (qc_rope_freq_base (ql_cfg m)) (qc_context_length (ql_cfg m))
      = Ok (ql_cos m, ql_sin m) \<and> tc_neg_inf lib = Ok (ql_neg_inf m)"
  using assms unfolding qllama_load_def by (auto simp: and_then_Ok split: if_splits)

lemma qllama_load_same_stage:
  "qllama_load lib g r ps = Ok m \<Longrightarrow> qllama_load lib g r' ps' = Ok m' \<Longrightarrow> same_stage m m'"
  using qllama_load_Ok [of lib g r ps m] qllama_load_Ok [of lib g r' ps' m'] by (auto simp: same_stage_def)

section \<open>Rows of a batch\<close>

text \<open>
  What the batched step relies on of the tensor library: \<open>bs\<close> is the size of the leading
  dimension of a tensor with at least two dimensions and 0 for scalars and vectors, and the
  projections, normalisations and pointwise operations act on each row of the batch alone.
  Tensors are identified with their shape and elements; that the kernels compute a row to the same
  elements whatever the size of the batch is exact for the per-row CPU kernels and an idealisation on
  back ends whose reduction order depends on the batch. \<open>broadcast_add\<close> extends both operands, so it
  acts by rows only when the right operand has no batch dimension of its own: the law is stated for
  vectors, and \<open>vector_biases\<close> says that the biases of a model are vectors.
\<close>

definition row :: "('t, 'q, 'w, 'n) candle \<Rightarrow> nat \<Rightarrow> 't \<Rightarrow> 't \<Rightarrow> bool" where
  "row lib i x xi \<longleftrightarrow> tc_rows lib i (i + 1) x = Ok xi"

definition rowwise :: "('t, 'q, 'w, 'n) candle \<Rightarrow> ('t \<Rightarrow> nat) \<Rightarrow> ('t \<Rightarrow> (string, 't) outcome) \<Rightarrow> bool" where
  "rowwise lib bs f \<longleftrightarrow>
     (\<forall>x y. f x = Ok y \<longrightarrow> bs y = bs x \<and> (\<forall>i < bs x. \<forall>xi. row lib i x xi \<longrightarrow> (\<exists>yi. f xi = Ok yi \<and> row lib i y yi)))"

definition rowwise2 :: "('t, 'q, 'w, 'n) candle \<Rightarrow> ('t \<Rightarrow> nat) \<Rightarrow> ('t \<Rightarrow> 't \<Rightarrow> (string, 't) outcome) \<Rightarrow> bool" where
  "rowwise2 lib bs f \<longleftrightarrow>
     (\<forall>x x' y. f x x' = Ok y \<longrightarrow> bs x' = bs x \<and> bs y = bs x \<and>
       (\<forall>i < bs x. \<forall>xi xi'. row lib i x xi \<longrightarrow> row lib i x' xi' \<longrightarrow> (\<exists>yi. f xi xi' = Ok yi \<and> row lib i y yi)))"

definition keeps_batch :: "('t \<Rightarrow> nat) \<Rightarrow> ('t \<Rightarrow> (string, 't) outcome) \<Rightarrow> bool" where
  "keeps_batch bs f \<longleftrightarrow> (\<forall>x y. f x = Ok y \<longrightarrow> bs y = bs x)"

definition rows_exist :: "('t, 'q, 'w, 'n) candle \<Rightarrow> ('t \<Rightarrow> nat) \<Rightarrow> bool" where
  "rows_exist lib bs \<longleftrightarrow>
     (\<forall>x i. i < bs x \<longrightarrow> (\<exists>xi. row lib i x xi \<and> bs xi = 1)) \<and>
     (\<forall>x b t e. tc_dims3 lib x = Ok (b, t, e) \<longrightarrow> bs x = b \<and> (\<forall>i < b. \<forall>xi. row lib i x xi \<longrightarrow> tc_dims3 lib xi = Ok (1, t, e)))"

definition row_shapes :: "('t, 'q, 'w, 'n) candle \<Rightarrow> ('t \<Rightarrow> nat) \<Rightarrow> bool" where
  "row_shapes lib bs \<longleftrightarrow>
     (\<forall>b ds x y. tc_reshape lib (b # ds) x = Ok y \<longrightarrow> ds \<noteq> [] \<longrightarrow> bs x = b \<longrightarrow> bs y = b \<and>
        (\<forall>i < b. \<forall>xi. row lib i x xi \<longrightarrow> (\<exists>yi. tc_reshape lib (1 # ds) xi = Ok yi \<and> row lib i y yi))) \<and>
     (\<forall>ys y. tc_cat lib ys 0 = Ok y \<longrightarrow> (\<forall>z \<in> set ys. bs z = 1) \<longrightarrow> bs y = length ys \<and> (\<forall>i < length ys. row lib i y (ys ! i))) \<and>
     (\<forall>x y. tc_contiguous lib x = Ok y \<longrightarrow> tc_contiguous lib y = Ok y)"

definition batchwise :: "('t, 'q, 'w, 'n) candle \<Rightarrow> ('t \<Rightarrow> nat) \<Rightarrow> bool" where
  "batchwise lib bs \<longleftrightarrow>
     rows_exist lib bs \<and> row_shapes lib bs \<and>
     (\<forall>n. rowwise lib bs (tc_norm lib n)) \<and> (\<forall>w. rowwise lib bs (tc_qmatmul lib w)) \<and>
     (\<forall>b. tc_rank lib b = 1 \<longrightarrow> rowwise lib bs (\<lambda>x. tc_broadcast_add lib x b)) \<and> rowwise lib bs (tc_silu lib) \<and>
     rowwise lib bs (tc_transpose lib 1 2) \<and> rowwise lib bs (tc_contiguous lib) \<and>
     rowwise2 lib bs (tc_add lib) \<and> rowwise2 lib bs (tc_mul lib) \<and>
     (\<forall>c s. keeps_batch bs (\<lambda>x. tc_rope_i lib x c s)) \<and> (\<forall>c s. keeps_batch bs (\<lambda>x. tc_rope lib x c s)) \<and>
     (\<forall>y. keeps_batch bs (\<lambda>x. tc_matmul lib x y)) \<and> (\<forall>n. keeps_batch bs (tc_scale lib n)) \<and> keeps_batch bs (tc_softmax lib)"

definition vector_bias :: "('t, 'q, 'w, 'n) candle \<Rightarrow> ('t, 'w) QkvProj \<Rightarrow> bool" where
  "vector_bias lib p \<longleftrightarrow> (case qp_bias p of None \<Rightarrow> True | Some b \<Rightarrow> tc_rank lib b = 1)"

definition vector_biases :: "('t, 'q, 'w, 'n) candle \<Rightarrow> ('t, 'w, 'n) Block \<Rightarrow> bool" where
  "vector_biases lib blk \<longleftrightarrow>
     vector_bias lib (bl_wq blk) \<and> vector_bias lib (bl_wk blk) \<and> vector_bias lib (bl_wv blk)"

lemma rowwiseI:
  assumes "\<And>x y. f x = Ok y \<Longrightarrow> bs y = bs x"
    and "\<And>x y i xi. f x = Ok y \<Longrightarrow> i < bs x \<Longrightarrow> row lib i x xi \<Longrightarrow> \<exists>yi. f xi = Ok yi \<and> row lib i y yi"
  shows "rowwise lib bs f"
  using assms unfolding rowwise_def by blast

lemma rowwise_row:
  "rowwise lib bs f \<Longrightarrow> f x = Ok y \<Longrightarrow> i < bs x \<Longrightarrow> row lib i x xi \<Longrightarrow> \<exists>yi. f xi = Ok yi \<and> row lib i y yi"
  unfolding rowwise_def by blast

lemma rowwise_batch: "rowwise lib bs f \<Longrightarrow> f x = Ok y \<Longrightarrow> bs y = bs x"
  unfolding rowwise_def by blast

lemma rowwise2_row:
  "rowwise2 lib bs f \<Longrightarrow> f x x' = Ok y \<Longrightarrow> i < bs x \<Longrightarrow> row lib i x xi \<Longrightarrow> row lib i x' xi' \<Longrightarrow>
    \<exists>yi. f xi xi' = Ok yi \<and> row lib i y yi"
  unfolding rowwise2_def by blast

lemma rowwise2_batch: "rowwise2 lib bs f \<Longrightarrow> f x x' = Ok y \<Longrightarrow> bs x' = bs x \<and> bs y = bs x"
  unfolding rowwise2_def by blast

lemma rowwise_bind:
  assumes f: "rowwise lib bs f" and g: "rowwise lib bs g"
  shows "rowwise lib bs (\<lambda>x. and_then (f x) g)"
proof (rule rowwiseI)
  fix x y assume "and_then (f x) g = Ok y"
  then obtain z where z: "f x = Ok z" "g z = Ok y" by (auto simp: and_then_Ok)
  then show "bs y = bs x" using rowwise_batch [OF f z(1)] rowwise_batch [OF g z(2)] by simp
  fix i xi assume i: "i < bs x" "row lib i x xi"
  obtain zi where zi: "f xi = Ok zi" "row lib i z zi" using rowwise_row [OF f z(1) i] by blast
  obtain yi where "g zi = Ok yi" "row lib i y yi"
    using rowwise_row [OF g z(2) _ zi(2)] i rowwise_batch [OF f z(1)] by auto
  with zi show "\<exists>yi. and_then (f xi) g = Ok yi \<and> row lib i y yi" by simp
qed

lemma rowwise_fork:
  assumes f: "rowwise lib bs f" and g: "rowwise lib bs g" and h: "rowwise2 lib bs h"
  shows "rowwise lib bs (\<lambda>x. and_then (f x) (\<lambda>a. and_then (g x) (\<lambda>b. h a b)))"
proof (rule rowwiseI)
  fix x y assume "and_then (f x) (\<lambda>a. and_then (g x) (\<lambda>b. h a b)) = Ok y"
  then obtain a b where ab: "f x = Ok a" "g x = Ok b" "h a b = Ok y" by (auto simp: and_then_Ok)
  have bs: "bs a = bs x" "bs b = bs x" "bs y = bs a"
    using rowwise_batch [OF f ab(1)] rowwise_batch [OF g ab(2)] rowwise2_batch [OF h ab(3)] by simp_all
  then show "bs y = bs x" by simp
  fix i xi assume i: "i < bs x" "row lib i x xi"
  obtain ai where ai: "f xi = Ok ai" "row lib i a ai" using rowwise_row [OF f ab(1) i] by blast
  obtain bi where bi: "g xi = Ok bi" "row lib i b bi" using rowwise_row [OF g ab(2) i] by blast
  obtain yi where "h ai bi = Ok yi" "row lib i y yi"
    using rowwise2_row [OF h ab(3) _ ai(2) bi(2)] i bs by auto
  with ai bi show "\<exists>yi. and_then (f xi) (\<lambda>a. and_then (g xi) (\<lambda>b. h a b)) = Ok yi \<and> row lib i y yi" by simp
qed

lemma rowwise_Ok: "rowwise lib bs Ok"
  by (simp add: rowwise_def)

lemma rowwise_qkv: "batchwise lib bs \<Longrightarrow> vector_bias lib p \<Longrightarrow> rowwise lib bs (qkv_forward lib p)"
  unfolding qkv_forward_def [abs_def]
  by (cases "qp_bias p") (auto simp: batchwise_def vector_bias_def intro!: rowwise_bind intro: rowwise_Ok)

lemma rowwise_cong:
  assumes g: "rowwise lib bs g" and eq: "\<And>x y. f x = Ok y \<longleftrightarrow> g x = Ok y"
  shows "rowwise lib bs f"
  using g unfolding rowwise_def eq .

lemma rowwise_mlp:
  assumes "batchwise lib bs"
  shows "rowwise lib bs (mlp lib b)"
proof (rule rowwise_cong)
  have gate: "rowwise lib bs (\<lambda>x. and_then (tc_qmatmul lib (bl_w_gate b) x) (tc_silu lib))"
    using assms by (intro rowwise_bind) (simp_all add: batchwise_def)
  have "rowwise lib bs (\<lambda>x. and_then (and_then (tc_qmatmul lib (bl_w_gate b) x) (tc_silu lib))
      (\<lambda>s. and_then (tc_qmatmul lib (bl_w_up b) x) (\<lambda>up. tc_mul lib s up)))"
    using assms by (intro rowwise_fork gate) (simp_all add: batchwise_def)
  then show "rowwise lib bs (\<lambda>x. and_then (and_then (and_then (tc_qmatmul lib (bl_w_gate b) x) (tc_silu lib))
      (\<lambda>s. and_then (tc_qmatmul lib (bl_w_up b) x) (\<lambda>up. tc_mul lib s up))) (tc_qmatmul lib (bl_w_down b)))"
    using assms by (intro rowwise_bind) (simp_all add: batchwise_def)
qed (auto simp: mlp_def and_then_Ok)

lemma reshape_row:
  assumes "batchwise lib bs" and "tc_reshape lib (b # ds) x = Ok y" and "ds \<noteq> []" and "bs x = b"
  shows "bs y = b \<and> (i < b \<longrightarrow> row lib i x xi \<longrightarrow> (\<exists>yi. tc_reshape lib (1 # ds) xi = Ok yi \<and> row lib i y yi))"
  using assms by (auto simp: batchwise_def row_shapes_def)

lemma heads_row:
  assumes bw: "batchwise lib bs" and ok: "heads lib (b # ds) x = Ok y" and ds: "ds \<noteq> []" and b: "bs x = b"
    and i: "i < b" "row lib i x xi"
  shows "\<exists>yi. heads lib (1 # ds) xi = Ok yi \<and> row lib i y yi"
proof -
  from ok obtain z where z: "tc_reshape lib (b # ds) x = Ok z" "tc_transpose lib 1 2 z = Ok y"
    by (auto simp: heads_def and_then_Ok)
  obtain zi where zi: "tc_reshape lib (1 # ds) xi = Ok zi" "row lib i z zi" and bz: "bs z = b"
    using reshape_row [OF bw z(1) ds b] i by blast
  have "rowwise lib bs (tc_transpose lib 1 2)" using bw by (simp add: batchwise_def)
  from rowwise_row [OF this z(2) _ zi(2)] i bz zi show ?thesis by (auto simp: heads_def)
qed

lemma heads_batch:
  assumes bw: "batchwise lib bs" and ok: "heads lib (b # ds) x = Ok y" and ds: "ds \<noteq> []" and b: "bs x = b"
  shows "bs y = b"
proof -
  from ok obtain z where z: "tc_reshape lib (b # ds) x = Ok z" "tc_transpose lib 1 2 z = Ok y"
    by (auto simp: heads_def and_then_Ok)
  have "rowwise lib bs (tc_transpose lib 1 2)" using bw by (simp add: batchwise_def)
  from rowwise_batch [OF this z(2)] reshape_row [OF bw z(1) ds b] show ?thesis by simp
qed

text \<open>The projections of a row are the row of the projections.\<close>

lemma project_row:
  assumes bw: "batchwise lib bs" and vb: "vector_biases lib blk" and ok: "project lib m blk b t x = Ok (q, k, v)" and b: "bs x = b"
    and i: "i < b" "row lib i x xi"
  shows "\<exists>qi ki vi. project lib m blk 1 t xi = Ok (qi, ki, vi) \<and> row lib i q qi \<and> row lib i k ki \<and> row lib i v vi \<and>
    tc_contiguous lib vi = Ok vi \<and> bs q = b"
proof -
  let ?hs = "[t, qc_n_head (ql_cfg m), qc_head_dim (ql_cfg m)]"
  let ?ks = "[t, qc_n_kv_head (ql_cfg m), qc_head_dim (ql_cfg m)]"
  from ok obtain xn q0 k0 v0 v1 where xn: "tc_norm lib (bl_attn_norm blk) x = Ok xn"
    and q0: "qkv_forward lib (bl_wq blk) xn = Ok q0" and k0: "qkv_forward lib (bl_wk blk) xn = Ok k0"
    and v0: "qkv_forward lib (bl_wv blk) xn = Ok v0" and q: "heads lib (b # ?hs) q0 = Ok q"
    and k: "heads lib (b # ?ks) k0 = Ok k" and v1: "heads lib (b # ?ks) v0 = Ok v1" and v: "tc_contiguous lib v1 = Ok v"
    by (auto simp: project_def and_then_Ok)
  have pq: "rowwise lib bs (qkv_forward lib (bl_wq blk))" and pk: "rowwise lib bs (qkv_forward lib (bl_wk blk))"
    and pv: "rowwise lib bs (qkv_forward lib (bl_wv blk))"
    using vb by (auto simp: vector_biases_def intro: rowwise_qkv [OF bw])
  have norm: "rowwise lib bs (tc_norm lib (bl_attn_norm blk))" and contig: "rowwise lib bs (tc_contiguous lib)"
    using bw by (simp_all add: batchwise_def)
  have bxn: "bs xn = b" using rowwise_batch [OF norm xn] b by simp
  note b0 = rowwise_batch [OF pq q0, unfolded bxn] rowwise_batch [OF pk k0, unfolded bxn]
    rowwise_batch [OF pv v0, unfolded bxn]
  obtain xni where xni: "tc_norm lib (bl_attn_norm blk) xi = Ok xni" "row lib i xn xni"
    using rowwise_row [OF norm xn] i b by blast
  obtain q0i where q0i: "qkv_forward lib (bl_wq blk) xni = Ok q0i" "row lib i q0 q0i"
    using rowwise_row [OF pq q0 _ xni(2)] i bxn by blast
  obtain k0i where k0i: "qkv_forward lib (bl_wk blk) xni = Ok k0i" "row lib i k0 k0i"
    using rowwise_row [OF pk k0 _ xni(2)] i bxn by blast
  obtain v0i where v0i: "qkv_forward lib (bl_wv blk) xni = Ok v0i" "row lib i v0 v0i"
    using rowwise_row [OF pv v0 _ xni(2)] i bxn by blast
  obtain qi where qi: "heads lib (1 # ?hs) q0i = Ok qi" "row lib i q qi"
    using heads_row [OF bw q list.distinct(2) b0(1) i(1) q0i(2)] by blast
  obtain ki where ki: "heads lib (1 # ?ks) k0i = Ok ki" "row lib i k ki"
    using heads_row [OF bw k list.distinct(2) b0(2) i(1) k0i(2)] by blast
  obtain v1i where v1i: "heads lib (1 # ?ks) v0i = Ok v1i" "row lib i v1 v1i"
    using heads_row [OF bw v1 list.distinct(2) b0(3) i(1) v0i(2)] by blast
  obtain vi where vi: "tc_contiguous lib v1i = Ok vi" "row lib i v vi"
    using rowwise_row [OF contig v _ v1i(2)] i heads_batch [OF bw v1 list.distinct(2) b0(3)] by blast
  have "tc_contiguous lib vi = Ok vi"
    using bw vi by (auto simp: batchwise_def row_shapes_def)
  then show ?thesis
    using xni q0i k0i v0i qi ki v1i vi heads_batch [OF bw q list.distinct(2) b0(1)] by (simp add: project_def)
qed

lemma merge_heads_row:
  assumes bw: "batchwise lib bs" and ok: "merge_heads lib blk (b # ds) x y = Ok z" and ds: "ds \<noteq> []" and b: "bs y = b"
    and i: "i < b" "row lib i x xi" "row lib i y yi"
  shows "\<exists>zi. merge_heads lib blk (1 # ds) xi yi = Ok zi \<and> row lib i z zi"
proof -
  from ok obtain y1 y2 y3 x1 xn y4 where y1: "tc_transpose lib 1 2 y = Ok y1" and y2: "tc_reshape lib (b # ds) y1 = Ok y2"
    and y3: "tc_qmatmul lib (bl_wo blk) y2 = Ok y3" and x1: "tc_add lib y3 x = Ok x1"
    and xn: "tc_norm lib (bl_ffn_norm blk) x1 = Ok xn" and y4: "mlp lib blk xn = Ok y4" and z: "tc_add lib y4 x1 = Ok z"
    by (auto simp: merge_heads_def and_then_Ok)
  have tr: "rowwise lib bs (tc_transpose lib 1 2)" and mm: "rowwise lib bs (tc_qmatmul lib (bl_wo blk))"
    and nm: "rowwise lib bs (tc_norm lib (bl_ffn_norm blk))" and ad: "rowwise2 lib bs (tc_add lib)"
    using bw by (simp_all add: batchwise_def)
  note ml = rowwise_mlp [OF bw, of blk]
  have b1: "bs y1 = b" using rowwise_batch [OF tr y1] b by simp
  have b2: "bs y2 = b" using reshape_row [OF bw y2 ds b1] by simp
  have b3: "bs y3 = b" using rowwise_batch [OF mm y3] b2 by simp
  have bx: "bs x1 = b" using rowwise2_batch [OF ad x1] b3 by simp
  have bn: "bs xn = b" using rowwise_batch [OF nm xn] bx by simp
  have b4: "bs y4 = b" using rowwise_batch [OF ml y4] bn by simp
  obtain y1i where y1i: "tc_transpose lib 1 2 yi = Ok y1i" "row lib i y1 y1i"
    using rowwise_row [OF tr y1 _ i(3)] i b by blast
  obtain y2i where y2i: "tc_reshape lib (1 # ds) y1i = Ok y2i" "row lib i y2 y2i"
    using reshape_row [OF bw y2 ds b1] i y1i by blast
  obtain y3i where y3i: "tc_qmatmul lib (bl_wo blk) y2i = Ok y3i" "row lib i y3 y3i"
    using rowwise_row [OF mm y3 _ y2i(2)] i b2 by blast
  obtain x1i where x1i: "tc_add lib y3i xi = Ok x1i" "row lib i x1 x1i"
    using rowwise2_row [OF ad x1 _ y3i(2) i(2)] i b3 by blast
  obtain xni where xni: "tc_norm lib (bl_ffn_norm blk) x1i = Ok xni" "row lib i xn xni"
    using rowwise_row [OF nm xn _ x1i(2)] i bx by blast
  obtain y4i where y4i: "mlp lib blk xni = Ok y4i" "row lib i y4 y4i"
    using rowwise_row [OF ml y4 _ xni(2)] i bn by blast
  obtain zi where "tc_add lib y4i x1i = Ok zi" "row lib i z zi"
    using rowwise2_row [OF ad z _ y4i(2) x1i(2)] i b4 by blast
  with y1i y2i y3i x1i xni y4i show ?thesis by (simp add: merge_heads_def)
qed

section \<open>The batched step, row by row\<close>

lemma keeps_batchD: "keeps_batch bs f \<Longrightarrow> f x = Ok y \<Longrightarrow> bs y = bs x"
  by (simp add: keeps_batch_def)

lemma rope_batch:
  assumes bw: "batchwise lib bs" and ok: "rope_apply lib m x pos t = Ok y"
  shows "bs y = bs x"
proof -
  from ok obtain c s x' where x': "tc_contiguous lib x = Ok x'" and y: "tc_rope_i lib x' c s = Ok y \<or> tc_rope lib x' c s = Ok y"
    by (cases "qc_rope_style (ql_cfg m)") (auto simp: rope_apply_def and_then_Ok)
  have contig: "rowwise lib bs (tc_contiguous lib)" and "keeps_batch bs (\<lambda>x. tc_rope_i lib x c s)"
    "keeps_batch bs (\<lambda>x. tc_rope lib x c s)"
    using bw by (simp_all add: batchwise_def)
  with y have "bs y = bs x'" by (auto dest: keeps_batchD)
  with rowwise_batch [OF contig x'] show ?thesis by simp
qed

lemma attend_batch:
  assumes bw: "batchwise lib bs" and ok: "attend lib m q k v None = Ok y"
  shows "bs y = bs q"
proof -
  from ok obtain kt v' a1 a2 a3 where a: "tc_matmul lib q kt = Ok a1" "tc_scale lib (qc_head_dim (ql_cfg m)) a1 = Ok a2"
    "tc_softmax lib a2 = Ok a3" "tc_matmul lib a3 v' = Ok y"
    by (auto simp: attend_def Let_def and_then_Ok split: if_splits)
  have mm: "keeps_batch bs (\<lambda>x. tc_matmul lib x z)" and sc: "keeps_batch bs (tc_scale lib n)"
    and sm: "keeps_batch bs (tc_softmax lib)" for z n
    using bw by (simp_all add: batchwise_def)
  show ?thesis
    using keeps_batchD [OF mm a(1)] keeps_batchD [OF sc a(2)] keeps_batchD [OF sm a(3)] keeps_batchD [OF mm a(4)] by simp
qed

lemma attend_rows_Ok:
  assumes "attend_rows lib m layer q k v i positions kvs = (Ok ys, kvs')"
  shows "length ys = length kvs \<and> length kvs' = length kvs \<and>
    (\<forall>j < length kvs. attend_row lib m layer q k v (i + j) (positions ! (i + j)) (kvs ! j) = (Ok (ys ! j), kvs' ! j))"
  using assms
proof (induction kvs arbitrary: i ys kvs')
  case (Cons kv kvs)
  then obtain y kv' ys0 kvs0 where *: "attend_row lib m layer q k v i (positions ! i) kv = (Ok y, kv')"
    "attend_rows lib m layer q k v (i + 1) positions kvs = (Ok ys0, kvs0)" "ys = y # ys0" "kvs' = kv' # kvs0"
    by (auto simp: and_then_Ok split: if_splits prod.splits outcome.splits)
  have "attend_row lib m layer q k v (i + j) (positions ! (i + j)) ((kv # kvs) ! j) = (Ok (ys ! j), kvs' ! j)"
    if "j < length (kv # kvs)" for j
    using that Cons.IH [OF *(2)] * by (cases j) auto
  then show ?case using Cons.IH [OF *(2)] * by auto
qed simp

lemma attend_row_single:
  assumes bw: "batchwise lib bs" and row: "attend_row lib m layer q k v i pos kv = (Ok y, kv')"
    and qi: "row lib i q qi" and ki: "row lib i k ki" and vi: "row lib i v vi" "tc_contiguous lib vi = Ok vi"
  shows "\<exists>q' k' kk vv. rope_apply lib m qi pos 1 = Ok q' \<and> rope_apply lib m ki pos 1 = Ok k' \<and>
    layer < length (kv_entries kv) \<and> grow_slot lib pos (kv_entries kv ! layer) k' vi = Ok (kk, vv) \<and>
    attend lib m q' kk vv None = Ok y \<and> bs y = bs qi \<and>
    kv' = kv\<lparr> kv_entries := (kv_entries kv)[layer := Some (kk, vv)] \<rparr>"
proof -
  from row qi ki vi obtain q' k' kk vv where *: "rope_apply lib m qi pos 1 = Ok q'" "rope_apply lib m ki pos 1 = Ok k'"
    "layer < length (kv_entries kv)" "grow_slot lib pos (kv_entries kv ! layer) k' vi = Ok (kk, vv)"
    "attend lib m q' kk vv None = Ok y" "kv' = kv\<lparr> kv_entries := (kv_entries kv)[layer := Some (kk, vv)] \<rparr>"
    by (auto simp: attend_row_def row_def split: outcome.splits if_splits dest!: and_then_Ok [THEN iffD1])
  moreover have "bs y = bs qi"
    using attend_batch [OF bw *(5)] rope_batch [OF bw *(1)] by simp
  ultimately show ?thesis by blast
qed

lemma row_det: "row lib i x xi \<Longrightarrow> row lib i x xi' \<Longrightarrow> xi = xi'"
  by (simp add: row_def)

lemma rows_existD:
  "batchwise lib bs \<Longrightarrow> i < bs x \<Longrightarrow> row lib i x xi \<Longrightarrow> bs xi = 1"
  unfolding batchwise_def rows_exist_def using row_det by metis

lemma dims3_row:
  "batchwise lib bs \<Longrightarrow> tc_dims3 lib x = Ok (b, t, e) \<Longrightarrow> bs x = b \<and> (i < b \<longrightarrow> row lib i x xi \<longrightarrow> tc_dims3 lib xi = Ok (1, t, e))"
  unfolding batchwise_def rows_exist_def by metis

lemma rows_existI: "batchwise lib bs \<Longrightarrow> i < bs x \<Longrightarrow> \<exists>xi. row lib i x xi"
  unfolding batchwise_def rows_exist_def by metis

lemma attend_rows_single:
  assumes bw: "batchwise lib bs" and vb: "vector_biases lib blk" and pr: "project lib m blk b 1 x = Ok (q, k, v)"
    and rows: "attend_rows lib m layer q k v 0 positions kvs = (Ok ys, kvs')" and b: "bs x = b" "b = length kvs"
    and i: "i < b" "row lib i x xi"
  shows "\<exists>qi ki vi q' k' kk vv. project lib m blk 1 1 xi = Ok (qi, ki, vi) \<and> rope_apply lib m qi (positions ! i) 1 = Ok q' \<and>
      rope_apply lib m ki (positions ! i) 1 = Ok k' \<and> layer < length (kv_entries (kvs ! i)) \<and>
      grow_slot lib (positions ! i) (kv_entries (kvs ! i) ! layer) k' vi = Ok (kk, vv) \<and>
      attend lib m q' kk vv None = Ok (ys ! i) \<and> bs (ys ! i) = 1 \<and>
      kvs' ! i = (kvs ! i)\<lparr> kv_entries := (kv_entries (kvs ! i))[layer := Some (kk, vv)] \<rparr>"
proof -
  obtain qi ki vi where p: "project lib m blk 1 1 xi = Ok (qi, ki, vi)" "row lib i q qi" "row lib i k ki" "row lib i v vi"
    "tc_contiguous lib vi = Ok vi" "bs q = b"
    using project_row [OF bw vb pr b(1) i] by blast
  have "attend_row lib m layer q k v i (positions ! i) (kvs ! i) = (Ok (ys ! i), kvs' ! i)"
    using attend_rows_Ok [OF rows] i b by simp
  from attend_row_single [OF bw this p(2-5)] obtain q' k' kk vv where
    *: "rope_apply lib m qi (positions ! i) 1 = Ok q'" "rope_apply lib m ki (positions ! i) 1 = Ok k'"
    "layer < length (kv_entries (kvs ! i))" "grow_slot lib (positions ! i) (kv_entries (kvs ! i) ! layer) k' vi = Ok (kk, vv)"
    "attend lib m q' kk vv None = Ok (ys ! i)" "bs (ys ! i) = bs qi"
    "kvs' ! i = (kvs ! i)\<lparr> kv_entries := (kv_entries (kvs ! i))[layer := Some (kk, vv)] \<rparr>"
    by blast
  moreover have "bs qi = 1" using rows_existD [OF bw _ p(2)] i p(6) by simp
  ultimately show ?thesis using p(1) by (intro exI conjI) simp_all
qed

lemma cat_rows:
  assumes "batchwise lib bs" and "tc_cat lib ys 0 = Ok y" and "\<forall>z \<in> set ys. bs z = 1"
  shows "bs y = length ys \<and> (i < length ys \<longrightarrow> row lib i y (ys ! i))"
proof -
  have "row_shapes lib bs" using assms(1) by (simp only: batchwise_def)
  then show ?thesis using assms(2,3) unfolding row_shapes_def by blast
qed

lemma attend_rows_batch:
  assumes bw: "batchwise lib bs" and vb: "vector_biases lib blk" and pr: "project lib m blk b 1 x = Ok (q, k, v)"
    and rows: "attend_rows lib m layer q k v 0 positions kvs = (Ok ys, kvs')" and b: "bs x = b" "b = length kvs"
    and cat: "tc_cat lib ys 0 = Ok y"
  shows "bs y = b \<and> (i < b \<longrightarrow> row lib i y (ys ! i))"
proof -
  have len: "length ys = b" using attend_rows_Ok [OF rows] b by simp
  have "bs (ys ! j) = 1" if j: "j < b" for j
  proof -
    obtain xj where "row lib j x xj" using rows_existI [OF bw, of j x] b(1) j by auto
    from attend_rows_single [OF bw vb pr rows b j this] show ?thesis by (elim exE conjE)
  qed
  then have "\<forall>z \<in> set ys. bs z = 1" using len by (auto simp: in_set_conv_nth)
  from cat_rows [OF bw cat this] len show ?thesis by simp
qed

lemma block_forward_batch_Ok:
  assumes "block_forward_batch lib m blk layer x positions kvs = (Ok y, kvs')"
  obtains b t e q k v ys y0 where "tc_dims3 lib x = Ok (b, t, e)" "project lib m blk b 1 x = Ok (q, k, v)"
    "attend_rows lib m layer q k v 0 positions kvs = (Ok ys, kvs')" "tc_cat lib ys 0 = Ok y0"
    "merge_heads lib blk [b, 1, e] x y0 = Ok y"
proof (cases "tc_dims3 lib x")
  case (Ok d)
  then obtain b t e where d: "tc_dims3 lib x = Ok (b, t, e)" by (metis prod_cases3)
  show thesis
  proof (cases "project lib m blk b 1 x")
    case (Ok p)
    then obtain q k v where p: "project lib m blk b 1 x = Ok (q, k, v)" by (metis prod_cases3)
    obtain r ks where "attend_rows lib m layer q k v 0 positions kvs = (r, ks)" by fastforce
    with assms d p that show thesis by (auto simp: block_forward_batch_def and_then_Ok)
  qed (use assms d in \<open>simp_all add: block_forward_batch_def\<close>)
qed (use assms in \<open>simp_all add: block_forward_batch_def\<close>)

text \<open>
  One block: for every row of the batch the batched block does to the row and to the KV entry of its
  sequence what the single-sequence block does.
\<close>

lemma block_forward_batch_row:
  assumes bw: "batchwise lib bs" and vb: "vector_biases lib blk" and ok: "block_forward_batch lib m blk layer x positions kvs = (Ok y, kvs')"
    and bx: "bs x = length kvs" and i: "i < length kvs" "row lib i x xi"
  shows "\<exists>yi s. row lib i y yi \<and> layer < length (kv_entries (kvs ! i)) \<and>
    block_forward_single lib m blk xi (positions ! i) 1 None (kv_entries (kvs ! i) ! layer) = (Ok yi, s) \<and>
    kvs' ! i = (kvs ! i)\<lparr> kv_entries := (kv_entries (kvs ! i))[layer := s] \<rparr>"
proof -
  let ?b = "length kvs"
  from ok obtain b t e q k v ys y0 where dims0: "tc_dims3 lib x = Ok (b, t, e)" and pr0: "project lib m blk b 1 x = Ok (q, k, v)"
    and rows: "attend_rows lib m layer q k v 0 positions kvs = (Ok ys, kvs')"
    and cat: "tc_cat lib ys 0 = Ok y0" and mg0: "merge_heads lib blk [b, 1, e] x y0 = Ok y"
    by (rule block_forward_batch_Ok)
  have "b = ?b" using dims3_row [OF bw dims0] bx by simp
  then have dims: "tc_dims3 lib x = Ok (?b, t, e)" and pr: "project lib m blk ?b 1 x = Ok (q, k, v)"
    and mg: "merge_heads lib blk [?b, 1, e] x y0 = Ok y"
    using dims0 pr0 mg0 by simp_all
  have di: "tc_dims3 lib xi = Ok (1, t, e)"
    using dims3_row [OF bw dims] i by blast
  have y0: "bs y0 = ?b" "row lib i y0 (ys ! i)"
    using attend_rows_batch [OF bw vb pr rows bx refl cat] i by blast+
  obtain zi where zi: "merge_heads lib blk [1, 1, e] xi (ys ! i) = Ok zi" "row lib i y zi"
    using merge_heads_row [OF bw mg list.distinct(2) y0(1) i y0(2)] by auto
  from attend_rows_single [OF bw vb pr rows bx refl i] obtain qi ki vi q' k' kk vv where *:
    "project lib m blk 1 1 xi = Ok (qi, ki, vi)" "rope_apply lib m qi (positions ! i) 1 = Ok q'"
    "rope_apply lib m ki (positions ! i) 1 = Ok k'" "layer < length (kv_entries (kvs ! i))"
    "grow_slot lib (positions ! i) (kv_entries (kvs ! i) ! layer) k' vi = Ok (kk, vv)"
    "attend lib m q' kk vv None = Ok (ys ! i)"
    "kvs' ! i = (kvs ! i)\<lparr> kv_entries := (kv_entries (kvs ! i))[layer := Some (kk, vv)] \<rparr>"
    by blast
  then have "block_forward_single lib m blk xi (positions ! i) 1 None (kv_entries (kvs ! i) ! layer) = (Ok zi, Some (kk, vv))"
    using di zi by (simp add: block_forward_single_def)
  with zi(2) *(4,7) show ?thesis by blast
qed

lemma merge_heads_batch:
  assumes bw: "batchwise lib bs" and ok: "merge_heads lib blk (b # ds) x y = Ok z" and ds: "ds \<noteq> []" and b: "bs y = b"
  shows "bs z = b"
proof -
  from ok obtain y1 y2 y3 x1 xn y4 where y1: "tc_transpose lib 1 2 y = Ok y1" and y2: "tc_reshape lib (b # ds) y1 = Ok y2"
    and y3: "tc_qmatmul lib (bl_wo blk) y2 = Ok y3" and x1: "tc_add lib y3 x = Ok x1"
    and y4: "mlp lib blk xn = Ok y4" and z: "tc_add lib y4 x1 = Ok z"
    by (auto simp: merge_heads_def and_then_Ok)
  have tr: "rowwise lib bs (tc_transpose lib 1 2)" and mm: "rowwise lib bs (tc_qmatmul lib (bl_wo blk))"
    and ad: "rowwise2 lib bs (tc_add lib)"
    using bw by (simp_all add: batchwise_def)
  have b1: "bs y1 = b" using rowwise_batch [OF tr y1] b by simp
  show ?thesis
    using reshape_row [OF bw y2 ds b1] rowwise_batch [OF mm y3] rowwise2_batch [OF ad x1] rowwise2_batch [OF ad z] by simp
qed

lemma block_forward_batch_size:
  assumes bw: "batchwise lib bs" and vb: "vector_biases lib blk" and ok: "block_forward_batch lib m blk layer x positions kvs = (Ok y, kvs')"
    and bx: "bs x = length kvs"
  shows "length kvs' = length kvs \<and> bs y = length kvs"
proof -
  from ok obtain b t e q k v ys y0 where dims: "tc_dims3 lib x = Ok (b, t, e)" and pr: "project lib m blk b 1 x = Ok (q, k, v)"
    and rows: "attend_rows lib m layer q k v 0 positions kvs = (Ok ys, kvs')"
    and cat: "tc_cat lib ys 0 = Ok y0" and mg: "merge_heads lib blk [b, 1, e] x y0 = Ok y"
    by (rule block_forward_batch_Ok)
  have b: "b = length kvs" using dims3_row [OF bw dims] bx by simp
  have len: "length kvs' = length kvs" using attend_rows_Ok [OF rows] by simp
  have "bs y0 = b" using attend_rows_batch [OF bw vb pr rows _ b cat] bx b by simp
  with merge_heads_batch [OF bw mg list.distinct(2)] b len show ?thesis by simp
qed

text \<open>The layer loop of a decode step, seen from one row of the batch.\<close>

lemma batch_blocks_row:
  assumes bw: "batchwise lib bs"
  shows "batch_blocks lib m positions l blks x kvs = (Ok y, kvs') \<Longrightarrow> \<forall>blk \<in> set blks. vector_biases lib blk \<Longrightarrow>
    bs x = length kvs \<Longrightarrow> i < length kvs \<Longrightarrow> row lib i x xi \<Longrightarrow> length (kv_entries (kvs ! i)) = l + length blks \<Longrightarrow>
    length kvs' = length kvs \<and> bs y = length kvs \<and> (\<exists>yi. row lib i y yi \<and>
      forward_blocks lib m (positions ! i) 1 None blks (drop l (kv_entries (kvs ! i))) xi = (Ok yi, drop l (kv_entries (kvs' ! i))) \<and>
      kvs' ! i = (kvs ! i)\<lparr> kv_entries := take l (kv_entries (kvs ! i)) @ drop l (kv_entries (kvs' ! i)) \<rparr>)"
proof (induction blks arbitrary: l x kvs xi)
  case Nil
  then show ?case by (auto simp: forward_blocks.simps)
next
  case (Cons blk blks)
  from Cons.prems(1) obtain x1 kvs1 where one: "block_forward_batch lib m blk l x positions kvs = (Ok x1, kvs1)"
    and rest: "batch_blocks lib m positions (l + 1) blks x1 kvs1 = (Ok y, kvs')"
    by (auto split: prod.splits outcome.splits)
  have vb: "vector_biases lib blk" and vbs: "\<forall>blk \<in> set blks. vector_biases lib blk" using Cons.prems(2) by simp_all
  note size = block_forward_batch_size [OF bw vb one Cons.prems(3)]
  obtain yi s where yi: "row lib i x1 yi" "l < length (kv_entries (kvs ! i))"
    "block_forward_single lib m blk xi (positions ! i) 1 None (kv_entries (kvs ! i) ! l) = (Ok yi, s)"
    "kvs1 ! i = (kvs ! i)\<lparr> kv_entries := (kv_entries (kvs ! i))[l := s] \<rparr>"
    using block_forward_batch_row [OF bw vb one Cons.prems(3-5)] by blast
  let ?e = "kv_entries (kvs ! i)"
  have len: "length (kv_entries (kvs1 ! i)) = l + 1 + length blks" using yi Cons.prems(6) by simp
  have "bs x1 = length kvs1" "i < length kvs1" using size Cons.prems(4) by simp_all
  from Cons.IH [OF rest vbs this yi(1) len] obtain zi where z: "length kvs' = length kvs1" "bs y = length kvs1" "row lib i y zi"
    "forward_blocks lib m (positions ! i) 1 None blks (drop (l + 1) (?e[l := s])) yi = (Ok zi, drop (l + 1) (kv_entries (kvs' ! i)))"
    "kvs' ! i = (kvs1 ! i)\<lparr> kv_entries := take (l + 1) (?e[l := s]) @ drop (l + 1) (kv_entries (kvs' ! i)) \<rparr>"
    unfolding yi(4) by auto
  have split: "drop l ?e = ?e ! l # drop (l + 1) ?e" using yi(2) by (simp add: Cons_nth_drop_Suc)
  let ?t = "drop (l + 1) (kv_entries (kvs' ! i))"
  have e': "kv_entries (kvs' ! i) = take l ?e @ s # ?t"
    using arg_cong [OF z(5), of kv_entries] yi(2) by (simp add: take_Suc_conv_app_nth yi(4))
  have d': "drop l (kv_entries (kvs' ! i)) = s # ?t" using e' yi(2)
    by (metis append_eq_conv_conj length_take min.absorb2 less_imp_le_nat)
  have "forward_blocks lib m (positions ! i) 1 None (blk # blks) (drop l ?e) xi = (Ok zi, s # ?t)"
    using yi(3) z(4) by (simp add: split)
  moreover have "kvs' ! i = (kvs ! i)\<lparr> kv_entries := take l ?e @ s # ?t \<rparr>"
    using z(5) e' yi(4) by (metis SeqKv.update_convs(1) SeqKv.surjective)
  ultimately show ?case using z size d' by auto
qed

text \<open>
  The batched decode step does for every row what the single-sequence forward pass does: the same
  hidden state and the same KV cache.
\<close>

lemma qllama_decode_step_row:
  assumes bw: "batchwise lib bs" and vb: "\<forall>blk \<in> set (ql_blocks m). vector_biases lib blk"
    and ok: "qllama_decode_step lib m x positions kvs = (Ok y, kvs')"
    and i: "i < length kvs" "row lib i x xi" and len: "length (kv_entries (kvs ! i)) = length (ql_blocks m)"
    and pos: "positions ! i = kv_tokens (kvs ! i)"
  shows "length kvs' = length kvs \<and> bs y = length kvs \<and>
    (\<exists>yi. row lib i y yi \<and> forward_hidden lib m xi (positions ! i) (kvs ! i) = (Ok yi, kvs' ! i))"
proof -
  from ok obtain e ks where dims: "tc_dims3 lib x = Ok (length kvs, 1, e)"
    and bb: "batch_blocks lib m positions 0 (ql_blocks m) x kvs = (Ok y, ks)"
    and kvs': "kvs' = map (\<lambda>kv. kv\<lparr> kv_tokens := kv_tokens kv + 1 \<rparr>) ks"
    by (auto simp: qllama_decode_step_def split: outcome.splits prod.splits if_splits)
  have bx: "bs x = length kvs" and di: "tc_dims3 lib xi = Ok (1, 1, e)" using dims3_row [OF bw dims] i by blast+
  from batch_blocks_row [OF bw bb vb bx i] len obtain yi where *: "length ks = length kvs" "bs y = length kvs" "row lib i y yi"
    "forward_blocks lib m (positions ! i) 1 None (ql_blocks m) (kv_entries (kvs ! i)) xi = (Ok yi, kv_entries (ks ! i))"
    "ks ! i = (kvs ! i)\<lparr> kv_entries := kv_entries (ks ! i) \<rparr>"
    by auto
  have "kvs' ! i = \<lparr> kv_entries = kv_entries (ks ! i), kv_tokens = positions ! i + 1 \<rparr>"
    using *(1) i pos arg_cong [OF *(5), of kv_tokens] by (simp add: kvs')
  then have "forward_hidden lib m xi (positions ! i) (kvs ! i) = (Ok yi, kvs' ! i)"
    using di *(4) len by (simp add: forward_hidden_def causal_mask_def)
  then show ?thesis using * by (simp add: kvs')
qed

lemma forward_hidden_Ok:
  assumes "forward_hidden lib m h p kv = (Ok y, kv')"
  shows "\<exists>b t e mk. tc_dims3 lib h = Ok (b, t, e) \<and> causal_mask lib t p = Ok mk \<and> kv_tokens kv' = p + t \<and>
    length (kv_entries kv) = length (ql_blocks m) \<and> length (kv_entries kv') = length (ql_blocks m) \<and>
    forward_blocks lib m p t mk (ql_blocks m) (kv_entries kv) h = (Ok y, kv_entries kv')"
  using assms
  by (cases "tc_dims3 lib h")
    (auto simp: forward_hidden_def and_then_Ok split: if_splits outcome.splits prod.splits
      dest!: and_then_Ok [THEN iffD1] dest: forward_blocks_length)

end
