(* ===== verification/Cgn_Runtime.thy ===== *)
theory Cgn_Runtime
  imports Cgn_Llama_Props Cgn_KvPool
begin

text \<open>
  The model runtimes behind the \<open>BatchModel\<close> trait (\<open>cgn-infer/src/runtime/mod.rs\<close>):
  \<open>BatchedLlama\<close> over the crate's own forward pass, and \<open>SequentialModel\<close> over the stock
  candle models, which are a parameter. A call returns its outcome and the state it leaves,
  also when it fails; a panic ends the thread that owns the runtime, so the state beside it is never
  read. The lemmas give the positions each runtime holds, and the equivalence of a
  batched decode with serving every sequence alone.
\<close>

section \<open>The batched runtime\<close>

record ('t, 'w, 'n) BatchedLlama =
  ba_model :: "('t, 'w, 'n) QLlama"
  ba_kvs :: "seq_id \<rightharpoonup> 't SeqKv"
  ba_max_seq_len :: nat
  ba_max_batch :: nat

definition batched_load :: "('t, 'q, 'w, 'n) candle \<Rightarrow> 'q Gguf \<Rightarrow> nat \<Rightarrow> nat \<Rightarrow> (Error, ('t, 'w, 'n) BatchedLlama) outcome" where
  "batched_load lib g ctx max_batch =
     and_then (from_gguf g) (\<lambda>cfg.
     and_then (of_result (layer_range_new 0 (qc_n_layers cfg))) (\<lambda>rng.
     and_then (qllama_load lib g rng parts_full) (\<lambda>m.
     Ok \<lparr> ba_model = m, ba_kvs = Map.empty, ba_max_seq_len = max (min ctx (qc_context_length (ql_cfg m))) 1,
          ba_max_batch = max max_batch 1 \<rparr>)))"

text \<open>\<open>logits.squeeze(0)\<close>, converted and read back as one row.\<close>

definition logits_row :: "('t, 'q, 'w, 'n) candle \<Rightarrow> 't \<Rightarrow> (Error, f32 list) outcome" where
  "logits_row lib logits =
     map_err (internal ''logits readback'')
       (and_then (tc_squeeze lib 0 logits) (\<lambda>s. and_then (tc_to_f32 lib s) (tc_to_vec1 lib)))"

definition batched_prefill :: "('t, 'q, 'w, 'n) candle \<Rightarrow> seq_id \<Rightarrow> u32 list \<Rightarrow> nat \<Rightarrow> bool \<Rightarrow> ('t, 'w, 'n) BatchedLlama
    \<Rightarrow> (Error, f32 list option) outcome \<times> ('t, 'w, 'n) BatchedLlama" where
  "batched_prefill lib seq tokens start_pos want_logits st =
     (let m = ba_model st;
          kv0 = case_option (new_kv m) id (ba_kvs st seq);
          kv = (if start_pos = 0 then seq_kv_clear kv0 else kv0);
          put = (\<lambda>kv. st\<lparr> ba_kvs := (ba_kvs st)(seq \<mapsto> kv) \<rparr>)
      in if kv_tokens kv \<noteq> start_pos
         then (Err (Internal (''prefill position mismatch for seq '' @ show_nat seq @ '': kv has '' @ show_nat (kv_tokens kv)
                 @ '' tokens, start_pos '' @ show_nat start_pos)), put kv)
         else
           (case embed_tokens lib m tokens of
              Panic \<Rightarrow> (Panic, put kv)
            | Err e \<Rightarrow> (Err e, put kv)
            | Ok hidden \<Rightarrow>
                (case forward_hidden lib m hidden start_pos kv of
                   (r, kv') \<Rightarrow>
                     (and_then r (\<lambda>hidden.
                        if \<not> want_logits then Ok None
                        else and_then (lm_output lib m hidden) (\<lambda>logits.
                             and_then (logits_row lib logits) (\<lambda>l. Ok (Some l)))), put kv'))))"

text \<open>The caches are taken out one by one; a missing one ends the call, and those already taken are dropped.\<close>

fun take_kvs :: "(seq_id \<rightharpoonup> 't SeqKv) \<Rightarrow> (seq_id \<times> u32) list \<Rightarrow> (Error, 't SeqKv list) result \<times> (seq_id \<rightharpoonup> 't SeqKv)" where
  "take_kvs kvs [] = (Inr [], kvs)"
| "take_kvs kvs ((seq, tok) # batch) =
     (case kvs seq of
        None \<Rightarrow> (Inl (Internal (''decode of unknown seq '' @ show_nat seq)), kvs)
      | Some kv \<Rightarrow>
          (case take_kvs (kvs(seq := None)) batch of
             (Inl e, kvs') \<Rightarrow> (Inl e, kvs')
           | (Inr taken, kvs') \<Rightarrow> (Inr (kv # taken), kvs')))"

fun put_kvs :: "(seq_id \<rightharpoonup> 't SeqKv) \<Rightarrow> (seq_id \<times> u32) list \<Rightarrow> 't SeqKv list \<Rightarrow> (seq_id \<rightharpoonup> 't SeqKv)" where
  "put_kvs kvs ((seq, tok) # batch) (kv # taken) = put_kvs (kvs(seq \<mapsto> kv)) batch taken"
| "put_kvs kvs _ _ = kvs"

definition batched_decode :: "('t, 'q, 'w, 'n) candle \<Rightarrow> (seq_id \<times> u32) list \<Rightarrow> ('t, 'w, 'n) BatchedLlama
    \<Rightarrow> (Error, f32 list list) outcome \<times> ('t, 'w, 'n) BatchedLlama" where
  "batched_decode lib batch st =
     (if batch = [] then (Ok [], st)
      else
        (case take_kvs (ba_kvs st) batch of
           (Inl e, kvs) \<Rightarrow> (Err e, st\<lparr> ba_kvs := kvs \<rparr>)
         | (Inr taken, kvs) \<Rightarrow>
             let m = ba_model st; positions = map kv_tokens taken in
             (case and_then (embed_tokens lib m (map snd batch)) (\<lambda>h. map_err (internal ''decode reshape'') (tc_transpose lib 0 1 h)) of
                Panic \<Rightarrow> (Panic, st\<lparr> ba_kvs := put_kvs kvs batch taken \<rparr>)
              | Err e \<Rightarrow> (Err e, st\<lparr> ba_kvs := put_kvs kvs batch taken \<rparr>)
              | Ok hidden \<Rightarrow>
                  (case qllama_decode_step lib m hidden positions taken of
                     (r, taken') \<Rightarrow>
                       (and_then r (\<lambda>hidden.
                          and_then (lm_output lib m hidden) (\<lambda>logits.
                          map_err (internal ''logits readback'') (and_then (tc_to_f32 lib logits) (tc_to_vec2 lib)))),
                        st\<lparr> ba_kvs := put_kvs kvs batch taken' \<rparr>)))))"

definition batched_drop_seq :: "seq_id \<Rightarrow> ('t, 'w, 'n) BatchedLlama \<Rightarrow> ('t, 'w, 'n) BatchedLlama" where
  "batched_drop_seq seq st = st\<lparr> ba_kvs := (ba_kvs st)(seq := None) \<rparr>"

section \<open>The sequential fallback\<close>

text \<open>
  The stock models keep their KV cache inside: \<open>'a\<close> is such a model, and the record of
  the environment holds its forward pass and the cache reset that the qwen3 model offers.
\<close>

datatype 'a ArchWeights = AwLlama 'a | AwQwen2 'a | AwQwen3 'a | AwGemma3 'a | AwPhi3 'a

record ('a, 't) stock =
  sk_forward :: "'a \<Rightarrow> 't \<Rightarrow> nat \<Rightarrow> (string, 't) outcome \<times> 'a"
  sk_clear :: "'a \<Rightarrow> 'a"

fun arch_forward :: "('a, 't) stock \<Rightarrow> 't \<Rightarrow> nat \<Rightarrow> 'a ArchWeights \<Rightarrow> (string, 't) outcome \<times> 'a ArchWeights" where
  "arch_forward sk x pos (AwLlama w) = map_prod id AwLlama (sk_forward sk w x pos)"
| "arch_forward sk x pos (AwQwen2 w) = map_prod id AwQwen2 (sk_forward sk w x pos)"
| "arch_forward sk x pos (AwQwen3 w) =
     map_prod id AwQwen3 (sk_forward sk (if pos = 0 then sk_clear sk w else w) x pos)"
| "arch_forward sk x pos (AwGemma3 w) = map_prod id AwGemma3 (sk_forward sk w x pos)"
| "arch_forward sk x pos (AwPhi3 w) = map_prod id AwPhi3 (sk_forward sk w x pos)"

record 'a SequentialModel =
  se_weights :: "'a ArchWeights"
  se_max_seq_len :: nat
  se_resident :: "(seq_id \<times> nat) option"

definition last_logits :: "('t, 'q, 'w, 'n) candle \<Rightarrow> 't \<Rightarrow> (Error, f32 list) outcome" where
  "last_logits lib logits =
     and_then
       (if tc_rank lib logits = 3
        then and_then (map_err Internal (tc_dims3 lib logits)) (\<lambda>(_, t, _).
             map_err (internal ''last logits'') (tc_at lib 0 (pred_usize t) logits))
        else map_err (internal ''squeeze logits'') (tc_squeeze lib 0 logits)) (\<lambda>l.
     map_err (internal ''logits readback'') (and_then (tc_to_f32 lib l) (tc_to_vec1 lib)))"

definition forward_tokens :: "('t, 'q, 'w, 'n) candle \<Rightarrow> ('a, 't) stock \<Rightarrow> u32 list \<Rightarrow> nat \<Rightarrow> 'a ArchWeights
    \<Rightarrow> (Error, f32 list) outcome \<times> 'a ArchWeights" where
  "forward_tokens lib sk tokens index_pos w =
     (case map_err (internal ''input tensor'') (and_then (tc_of_tokens lib tokens) (tc_unsqueeze lib 0)) of
        Panic \<Rightarrow> (Panic, w)
      | Err e \<Rightarrow> (Err e, w)
      | Ok x \<Rightarrow>
          (case arch_forward sk x index_pos w of
             (r, w') \<Rightarrow> (and_then (map_err (internal ''forward'') r) (last_logits lib), w')))"

text \<open>Continuation chunks are fed token by token.\<close>

fun feed_tokens :: "('t, 'q, 'w, 'n) candle \<Rightarrow> ('a, 't) stock \<Rightarrow> f32 list \<Rightarrow> u32 list \<Rightarrow> nat \<Rightarrow> 'a ArchWeights
    \<Rightarrow> (Error, f32 list) outcome \<times> 'a ArchWeights" where
  "feed_tokens lib sk acc [] pos w = (Ok acc, w)"
| "feed_tokens lib sk acc (tok # toks) pos w =
     (case forward_tokens lib sk [tok] pos w of
        (Ok l, w') \<Rightarrow> feed_tokens lib sk l toks (pos + 1) w'
      | (r, w') \<Rightarrow> (r, w'))"

definition sequential_prefill :: "('t, 'q, 'w, 'n) candle \<Rightarrow> ('a, 't) stock \<Rightarrow> seq_id \<Rightarrow> u32 list \<Rightarrow> nat \<Rightarrow> bool \<Rightarrow> 'a SequentialModel
    \<Rightarrow> (Error, f32 list option) outcome \<times> 'a SequentialModel" where
  "sequential_prefill lib sk seq tokens start_pos want_logits st =
     (let st = (if start_pos = 0 then st\<lparr> se_resident := Some (seq, 0) \<rparr> else st)
      in if se_resident st \<noteq> Some (seq, start_pos)
         then (Err (Internal (''sequential runtime: seq '' @ show_nat seq @ ''@'' @ show_nat start_pos @ '' is not the resident sequence'')), st)
         else
           (case (if start_pos = 0 then forward_tokens lib sk tokens 0 (se_weights st)
                  else feed_tokens lib sk [] tokens start_pos (se_weights st)) of
              (Ok logits, w) \<Rightarrow>
                (Ok (if want_logits then Some logits else None),
                 st\<lparr> se_weights := w, se_resident := Some (seq, start_pos + length tokens) \<rparr>)
            | (Err e, w) \<Rightarrow> (Err e, st\<lparr> se_weights := w \<rparr>)
            | (Panic, w) \<Rightarrow> (Panic, st\<lparr> se_weights := w \<rparr>)))"

definition sequential_decode :: "('t, 'q, 'w, 'n) candle \<Rightarrow> ('a, 't) stock \<Rightarrow> (seq_id \<times> u32) list \<Rightarrow> 'a SequentialModel
    \<Rightarrow> (Error, f32 list list) outcome \<times> 'a SequentialModel" where
  "sequential_decode lib sk batch st =
     (case batch of
        [] \<Rightarrow> (Ok [], st)
      | [(seq, token)] \<Rightarrow>
          (case se_resident st of
             None \<Rightarrow> (Err (Internal ''decode with no resident sequence''), st)
           | Some (s, n) \<Rightarrow>
               if s \<noteq> seq
               then (Err (Internal (''sequential runtime: decode of seq '' @ show_nat seq @ '' but '' @ show_nat s @ '' is resident'')), st)
               else
                 (case forward_tokens lib sk [token] n (se_weights st) of
                    (Ok logits, w) \<Rightarrow> (Ok [logits], st\<lparr> se_weights := w, se_resident := Some (s, n + 1) \<rparr>)
                  | (Err e, w) \<Rightarrow> (Err e, st\<lparr> se_weights := w \<rparr>)
                  | (Panic, w) \<Rightarrow> (Panic, st\<lparr> se_weights := w \<rparr>)))
      | _ \<Rightarrow> (Err (Internal ''sequential runtime cannot decode a batch larger than 1''), st))"

definition sequential_drop_seq :: "seq_id \<Rightarrow> 'a SequentialModel \<Rightarrow> 'a SequentialModel" where
  "sequential_drop_seq seq st =
     (case se_resident st of
        Some (s, _) \<Rightarrow> if s = seq then st\<lparr> se_resident := None \<rparr> else st
      | None \<Rightarrow> st)"

section \<open>Positions\<close>

text \<open>Every cache of the batched runtime has one entry per layer.\<close>

definition runtime_wf :: "('t, 'w, 'n) BatchedLlama \<Rightarrow> bool" where
  "runtime_wf st \<longleftrightarrow> (\<forall>s kv. ba_kvs st s = Some kv \<longrightarrow> length (kv_entries kv) = length (ql_blocks (ba_model st)))"

lemma runtime_wfD: "runtime_wf st \<Longrightarrow> ba_kvs st s = Some kv \<Longrightarrow> length (kv_entries kv) = length (ql_blocks (ba_model st))"
  by (simp add: runtime_wf_def)

lemma runtime_wf_put:
  "runtime_wf st \<Longrightarrow> length (kv_entries kv) = length (ql_blocks (ba_model st)) \<Longrightarrow>
    runtime_wf (st\<lparr> ba_kvs := (ba_kvs st)(s \<mapsto> kv) \<rparr>)"
  by (simp add: runtime_wf_def)

lemma length_new_kv [simp]: "length (kv_entries (new_kv m)) = length (ql_blocks m)"
  by (simp add: new_kv_def seq_kv_new_def)

lemma length_seq_kv_clear [simp]: "length (kv_entries (seq_kv_clear kv)) = length (kv_entries kv)" "kv_tokens (seq_kv_clear kv) = 0"
  by (simp_all add: seq_kv_clear_def)

lemma forward_hidden_length:
  assumes "forward_hidden lib m h p kv = (r, kv')"
  shows "length (kv_entries kv') = length (kv_entries kv)"
  using assms
  by (auto simp: forward_hidden_def split: if_splits outcome.splits prod.splits dest: forward_blocks_length)

lemma batched_load_wf: "batched_load lib g ctx mb = Ok st \<Longrightarrow> runtime_wf st"
  by (auto simp: batched_load_def and_then_Ok runtime_wf_def)

lemma batched_prefill_wf:
  assumes wf: "runtime_wf st"
  shows "runtime_wf (snd (batched_prefill lib s ts p w st))"
proof -
  define kv where "kv = (if p = 0 then seq_kv_clear (case_option (new_kv (ba_model st)) id (ba_kvs st s))
    else case_option (new_kv (ba_model st)) id (ba_kvs st s))"
  have len: "length (kv_entries kv) = length (ql_blocks (ba_model st))"
    using wf by (auto simp: kv_def dest: runtime_wfD split: option.splits)
  have "\<exists>kv'. snd (batched_prefill lib s ts p w st) = st\<lparr> ba_kvs := (ba_kvs st)(s \<mapsto> kv') \<rparr> \<and>
      length (kv_entries kv') = length (kv_entries kv)"
    unfolding batched_prefill_def Let_def kv_def [symmetric]
    by (auto split: outcome.splits prod.splits dest: forward_hidden_length)
  then show ?thesis using runtime_wf_put [OF wf] len by auto
qed

lemma take_kvs_Inr:
  assumes "take_kvs kvs batch = (Inr taken, kvs')"
  shows "length taken = length batch \<and> distinct (map fst batch) \<and> kvs' = kvs |` (- set (map fst batch)) \<and>
    (\<forall>i < length batch. kvs (fst (batch ! i)) = Some (taken ! i))"
  using assms
proof (induction batch arbitrary: kvs taken)
  case Nil
  then show ?case by simp
next
  case (Cons b batch)
  obtain seq tok where b: "b = (seq, tok)" by fastforce
  with Cons.prems obtain kv taken0 where kv: "kvs seq = Some kv" and rest: "take_kvs (kvs(seq := None)) batch = (Inr taken0, kvs')"
    and t: "taken = kv # taken0"
    by (auto split: option.splits prod.splits sum.splits)
  note IH = Cons.IH [OF rest]
  have "seq \<notin> set (map fst batch)"
  proof
    assume "seq \<in> set (map fst batch)"
    then obtain i where "i < length batch" "fst (batch ! i) = seq" by (auto simp: in_set_conv_nth)
    with IH show False by fastforce
  qed
  moreover have "kvs (fst ((b # batch) ! i)) = Some (taken ! i)" if "i < length (b # batch)" for i
    using that IH kv b t by (cases i) (fastforce split: if_splits)+
  moreover have "kvs' = kvs |` (- set (map fst (b # batch)))"
    using IH b by (auto simp: restrict_map_def fun_eq_iff)
  ultimately show ?case using IH b t by auto
qed

lemma put_kvs_other: "s \<notin> set (map fst batch) \<Longrightarrow> put_kvs kvs batch taken s = kvs s"
proof (induction batch arbitrary: kvs taken)
  case (Cons b batch)
  then show ?case by (cases b; cases taken) auto
qed simp

lemma put_kvs_lookup:
  "distinct (map fst batch) \<Longrightarrow> length taken = length batch \<Longrightarrow> i < length batch \<Longrightarrow>
    put_kvs kvs batch taken (fst (batch ! i)) = Some (taken ! i)"
proof (induction batch arbitrary: kvs taken i)
  case (Cons b batch)
  then obtain kv rest where t: "taken = kv # rest" by (cases taken) auto
  show ?case
  proof (cases i)
    case 0
    with Cons.prems t show ?thesis by (cases b) (simp add: put_kvs_other)
  next
    case (Suc j)
    with Cons t show ?thesis by (cases b) simp
  qed
qed simp

section \<open>A batch serves every sequence as if it were alone\<close>

text \<open>
  What the runtime relies on of the tensor library besides the row-wise operations: looking up the
  embeddings of several tokens and reading back several rows of logits is done token by token and
  row by row.
\<close>

definition embeds_rows :: "('t, 'q, 'w, 'n) candle \<Rightarrow> ('t \<Rightarrow> nat) \<Rightarrow> bool" where
  "embeds_rows lib bs \<longleftrightarrow>
     (\<forall>w ts a b h x. tc_of_tokens lib ts = Ok a \<longrightarrow> tc_unsqueeze lib 0 a = Ok b \<longrightarrow> tc_embed lib w b = Ok h \<longrightarrow>
       tc_transpose lib 0 1 h = Ok x \<longrightarrow> bs x = length ts \<and>
       (\<forall>i < length ts. \<exists>ai bi hi. tc_of_tokens lib [ts ! i] = Ok ai \<and> tc_unsqueeze lib 0 ai = Ok bi \<and>
         tc_embed lib w bi = Ok hi \<and> row lib i x hi))"

definition reads_rows :: "('t, 'q, 'w, 'n) candle \<Rightarrow> ('t \<Rightarrow> nat) \<Rightarrow> bool" where
  "reads_rows lib bs \<longleftrightarrow>
     (\<forall>z f vs. tc_to_f32 lib z = Ok f \<longrightarrow> tc_to_vec2 lib f = Ok vs \<longrightarrow> length vs = bs z \<and>
       (\<forall>i < bs z. \<forall>zi. row lib i z zi \<longrightarrow> (\<exists>s g. tc_squeeze lib 0 zi = Ok s \<and> tc_to_f32 lib s = Ok g \<and> tc_to_vec1 lib g = Ok (vs ! i))))"

definition batch_laws :: "('t, 'q, 'w, 'n) candle \<Rightarrow> ('t \<Rightarrow> nat) \<Rightarrow> bool" where
  "batch_laws lib bs \<longleftrightarrow> batchwise lib bs \<and> embeds_rows lib bs \<and> reads_rows lib bs \<and> (\<forall>k. rowwise lib bs (tc_last lib k))"

lemma embed_row:
  assumes "batch_laws lib bs" and "embed_tokens lib m ts = Ok h" and "tc_transpose lib 0 1 h = Ok x"
  shows "bs x = length ts \<and> (i < length ts \<longrightarrow> (\<exists>hi. embed_tokens lib m [ts ! i] = Ok hi \<and> row lib i x hi))"
proof -
  from assms(2) obtain w a b where w: "ql_embed m = Some w" and abh: "tc_of_tokens lib ts = Ok a" "tc_unsqueeze lib 0 a = Ok b"
    "tc_embed lib w b = Ok h"
    by (auto simp: embed_tokens_def and_then_Ok)
  have e: "embeds_rows lib bs" using assms(1) by (simp only: batch_laws_def)
  have "bs x = length ts \<and> (\<forall>i < length ts. \<exists>ai bi hi. tc_of_tokens lib [ts ! i] = Ok ai \<and> tc_unsqueeze lib 0 ai = Ok bi \<and>
         tc_embed lib w bi = Ok hi \<and> row lib i x hi)"
    using e abh assms(3) unfolding embeds_rows_def by blast
  then show ?thesis by (auto simp: embed_tokens_def w)
qed

lemma lm_output_row:
  assumes bl: "batch_laws lib bs" and ok: "lm_output lib m x = Ok z" and i: "i < bs x" "row lib i x xi"
  shows "bs z = bs x \<and> (\<exists>zi. lm_output lib m xi = Ok zi \<and> row lib i z zi)"
proof -
  from ok obtain nw hd b t e x1 x2 where *: "ql_out m = Some (nw, hd)" "tc_dims3 lib x = Ok (b, t, e)" "tc_norm lib nw x = Ok x1"
    "tc_last lib (pred_usize t) x1 = Ok x2" "tc_qmatmul lib hd x2 = Ok z"
    by (auto simp: lm_output_def and_then_Ok)
  have bw: "batchwise lib bs" and la: "rowwise lib bs (tc_last lib (pred_usize t))" using bl by (simp_all add: batch_laws_def)
  have nm: "rowwise lib bs (tc_norm lib nw)" and mm: "rowwise lib bs (tc_qmatmul lib hd)" using bw by (simp_all add: batchwise_def)
  have b1: "bs x1 = bs x" using rowwise_batch [OF nm *(3)] .
  have b2: "bs x2 = bs x" using rowwise_batch [OF la *(4)] b1 by simp
  have di: "tc_dims3 lib xi = Ok (1, t, e)" using dims3_row [OF bw *(2)] i by blast
  obtain x1i where x1i: "tc_norm lib nw xi = Ok x1i" "row lib i x1 x1i" using rowwise_row [OF nm *(3) i] by blast
  obtain x2i where x2i: "tc_last lib (pred_usize t) x1i = Ok x2i" "row lib i x2 x2i"
    using rowwise_row [OF la *(4) _ x1i(2)] i b1 by auto
  obtain zi where "tc_qmatmul lib hd x2i = Ok zi" "row lib i z zi" using rowwise_row [OF mm *(5) _ x2i(2)] i b2 by auto
  then show ?thesis using * di x1i x2i rowwise_batch [OF mm *(5)] b2 by (simp add: lm_output_def)
qed

text \<open>At position zero the cached entries are not read.\<close>

lemma block_forward_fresh:
  "block_forward_single lib m blk x 0 t mk s = (Ok y, s') \<Longrightarrow> block_forward_single lib m blk x 0 t mk s2 = (Ok y, s')"
  by (auto simp: block_forward_single_def grow_slot_def split: outcome.splits prod.splits option.splits)

lemma forward_blocks_fresh:
  "forward_blocks lib m 0 t mk bs ss x = (Ok y, ss') \<Longrightarrow> length ss = length bs \<Longrightarrow> length ss2 = length bs \<Longrightarrow>
    forward_blocks lib m 0 t mk bs ss2 x = (Ok y, ss')"
proof (induction bs arbitrary: ss ss2 x ss')
  case (Cons b bs)
  obtain s r s2 r2 where ss: "ss = s # r" "ss2 = s2 # r2"
    using Cons.prems(2,3) by (cases ss; cases ss2) auto
  with Cons.prems(1) obtain x1 s1 r1 where one: "block_forward_single lib m b x 0 t mk s = (Ok x1, s1)"
    and rest: "forward_blocks lib m 0 t mk bs r x1 = (Ok y, r1)" and ss': "ss' = s1 # r1"
    by (auto split: prod.splits outcome.splits)
  from Cons.IH [OF rest, of r2] Cons.prems ss have "forward_blocks lib m 0 t mk bs r2 x1 = (Ok y, r1)" by simp
  with block_forward_fresh [OF one, of s2] ss ss' show ?case by simp
qed simp

lemma forward_hidden_fresh:
  assumes "forward_hidden lib m h 0 kv = (Ok y, kv')"
  shows "forward_hidden lib m h 0 (seq_kv_clear kv) = (Ok y, kv')"
proof -
  from forward_hidden_Ok [OF assms] obtain b t e mk where *: "tc_dims3 lib h = Ok (b, t, e)" "causal_mask lib t 0 = Ok mk"
    "kv_tokens kv' = 0 + t" "length (kv_entries kv) = length (ql_blocks m)"
    "forward_blocks lib m 0 t mk (ql_blocks m) (kv_entries kv) h = (Ok y, kv_entries kv')"
    by blast
  have "forward_blocks lib m 0 t mk (ql_blocks m) (kv_entries (seq_kv_clear kv)) h = (Ok y, kv_entries kv')"
    using forward_blocks_fresh [OF *(5)] *(4) by simp
  with * show ?thesis by (simp add: forward_hidden_def)
qed

lemma batched_decode_Ok:
  assumes "batched_decode lib batch st = (Ok ls, st')" and "batch \<noteq> []"
  obtains taken taken' h x y z f where
    "take_kvs (ba_kvs st) batch = (Inr taken, ba_kvs st |` (- set (map fst batch)))"
    "embed_tokens lib (ba_model st) (map snd batch) = Ok h" "tc_transpose lib 0 1 h = Ok x"
    "qllama_decode_step lib (ba_model st) x (map kv_tokens taken) taken = (Ok y, taken')"
    "lm_output lib (ba_model st) y = Ok z" "tc_to_f32 lib z = Ok f" "tc_to_vec2 lib f = Ok ls"
    "st' = st\<lparr> ba_kvs := put_kvs (ba_kvs st |` (- set (map fst batch))) batch taken' \<rparr>"
proof -
  obtain r kvs where tk: "take_kvs (ba_kvs st) batch = (r, kvs)" by fastforce
  show thesis
  proof (cases r)
    case (Inl e)
    with tk assms show thesis by (simp add: batched_decode_def)
  next
    case (Inr taken)
    with tk take_kvs_Inr have kvs: "kvs = ba_kvs st |` (- set (map fst batch))" by blast
    let ?m = "ba_model st"
    obtain x where x: "and_then (embed_tokens lib ?m (map snd batch)) (\<lambda>h. map_err (internal ''decode reshape'') (tc_transpose lib 0 1 h)) = Ok x"
      using assms tk Inr by (auto simp: batched_decode_def Let_def split: outcome.splits)
    obtain r2 taken' where ds: "qllama_decode_step lib ?m x (map kv_tokens taken) taken = (r2, taken')" by fastforce
    show thesis
      using assms tk Inr kvs x ds that by (auto simp: batched_decode_def Let_def and_then_Ok)
  qed
qed

text \<open>C39: Decoding a batch gives every sequence in it the logits, and leaves it the KV cache, that a
  single-sequence forward pass of its next token alone would: the other sequences of the batch have
  no influence. The tensor library is assumed to act on the rows of a batch alone (\<open>batch_laws\<close>),
  adding a bias included when the bias is a vector, as those of the model are.
\<close>

theorem batched_decode_is_solo:
  assumes "batch_laws lib bs" and "\<forall>blk \<in> set (ql_blocks (ba_model st)). vector_biases lib blk"
    and "runtime_wf st" and "batched_decode lib batch st = (Ok ls, st')"
    and "i < length batch" and "batch ! i = (s, tok)"
  shows "length ls = length batch \<and> (\<exists>kv kv'. ba_kvs st s = Some kv \<and> ba_kvs st' s = Some kv' \<and>
    batched_prefill lib s [tok] (kv_tokens kv) True st = (Ok (Some (ls ! i)), st\<lparr> ba_kvs := (ba_kvs st)(s \<mapsto> kv') \<rparr>))"
proof -
  let ?m = "ba_model st"
  have "batch \<noteq> []" using assms(5) by auto
  with assms(4) obtain taken taken' h x y z f where
    tk: "take_kvs (ba_kvs st) batch = (Inr taken, ba_kvs st |` (- set (map fst batch)))"
    and emb: "embed_tokens lib ?m (map snd batch) = Ok h" and tr: "tc_transpose lib 0 1 h = Ok x"
    and ds: "qllama_decode_step lib ?m x (map kv_tokens taken) taken = (Ok y, taken')"
    and lm: "lm_output lib ?m y = Ok z" and rb: "tc_to_f32 lib z = Ok f" "tc_to_vec2 lib f = Ok ls"
    and st': "st' = st\<lparr> ba_kvs := put_kvs (ba_kvs st |` (- set (map fst batch))) batch taken' \<rparr>"
    by (rule batched_decode_Ok)
  note T = take_kvs_Inr [OF tk]
  have s: "fst (batch ! i) = s" "snd (batch ! i) = tok" using assms(6) by simp_all
  define kv where "kv = taken ! i"
  have i: "i < length taken" and kv: "ba_kvs st s = Some kv" using T assms(5) s by (auto simp: kv_def)
  have len: "length (kv_entries kv) = length (ql_blocks ?m)" using runtime_wfD [OF assms(3) kv] .
  have bw: "batchwise lib bs" using assms(1) by (simp add: batch_laws_def)
  obtain hi where hi: "embed_tokens lib ?m [tok] = Ok hi" "row lib i x hi"
    using embed_row [OF assms(1) emb tr, of i] assms(5) s by auto
  from qllama_decode_step_row [OF bw assms(2) ds i hi(2)] len i obtain yi where step: "length taken' = length taken" "bs y = length taken"
    "row lib i y yi" "forward_hidden lib ?m hi (kv_tokens kv) kv = (Ok yi, taken' ! i)"
    by (auto simp: kv_def)
  have "i < bs y" using step i by simp
  from lm_output_row [OF assms(1) lm this step(3)] obtain zi where zi: "bs z = bs y" "lm_output lib ?m yi = Ok zi" "row lib i z zi"
    by blast
  have rr: "reads_rows lib bs" using assms(1) by (simp only: batch_laws_def)
  have ls: "length ls = bs z" "\<exists>s g. tc_squeeze lib 0 zi = Ok s \<and> tc_to_f32 lib s = Ok g \<and> tc_to_vec1 lib g = Ok (ls ! i)"
    using rr rb zi \<open>i < bs y\<close> unfolding reads_rows_def by metis+
  then have row: "logits_row lib zi = Ok (ls ! i)" by (auto simp: logits_row_def)
  have fw: "forward_hidden lib ?m hi (kv_tokens kv) (if kv_tokens kv = 0 then seq_kv_clear kv else kv) = (Ok yi, taken' ! i)"
    using step(4) forward_hidden_fresh by (auto split: if_splits)
  have "batched_prefill lib s [tok] (kv_tokens kv) True st =
      (Ok (Some (ls ! i)), st\<lparr> ba_kvs := (ba_kvs st)(s \<mapsto> taken' ! i) \<rparr>)"
    using fw hi(1) zi(2) row kv by (auto simp: batched_prefill_def Let_def split: if_splits)
  moreover have "ba_kvs st' s = Some (taken' ! i)"
    using put_kvs_lookup [of batch taken' i] T step(1) assms(5) s by (simp add: st')
  ultimately show ?thesis using kv ls(1) zi(1) step(2) T by auto
qed

text \<open>
  A small tensor library that meets the laws: a tensor is the list of its rows, one number each, and
  concatenation along the positions adds up the history.
\<close>

definition demo_lib :: "(rat list, rat, rat, rat) candle" where
  "demo_lib = \<lparr>
     tc_dims3 = (\<lambda>x. Ok (length x, 1, 1)), tc_of_tokens = (\<lambda>ts. Ok (map (\<lambda>t. of_nat (unat t)) ts)), tc_of_f32s = Ok,
     tc_of_mask = (\<lambda>_ _ _. Ok []), tc_arange = (\<lambda>_ _. Ok []), tc_to_f32 = Ok, tc_unsqueeze = (\<lambda>_. Ok), tc_squeeze = (\<lambda>_. Ok),
     tc_reshape = (\<lambda>ds x. if ds \<noteq> [] \<and> hd ds = length x then Ok x else Err ''shape''),
     tc_transpose = (\<lambda>_ _. Ok), tc_contiguous = Ok, tc_t = Ok, tc_narrow = (\<lambda>_ _ _. Ok),
     tc_rows = (\<lambda>a b x. if b \<le> length x then Ok (take (b - a) (drop a x)) else Err ''range''),
     tc_last = (\<lambda>_. Ok), tc_at = (\<lambda>_ _. Ok), tc_rank = (\<lambda>_. 1),
     tc_cat = (\<lambda>ys d. if d = 0 then Ok (concat ys) else Ok (map2 (+) (hd ys) (ys ! 1))),
     tc_matmul = (\<lambda>x y. if length x = length y then Ok (map2 (*) x y) else Err ''shape''),
     tc_mul = (\<lambda>x y. if length x = length y then Ok (map2 (*) x y) else Err ''shape''),
     tc_add = (\<lambda>x y. if length x = length y then Ok (map2 (+) x y) else Err ''shape''),
     tc_broadcast_add = (\<lambda>x b. Ok (map ((+) (sum_list b)) x)),
     tc_scale = (\<lambda>_. Ok), tc_neg_inf = Ok [], tc_masked = (\<lambda>_ _. Ok), tc_softmax = Ok, tc_silu = Ok, tc_cos = Ok, tc_sin = Ok,
     tc_rope_i = (\<lambda>x _ _. Ok x), tc_rope = (\<lambda>x _ _. Ok x), tc_repeat_kv = (\<lambda>_. Ok),
     tc_embed = (\<lambda>w x. Ok (map ((*) (sum_list w)) x)), tc_norm = (\<lambda>n x. Ok (map ((*) n) x)),
     tc_qmatmul = (\<lambda>w x. Ok (map ((*) w) x)), tc_dequantize = (\<lambda>q. Ok [q]), tc_norm_from = (\<lambda>q _. Ok q),
     tc_qmatmul_from = Ok, tc_to_vec1 = Ok, tc_to_vec2 = (\<lambda>x. Ok (map (\<lambda>a. [a]) x)), tc_flatten = Ok,
     tc_of_vec3 = (\<lambda>vs _ _ _. Ok vs), tc_powf = (\<lambda>_ _. 1) \<rparr>"

lemma demo_row: "row demo_lib i x xi \<longleftrightarrow> i < length x \<and> xi = [x ! i]"
  by (auto simp: row_def demo_lib_def take_Suc hd_drop_conv_nth)

lemma demo_rowwise: "rowwise demo_lib length (\<lambda>x. Ok (map g x))"
  by (auto simp: rowwise_def demo_row)

lemma demo_rowwise_Ok: "rowwise demo_lib length Ok"
  using demo_rowwise [of id] by simp

lemma demo_rowwise2: "rowwise2 demo_lib length (\<lambda>x y. if length x = length y then Ok (map2 g x y) else Err e)"
  by (auto simp: rowwise2_def demo_row split: if_splits)

lemma demo_concat_ones: "\<forall>z \<in> set ys. length z = 1 \<Longrightarrow> length (concat ys) = length ys \<and> (i < length ys \<longrightarrow> [concat ys ! i] = ys ! i)"
proof (induction ys arbitrary: i)
  case (Cons y ys)
  then obtain a where "y = [a]" by (auto simp: length_Suc_conv)
  with Cons show ?case by (cases i) auto
qed simp

lemma demo_batchwise: "batchwise demo_lib length"
proof -
  have "rows_exist demo_lib length" by (auto simp: rows_exist_def demo_row) (auto simp: demo_lib_def)
  moreover have "row_shapes demo_lib length"
    using demo_concat_ones
    by (auto simp: row_shapes_def demo_row) (auto simp: demo_lib_def split: if_splits)
  ultimately show ?thesis
    using demo_rowwise demo_rowwise_Ok demo_rowwise2
    by (auto simp: batchwise_def keeps_batch_def demo_lib_def split: if_splits)
qed

lemma demo_batch_laws: "batch_laws demo_lib length"
proof -
  have "embeds_rows demo_lib length" by (auto simp: embeds_rows_def demo_row) (auto simp: demo_lib_def)
  moreover have "reads_rows demo_lib length" by (auto simp: reads_rows_def demo_row) (auto simp: demo_lib_def)
  moreover have "rowwise demo_lib length (tc_last demo_lib k)" for k using demo_rowwise_Ok by (simp add: demo_lib_def)
  ultimately show ?thesis using demo_batchwise by (simp add: batch_laws_def)
qed

definition demo_cfg :: QLlamaConfig where
  "demo_cfg = \<lparr> qc_architecture = ''llama'', qc_n_layers = 1, qc_n_head = 1, qc_n_kv_head = 1, qc_head_dim = 1,
     qc_embedding_length = 1, qc_rms_eps = 0, qc_rope_freq_base = 1, qc_rope_dim = 1, qc_context_length = 16,
     qc_qkv_bias = False, qc_rope_style = Interleaved \<rparr>"

definition demo_block :: "(rat list, rat, rat) Block" where
  "demo_block = \<lparr> bl_attn_norm = 1, bl_wq = \<lparr> qp_weight = 1, qp_bias = None \<rparr>, bl_wk = \<lparr> qp_weight = 2, qp_bias = None \<rparr>,
     bl_wv = \<lparr> qp_weight = 3, qp_bias = Some [1] \<rparr>, bl_wo = 1, bl_ffn_norm = 1, bl_w_gate = 1, bl_w_down = 1, bl_w_up = 1 \<rparr>"

definition demo_model :: "(rat list, rat, rat) QLlama" where
  "demo_model = \<lparr> ql_cfg = demo_cfg, ql_range = \<lparr> lr_start = 0, lr_end = 1 \<rparr>, ql_embed = Some [2], ql_blocks = [demo_block],
     ql_out = Some (1, 1), ql_cos = [], ql_sin = [], ql_neg_inf = [] \<rparr>"

definition demo_runtime :: "(rat list, rat, rat) BatchedLlama" where
  "demo_runtime = \<lparr> ba_model = demo_model,
     ba_kvs = [1 \<mapsto> \<lparr> kv_entries = [Some ([4], [7])], kv_tokens = 1 \<rparr>, 2 \<mapsto> \<lparr> kv_entries = [Some ([1], [2])], kv_tokens = 2 \<rparr>],
     ba_max_seq_len = 16, ba_max_batch = 4 \<rparr>"

lemma demo_decode: "\<exists>ls st'. batched_decode demo_lib [(1, 1), (2, 3)] demo_runtime = (Ok ls, st')"
  by (simp add: batched_decode_def demo_runtime_def demo_model_def demo_block_def demo_cfg_def embed_tokens_def qllama_decode_step_def
      block_forward_batch_def project_def qkv_forward_def heads_def attend_row_def rope_apply_def grow_slot_def attend_def
      merge_heads_def mlp_def lm_output_def demo_lib_def Let_def pred_usize_def)

theorem batched_decode_is_solo_witness:
  "\<exists>ls st' kv'. batched_decode demo_lib [(1, 1), (2, 3)] demo_runtime = (Ok ls, st') \<and> ba_kvs st' 2 = Some kv' \<and>
    batched_prefill demo_lib 2 [3] 2 True demo_runtime =
      (Ok (Some (ls ! 1)), demo_runtime\<lparr> ba_kvs := (ba_kvs demo_runtime)(2 \<mapsto> kv') \<rparr>)"
proof -
  have wf: "runtime_wf demo_runtime" by (simp add: runtime_wf_def demo_runtime_def demo_model_def)
  have vb: "\<forall>blk \<in> set (ql_blocks (ba_model demo_runtime)). vector_biases demo_lib blk"
    by (simp add: demo_runtime_def demo_model_def demo_block_def demo_lib_def vector_biases_def vector_bias_def)
  have two: "ba_kvs demo_runtime 2 = Some \<lparr> kv_entries = [Some ([1], [2])], kv_tokens = 2 \<rparr>" by (simp add: demo_runtime_def)
  obtain ls st' where d: "batched_decode demo_lib [(1, 1), (2, 3)] demo_runtime = (Ok ls, st')" using demo_decode by blast
  from batched_decode_is_solo [OF demo_batch_laws vb wf d, of 1 2 3] two d show ?thesis by auto
qed

section \<open>The contract of the trait\<close>

text \<open>
  \<open>held\<close> is the number of positions cached for a sequence. A prefill continues exactly where
  the cache ends or starts over; a decode names only sequences with a cache; no call
  on one sequence brings another one to life, and a dropped sequence is gone. The runtimes that take a
  token apart from its tensor add exactly one position per decode.
\<close>

datatype runtime_op = OpPrefill seq_id "u32 list" nat bool | OpDecode "(seq_id \<times> u32) list" | OpDrop seq_id

locale batch_runtime =
  fixes prefill :: "seq_id \<Rightarrow> u32 list \<Rightarrow> nat \<Rightarrow> bool \<Rightarrow> 'm \<Rightarrow> (Error, f32 list option) outcome \<times> 'm"
    and decode :: "(seq_id \<times> u32) list \<Rightarrow> 'm \<Rightarrow> (Error, f32 list list) outcome \<times> 'm"
    and drop_seq :: "seq_id \<Rightarrow> 'm \<Rightarrow> 'm"
    and held_at :: "'m \<Rightarrow> seq_id \<Rightarrow> nat option"
  assumes prefill_pos: "prefill s ts p w m = (Ok r, m') \<Longrightarrow> p = 0 \<or> held_at m s = Some p"
    and prefill_other: "prefill s ts p w m = (out, m') \<Longrightarrow> s' \<noteq> s \<Longrightarrow> held_at m' s' = held_at m s' \<or> held_at m' s' = None"
    and decode_held: "decode b m = (Ok ls, m') \<Longrightarrow> s \<in> fst ` set b \<Longrightarrow> held_at m s \<noteq> None \<and> held_at m' s \<noteq> None"
    and decode_fresh: "decode b m = (out', m') \<Longrightarrow> held_at m s = None \<Longrightarrow> held_at m' s = None"
    and drop_pos: "held_at (drop_seq s m) s' = (if s' = s then None else held_at m s')"
begin

fun run_op :: "runtime_op \<Rightarrow> 'm \<Rightarrow> 'm" where
  "run_op (OpPrefill s ts p w) m = snd (prefill s ts p w m)"
| "run_op (OpDecode b) m = snd (decode b m)"
| "run_op (OpDrop s) m = drop_seq s m"

text \<open>Whether the calls contain a prefill of the sequence that no later drop undoes.\<close>

fun started :: "seq_id \<Rightarrow> runtime_op \<Rightarrow> bool \<Rightarrow> bool" where
  "started s (OpPrefill s' ts p w) b \<longleftrightarrow> b \<or> s' = s"
| "started s (OpDecode _) b \<longleftrightarrow> b"
| "started s (OpDrop s') b \<longleftrightarrow> b \<and> s' \<noteq> s"

lemma run_op_held: "held_at (run_op op m) s \<noteq> None \<Longrightarrow> started s op (held_at m s \<noteq> None)"
proof (cases op)
  case (OpPrefill s' ts p w)
  moreover assume "held_at (run_op op m) s \<noteq> None"
  ultimately show ?thesis
    using prefill_other [of s' ts p w m "fst (prefill s' ts p w m)" "snd (prefill s' ts p w m)" s]
    by (cases "s = s'") (auto simp del: not_None_eq)
next
  case (OpDecode b)
  moreover assume "held_at (run_op op m) s \<noteq> None"
  ultimately show ?thesis using decode_fresh [of b m "fst (decode b m)" "snd (decode b m)" s]
    by (cases "held_at m s") auto
next
  case (OpDrop s')
  moreover assume "held_at (run_op op m) s \<noteq> None"
  ultimately show ?thesis by (auto simp: drop_pos split: if_splits)
qed

lemma started_mono: "(b \<longrightarrow> c) \<Longrightarrow> started s op b \<Longrightarrow> started s op c"
  by (cases op) auto

lemma run_held: "held_at (fold run_op ops m) s \<noteq> None \<Longrightarrow> fold (started s) ops (held_at m s \<noteq> None)"
proof (induction ops rule: rev_induct)
  case (snoc op ops)
  then have "started s op (held_at (fold run_op ops m) s \<noteq> None)" using run_op_held by simp
  from started_mono [OF impI [OF snoc.IH] this] show ?case by simp
qed simp

text \<open>A decode that succeeds names only sequences that were prefilled and not dropped since.\<close>

lemma decode_needs_prefill:
  assumes "\<And>s. held_at m s = None" and "decode b (fold run_op ops m) = (Ok ls, m')" and "s \<in> fst ` set b"
  shows "fold (started s) ops False"
  using run_held [of ops m s] decode_held [OF assms(2,3)] assms(1) by auto

end

locale stepping_runtime = batch_runtime +
  assumes decode_adds: "decode b m = (Ok ls, m') \<Longrightarrow> s \<in> fst ` set b \<Longrightarrow> \<exists>n. held_at m s = Some n \<and> held_at m' s = Some (n + 1)"
begin

fun decodes :: "(seq_id \<times> u32) list list \<Rightarrow> 'a \<Rightarrow> 'a option" where
  "decodes [] m = Some m"
| "decodes (b # bs) m = (case decode b m of (Ok _, m') \<Rightarrow> decodes bs m' | _ \<Rightarrow> None)"

lemma decodes_held:
  "decodes bs m = Some m' \<Longrightarrow> \<forall>b \<in> set bs. s \<in> fst ` set b \<Longrightarrow> held_at m s = Some n \<Longrightarrow> held_at m' s = Some (n + length bs)"
proof (induction bs arbitrary: m n)
  case (Cons b bs)
  then obtain ls m1 where d: "decode b m = (Ok ls, m1)" "decodes bs m1 = Some m'" by (auto split: prod.splits outcome.splits)
  with decode_adds [OF d(1), of s] Cons.prems have "held_at m1 s = Some (n + 1)" by auto
  from Cons.IH [OF d(2) _ this] Cons.prems(2) show ?case by simp
qed simp

end

definition batched_held :: "('t, 'w, 'n) BatchedLlama \<Rightarrow> seq_id \<Rightarrow> nat option" where
  "batched_held st s = map_option kv_tokens (ba_kvs st s)"

definition sequential_held :: "'a SequentialModel \<Rightarrow> seq_id \<Rightarrow> nat option" where
  "sequential_held st s = (case se_resident st of Some (s', n) \<Rightarrow> if s' = s then Some n else None | None \<Rightarrow> None)"

lemma take_kvs_None: "take_kvs kvs batch = (r, kvs') \<Longrightarrow> kvs s = None \<Longrightarrow> kvs' s = None"
proof (induction batch arbitrary: kvs r)
  case (Cons b batch)
  obtain seq tok where b: "b = (seq, tok)" by fastforce
  show ?case
  proof (cases "kvs seq")
    case None
    with Cons.prems b show ?thesis by simp
  next
    case (Some kv)
    obtain r2 where "take_kvs (kvs(seq := None)) batch = (r2, kvs')"
      using Cons.prems(1) b Some by (auto split: prod.splits sum.splits)
    from Cons.IH [OF this] Cons.prems(2) show ?thesis by simp
  qed
qed simp

lemma batched_prefill_frame:
  assumes "batched_prefill lib s ts p w st = (out, st')" and "s' \<noteq> s"
  shows "ba_kvs st' s' = ba_kvs st s'"
  using assms by (auto simp: batched_prefill_def Let_def split: outcome.splits prod.splits if_splits)

lemma batched_prefill_at:
  assumes "batched_prefill lib s ts p w st = (Ok r, st')"
  shows "p = 0 \<or> batched_held st s = Some p"
  using assms
  by (auto simp: batched_prefill_def Let_def batched_held_def new_kv_def seq_kv_new_def split: option.splits if_splits)

lemma batched_decode_fresh:
  assumes "batched_decode lib batch st = (out, st')" and "ba_kvs st s = None"
  shows "ba_kvs st' s = None"
proof (cases "batch = []")
  case False
  obtain r kvs where tk: "take_kvs (ba_kvs st) batch = (r, kvs)" by fastforce
  have none: "kvs s = None" using take_kvs_None [OF tk assms(2)] .
  show ?thesis
  proof (cases r)
    case (Inl e)
    with assms tk False none show ?thesis by (auto simp: batched_decode_def)
  next
    case (Inr taken)
    have "\<forall>i < length batch. ba_kvs st (fst (batch ! i)) = Some (taken ! i)"
      using take_kvs_Inr [of "ba_kvs st" batch taken kvs] tk Inr by simp
    then have "s \<noteq> fst (batch ! i)" if "i < length batch" for i using that assms(2) by auto
    then have "s \<notin> set (map fst batch)" by (fastforce simp: in_set_conv_nth)
    then have "put_kvs kvs batch t s = None" for t using put_kvs_other [of s batch kvs t] none by simp
    with assms tk False Inr show ?thesis
      by (auto simp: batched_decode_def Let_def split: outcome.splits prod.splits)
  qed
qed (use assms in \<open>simp add: batched_decode_def\<close>)

lemma attend_rows_tokens:
  "attend_rows lib m layer q k v i ps ks = (r, ks') \<Longrightarrow> map kv_tokens ks' = map kv_tokens ks"
proof (induction ks arbitrary: i r ks')
  case (Cons kv ks)
  obtain r1 kv1 where one: "attend_row lib m layer q k v i (ps ! i) kv = (r1, kv1)" by fastforce
  then have t: "kv_tokens kv1 = kv_tokens kv"
    by (auto simp: attend_row_def split: outcome.splits prod.splits if_splits)
  obtain r2 ks2 where rest: "attend_rows lib m layer q k v (i + 1) ps ks = (r2, ks2)" by fastforce
  from Cons.prems one rest t Cons.IH [OF rest] show ?case
    by (auto split: outcome.splits if_splits)
qed simp

lemma batch_blocks_tokens:
  "batch_blocks lib m ps l blks z ks = (r, ks') \<Longrightarrow> map kv_tokens ks' = map kv_tokens ks"
proof (induction blks arbitrary: l z ks)
  case (Cons blk blks)
  obtain r1 ks1 where one: "block_forward_batch lib m blk l z ps ks = (r1, ks1)" by fastforce
  then have "map kv_tokens ks1 = map kv_tokens ks"
    by (auto simp: block_forward_batch_def split: outcome.splits prod.splits dest: attend_rows_tokens)
  with Cons.prems one Cons.IH show ?case by (auto split: outcome.splits)
qed simp

lemma qllama_decode_step_tokens:
  assumes "qllama_decode_step lib m x positions kvs = (Ok y, kvs')"
  shows "length kvs' = length kvs \<and> (\<forall>i < length kvs. kv_tokens (kvs' ! i) = kv_tokens (kvs ! i) + 1)"
proof -
  from assms obtain ks where bb: "batch_blocks lib m positions 0 (ql_blocks m) x kvs = (Ok y, ks)"
    and kvs': "kvs' = map (\<lambda>kv. kv\<lparr> kv_tokens := kv_tokens kv + 1 \<rparr>) ks"
    by (auto simp: qllama_decode_step_def split: outcome.splits prod.splits if_splits)
  have eq: "map kv_tokens ks = map kv_tokens kvs" using batch_blocks_tokens [OF bb] .
  then have "length ks = length kvs" by (rule map_eq_imp_length_eq)
  moreover from this have "kv_tokens (ks ! i) = kv_tokens (kvs ! i)" if "i < length kvs" for i
    using that eq by (metis nth_map)
  ultimately show ?thesis by (simp add: kvs')
qed

lemma batched_decode_adds:
  assumes d: "batched_decode lib b m = (Ok ls, m')" and s: "s \<in> fst ` set b"
  shows "\<exists>n. batched_held m s = Some n \<and> batched_held m' s = Some (n + 1)"
proof -
  from s have ne: "b \<noteq> []" by auto
  from d ne obtain taken taken' h x y z f where
    tk: "take_kvs (ba_kvs m) b = (Inr taken, ba_kvs m |` (- set (map fst b)))"
    and ds: "qllama_decode_step lib (ba_model m) x (map kv_tokens taken) taken = (Ok y, taken')"
    and m': "m' = m\<lparr> ba_kvs := put_kvs (ba_kvs m |` (- set (map fst b))) b taken' \<rparr>"
    by (rule batched_decode_Ok)
  note T = take_kvs_Inr [OF tk] and D = qllama_decode_step_tokens [OF ds]
  from s obtain i where i: "i < length b" "fst (b ! i) = s" by (auto simp: in_set_conv_nth)
  have "ba_kvs m s = Some (taken ! i)" "ba_kvs m' s = Some (taken' ! i)"
    using T i put_kvs_lookup [of b taken' i] D by (auto simp: m')
  then show ?thesis
    using D T i by (auto simp: batched_held_def)
qed

interpretation ba: stepping_runtime "batched_prefill lib" "batched_decode lib" batched_drop_seq batched_held
  for lib :: "('t, 'q, 'w, 'n) candle"
proof unfold_locales
  fix s ts p w m r m'
  assume "batched_prefill lib s ts p w m = (Ok r, m')"
  then show "p = 0 \<or> batched_held m s = Some p" by (rule batched_prefill_at)
next
  fix s ts p w m out m' s'
  assume "batched_prefill lib s ts p w m = (out, m')" "s' \<noteq> (s :: seq_id)"
  then show "batched_held m' s' = batched_held m s' \<or> batched_held m' s' = None"
    using batched_prefill_frame [of lib s ts p w m out m' s'] by (simp add: batched_held_def)
next
  fix b m ls m' s
  assume "batched_decode lib b m = (Ok ls, m')" "s \<in> fst ` set b"
  then show "batched_held m s \<noteq> None \<and> batched_held m' s \<noteq> None"
    and "\<exists>n. batched_held m s = Some n \<and> batched_held m' s = Some (n + 1)" using batched_decode_adds by fastforce+
next
  fix b m out' m' s
  assume "batched_decode lib b m = (out', m')" "batched_held m s = None"
  then show "batched_held m' s = None"
    using batched_decode_fresh [of lib b m out' m' s] by (simp add: batched_held_def)
next
  fix s m s'
  show "batched_held (batched_drop_seq s m) s' = (if s' = s then None else batched_held m s')"
    by (simp add: batched_held_def batched_drop_seq_def)
qed

interpretation se: stepping_runtime "sequential_prefill lib sk" "sequential_decode lib sk" sequential_drop_seq sequential_held
  for lib :: "('t, 'q, 'w, 'n) candle" and sk :: "('a, 't) stock"
proof unfold_locales
  fix s ts p w m r m'
  assume "sequential_prefill lib sk s ts p w m = (Ok r, m')"
  then show "p = 0 \<or> sequential_held m s = Some p"
    by (auto simp: sequential_prefill_def sequential_held_def Let_def split: if_splits)
next
  fix s ts p w m out m' s'
  assume "sequential_prefill lib sk s ts p w m = (out, m')" "s' \<noteq> (s :: seq_id)"
  then show "sequential_held m' s' = sequential_held m s' \<or> sequential_held m' s' = None"
    by (auto simp: sequential_prefill_def sequential_held_def Let_def split: if_splits outcome.splits prod.splits)
next
  fix b m ls m' s
  assume "sequential_decode lib sk b m = (Ok ls, m')" "s \<in> fst ` set b"
  then show "\<exists>n. sequential_held m s = Some n \<and> sequential_held m' s = Some (n + 1)"
    by (auto simp: sequential_decode_def sequential_held_def split: list.splits if_splits outcome.splits prod.splits option.splits)
  then show "sequential_held m s \<noteq> None \<and> sequential_held m' s \<noteq> None" by auto
next
  fix b m out' m' s
  assume "sequential_decode lib sk b m = (out', m')" "sequential_held m s = None"
  then show "sequential_held m' s = None"
    by (auto simp: sequential_decode_def sequential_held_def split: list.splits if_splits outcome.splits prod.splits option.splits)
next
  fix s m s'
  show "sequential_held (sequential_drop_seq s m) s' = (if s' = s then None else sequential_held m s')"
    by (auto simp: sequential_held_def sequential_drop_seq_def split: option.splits)
qed

end
