(* ===== verification/Cgn_Pipeline.thy ===== *)
theory Cgn_Pipeline
  imports Cgn_Runtime
begin

text \<open>
  Distributed layer-pipeline inference (\<open>cgn-infer/src/pipeline/mod.rs\<close>): the activation
  codec, the worker's step, the coordinator's runtime \<open>PipelinedModel\<close>, and the assembly of a
  pipeline from a file. Both ends of the gRPC stream are in the model: the coordinator's state
  holds the workers, and what the network does with a message is the parameter \<open>net\<close>. The
  half-precision conversions are the parameter \<open>hf\<close>. The theorem of this theory is that a
  pipeline over exact activations computes what the single-node runtime computes.
\<close>

section \<open>Activation codec\<close>

datatype Encoding = EncF16 | EncInt8

datatype ActivationEncoding = WireUnspecified | WireF16 | WireInt8

fun wire_encoding :: "Encoding \<Rightarrow> ActivationEncoding" where
  "wire_encoding EncF16 = WireF16"
| "wire_encoding EncInt8 = WireInt8"

text \<open>The \<open>i32\<close> of the message and its conversion; unknown values read as unspecified.\<close>

fun encoding_to_i32 :: "ActivationEncoding \<Rightarrow> int" where
  "encoding_to_i32 WireUnspecified = 0"
| "encoding_to_i32 WireF16 = 1"
| "encoding_to_i32 WireInt8 = 2"

definition encoding_of_i32 :: "int \<Rightarrow> ActivationEncoding" where
  "encoding_of_i32 i = (if i = 1 then WireF16 else if i = 2 then WireInt8 else WireUnspecified)"

record half =
  hf_to_le :: "f32 \<Rightarrow> u8 \<times> u8"
  hf_of_le :: "u8 \<times> u8 \<Rightarrow> f32"

text \<open>\<open>f32::round\<close> rounds half-way cases away from zero.\<close>

definition round_away :: "rat \<Rightarrow> int" where
  "round_away x = (if 0 \<le> x then \<lfloor>x + 1 / 2\<rfloor> else - \<lfloor>- x + 1 / 2\<rfloor>)"

definition int8_scale_of :: "f32 list \<Rightarrow> f32" where
  "int8_scale_of values =
     (let mx = fold (\<lambda>v m. max m \<bar>v\<bar>) values 0 in if mx > 0 then fdiv mx 127 else 1)"

definition int8_byte :: "f32 \<Rightarrow> f32 \<Rightarrow> u8" where
  "int8_byte scale v = word_of_int (max (- 127) (min 127 (round_away (fdiv v scale))))"

definition int8_value :: "f32 \<Rightarrow> u8 \<Rightarrow> f32" where
  "int8_value scale b = fmul (of_int (sint b)) scale"

definition encode_activation :: "('t, 'q, 'w, 'n) candle \<Rightarrow> half \<Rightarrow> 't \<Rightarrow> Encoding \<Rightarrow> (Error, bytes \<times> f32) outcome" where
  "encode_activation lib hf t enc =
     and_then (map_err (internal ''activation readback'')
       (and_then (tc_flatten lib t) (\<lambda>t. and_then (tc_to_f32 lib t) (tc_to_vec1 lib)))) (\<lambda>values.
     case enc of
       EncF16 \<Rightarrow> Ok (concat (map (\<lambda>v. case hf_to_le hf v of (a, b) \<Rightarrow> [a, b]) values), 0)
     | EncInt8 \<Rightarrow> let scale = int8_scale_of values in Ok (map (int8_byte scale) values, scale))"

text \<open>\<open>chunks_exact(2)\<close>.\<close>

fun pairs_of :: "bytes \<Rightarrow> (u8 \<times> u8) list" where
  "pairs_of (a # b # rest) = (a, b) # pairs_of rest"
| "pairs_of _ = []"

definition decode_activation :: "('t, 'q, 'w, 'n) candle \<Rightarrow> half \<Rightarrow> bytes \<Rightarrow> ActivationEncoding \<Rightarrow> f32 \<Rightarrow> nat \<Rightarrow> nat \<Rightarrow> (Error, 't) outcome" where
  "decode_activation lib hf data encoding int8_scale seq_len hidden =
     (let expect = seq_len * hidden; expect2 = expect * 2 mod 2 ^ 64 in
      and_then
        (case encoding of
           WireF16 \<Rightarrow>
             if length data \<noteq> expect2
             then Err (InvalidArgument (''f16 activation payload is '' @ show_nat (length data) @ '' bytes, expected '' @ show_nat expect2))
             else Ok (map (hf_of_le hf) (pairs_of data))
         | WireInt8 \<Rightarrow>
             if length data \<noteq> expect
             then Err (InvalidArgument (''int8 activation payload is '' @ show_nat (length data) @ '' bytes, expected '' @ show_nat expect))
             else Ok (map (int8_value int8_scale) data)
         | WireUnspecified \<Rightarrow> Err (InvalidArgument ''unspecified activation encoding''))
        (\<lambda>values. map_err (internal ''activation tensor'') (tc_of_vec3 lib values 1 seq_len hidden)))"

section \<open>Worker\<close>

record ActivationChunk =
  ac_request_id :: nat
  ac_seq_id :: seq_id
  ac_index_pos :: nat
  ac_seq_len :: nat
  ac_hidden :: nat
  ac_encoding :: int
  ac_data :: bytes
  ac_int8_scale :: f32
  ac_error :: string

record ('t, 'w, 'n) WorkerState =
  wk_model :: "('t, 'w, 'n) QLlama"
  wk_kvs :: "seq_id \<rightharpoonup> 't SeqKv"
  wk_model_name :: string

definition worker_step :: "('t, 'q, 'w, 'n) candle \<Rightarrow> half \<Rightarrow> ActivationChunk \<Rightarrow> Encoding \<Rightarrow> ('t, 'w, 'n) WorkerState
    \<Rightarrow> (Error, ActivationChunk) outcome \<times> ('t, 'w, 'n) WorkerState" where
  "worker_step lib hf chunk enc_out st =
     (case decode_activation lib hf (ac_data chunk) (encoding_of_i32 (ac_encoding chunk)) (ac_int8_scale chunk)
             (ac_seq_len chunk) (ac_hidden chunk) of
        Panic \<Rightarrow> (Panic, st)
      | Err e \<Rightarrow> (Err e, st)
      | Ok hidden \<Rightarrow>
          let kv0 = case_option (new_kv (wk_model st)) id (wk_kvs st (ac_seq_id chunk));
              kv = (if ac_index_pos chunk = 0 then seq_kv_clear kv0 else kv0);
              put = (\<lambda>kv. st\<lparr> wk_kvs := (wk_kvs st)(ac_seq_id chunk \<mapsto> kv) \<rparr>)
          in if kv_tokens kv \<noteq> ac_index_pos chunk
             then (Err (InvalidArgument (''seq '' @ show_nat (ac_seq_id chunk) @ '': worker KV holds '' @ show_nat (kv_tokens kv)
                     @ '' positions but coordinator sent index_pos '' @ show_nat (ac_index_pos chunk))), put kv)
             else
               (case forward_hidden lib (wk_model st) hidden (ac_index_pos chunk) kv of
                  (r, kv') \<Rightarrow>
                    (and_then r (\<lambda>out. and_then (encode_activation lib hf out enc_out) (\<lambda>(data, scale).
                       Ok \<lparr> ac_request_id = ac_request_id chunk, ac_seq_id = ac_seq_id chunk, ac_index_pos = ac_index_pos chunk,
                            ac_seq_len = ac_seq_len chunk, ac_hidden = ac_hidden chunk,
                            ac_encoding = encoding_to_i32 (wire_encoding enc_out), ac_data = data, ac_int8_scale = scale,
                            ac_error = [] \<rparr>)), put kv')))"

text \<open>
  A failed step is answered with its error text. A panic ends the stream for good and poisons the
  lock around the state, so what it leaves there is not read again.
\<close>

definition worker_reply :: "(status \<Rightarrow> string) \<Rightarrow> ('t, 'q, 'w, 'n) candle \<Rightarrow> half \<Rightarrow> ActivationChunk \<Rightarrow> Encoding \<Rightarrow> ('t, 'w, 'n) WorkerState
    \<Rightarrow> ActivationChunk option \<times> ('t, 'w, 'n) WorkerState" where
  "worker_reply show_status lib hf chunk enc_out st =
     (case worker_step lib hf chunk enc_out st of
        (Ok c, st') \<Rightarrow> (Some c, st')
      | (Err e, st') \<Rightarrow>
          (Some \<lparr> ac_request_id = ac_request_id chunk, ac_seq_id = ac_seq_id chunk, ac_index_pos = 0, ac_seq_len = 0, ac_hidden = 0,
                  ac_encoding = 0, ac_data = [], ac_int8_scale = 0, ac_error = display show_status e \<rparr>, st')
      | (Panic, st') \<Rightarrow> (None, st'))"

definition reset_sequence :: "seq_id \<Rightarrow> ('t, 'w, 'n) WorkerState \<Rightarrow> ('t, 'w, 'n) WorkerState" where
  "reset_sequence seq st = st\<lparr> wk_kvs := (wk_kvs st)(seq := None) \<rparr>"

record WorkerInfo =
  wi_model :: string
  wi_architecture :: string
  wi_layer_start :: nat
  wi_layer_end :: nat
  wi_total_layers :: nat
  wi_ready :: bool

definition as_u32 :: "nat \<Rightarrow> nat" where
  "as_u32 n = n mod 2 ^ 32"

definition worker_info :: "('t, 'w, 'n) WorkerState \<Rightarrow> WorkerInfo" where
  "worker_info st =
     \<lparr> wi_model = wk_model_name st, wi_architecture = qc_architecture (ql_cfg (wk_model st)),
       wi_layer_start = as_u32 (lr_start (ql_range (wk_model st))), wi_layer_end = as_u32 (lr_end (ql_range (wk_model st))),
       wi_total_layers = as_u32 (qc_n_layers (ql_cfg (wk_model st))), wi_ready = True \<rparr>"

definition run_worker_state :: "('t, 'q, 'w, 'n) candle \<Rightarrow> 'q Gguf \<Rightarrow> string \<Rightarrow> LayerRange \<Rightarrow> (Error, ('t, 'w, 'n) WorkerState) outcome" where
  "run_worker_state lib g name layers =
     and_then (qllama_load lib g layers parts_middle) (\<lambda>m.
     Ok \<lparr> wk_model = m, wk_kvs = Map.empty, wk_model_name = name \<rparr>)"

section \<open>Coordinator\<close>

text \<open>
  A connected worker: its endpoint, its layer range as reported, and the worker at the other end.
  \<open>net req j\<close> says what happens to message \<open>req\<close> on link \<open>j\<close>: it is answered, the stream is
  closed before it is sent, or the answer is lost (\<open>True\<close> if the worker has processed it).
\<close>

record ('t, 'w, 'n) WorkerLink =
  wl_endpoint :: string
  wl_range :: LayerRange
  wl_enc_out :: Encoding
  wl_worker :: "('t, 'w, 'n) WorkerState"

datatype link = LinkUp | LinkClosed | LinkRecv bool string | LinkEnd bool

record ('t, 'w, 'n) PipelinedModel =
  pm_head :: "('t, 'w, 'n) QLlama"
  pm_kvs :: "seq_id \<rightharpoonup> 't SeqKv"
  pm_workers :: "('t, 'w, 'n) WorkerLink list"
  pm_encoding :: Encoding
  pm_max_seq_len :: nat
  pm_next_request_id :: nat

record pipe_env =
  pe_half :: half
  pe_net :: "nat \<Rightarrow> nat \<Rightarrow> link"
  pe_reset :: "seq_id \<Rightarrow> nat \<Rightarrow> bool"
  pe_status :: "status \<Rightarrow> string"

fun connect_all :: "(string \<Rightarrow> (Error, ('t, 'w, 'n) WorkerLink) outcome) \<Rightarrow> string list \<Rightarrow> (Error, ('t, 'w, 'n) WorkerLink list) outcome" where
  "connect_all dial [] = Ok []"
| "connect_all dial (ep # eps) = and_then (dial ep) (\<lambda>w. and_then (connect_all dial eps) (\<lambda>ws. Ok (w # ws)))"

text \<open>
  \<open>connect_worker\<close>: \<open>reach ep\<close> is the worker behind the endpoint, or the error of the
  channel or of the \<open>Info\<close> call, whose answer gives the range; \<open>fwd ep\<close> is the outcome of opening the
  activation stream.
\<close>

definition connect_worker :: "(string \<Rightarrow> (Error, Encoding \<times> ('t, 'w, 'n) WorkerState) outcome) \<Rightarrow> (string \<Rightarrow> (Error, unit) outcome) \<Rightarrow> string
    \<Rightarrow> (Error, ('t, 'w, 'n) WorkerLink) outcome" where
  "connect_worker reach fwd ep =
     and_then (reach ep) (\<lambda>(enc, w).
     and_then (of_result (layer_range_new (wi_layer_start (worker_info w)) (wi_layer_end (worker_info w)))) (\<lambda>rng.
     and_then (fwd ep) (\<lambda>_.
     Ok \<lparr> wl_endpoint = ep, wl_range = rng, wl_enc_out = enc, wl_worker = w \<rparr>)))"

definition pipeline_connect :: "('t, 'q, 'w, 'n) candle \<Rightarrow> (string \<Rightarrow> (Error, Encoding \<times> ('t, 'w, 'n) WorkerState) outcome)
    \<Rightarrow> (string \<Rightarrow> (Error, unit) outcome) \<Rightarrow> 'q Gguf \<Rightarrow> nat \<Rightarrow> LayerRange \<Rightarrow> string list \<Rightarrow> Encoding \<Rightarrow> (Error, ('t, 'w, 'n) PipelinedModel) outcome" where
  "pipeline_connect lib reach fwd g ctx layers endpoints enc =
     (if lr_start layers \<noteq> 0
      then Err (Config (''coordinator layer range must start at 0, got '' @ show_range layers))
      else
        and_then (qllama_load lib g layers parts_full) (\<lambda>head.
        and_then (connect_all (connect_worker reach fwd) endpoints) (\<lambda>workers.
        and_then (of_result (validate_coverage (qc_n_layers (ql_cfg head)) (layers # map wl_range workers))) (\<lambda>_.
        Ok \<lparr> pm_head = head, pm_kvs = Map.empty, pm_workers = workers, pm_encoding = enc,
             pm_max_seq_len = max (min ctx (qc_context_length (ql_cfg head))) 1, pm_next_request_id = 1 \<rparr>))))"

fun remote_loop :: "('t, 'q, 'w, 'n) candle \<Rightarrow> pipe_env \<Rightarrow> Encoding \<Rightarrow> nat \<Rightarrow> nat \<Rightarrow> seq_id \<Rightarrow> nat \<Rightarrow> nat \<Rightarrow> nat
    \<Rightarrow> ('t, 'w, 'n) WorkerLink list \<Rightarrow> 't \<Rightarrow> (Error, 't) outcome \<times> ('t, 'w, 'n) WorkerLink list" where
  "remote_loop lib env enc hid req seq pos len j [] cur = (Ok cur, [])"
| "remote_loop lib env enc hid req seq pos len j (w # ws) cur =
     (case encode_activation lib (pe_half env) cur enc of
        Panic \<Rightarrow> (Panic, w # ws)
      | Err e \<Rightarrow> (Err e, w # ws)
      | Ok (data, scale) \<Rightarrow>
          let chunk = \<lparr> ac_request_id = req, ac_seq_id = seq, ac_index_pos = as_u32 pos, ac_seq_len = as_u32 len,
                        ac_hidden = as_u32 hid, ac_encoding = encoding_to_i32 (wire_encoding enc), ac_data = data,
                        ac_int8_scale = scale, ac_error = [] \<rparr>;
              ans = worker_reply (pe_status env) lib (pe_half env) chunk (wl_enc_out w) (wl_worker w);
              w' = w\<lparr> wl_worker := snd ans \<rparr>;
              ep = wl_endpoint w
          in (case pe_net env req j of
                LinkClosed \<Rightarrow> (Err (Unavailable (''worker '' @ ep @ '' stream closed'')), w # ws)
              | LinkRecv seen e \<Rightarrow> (Err (Unavailable (''worker '' @ ep @ '' recv: '' @ e)), (if seen then w' else w) # ws)
              | LinkEnd seen \<Rightarrow> (Err (Unavailable (''worker '' @ ep @ '' closed the stream'')), (if seen then w' else w) # ws)
              | LinkUp \<Rightarrow>
                  (case fst ans of
                     None \<Rightarrow> (Err (Unavailable (''worker '' @ ep @ '' closed the stream'')), w' # ws)
                   | Some reply \<Rightarrow>
                       if ac_error reply \<noteq> []
                       then (Err (Internal (''worker '' @ ep @ '': '' @ ac_error reply)), w' # ws)
                       else
                         (case decode_activation lib (pe_half env) (ac_data reply) (encoding_of_i32 (ac_encoding reply))
                                 (ac_int8_scale reply) (ac_seq_len reply) (ac_hidden reply) of
                            Panic \<Rightarrow> (Panic, w' # ws)
                          | Err e \<Rightarrow> (Err e, w' # ws)
                          | Ok next \<Rightarrow>
                              (case remote_loop lib env enc hid req seq pos len (j + 1) ws next of
                                 (r, ws') \<Rightarrow> (r, w' # ws'))))))"

definition forward_remote :: "('t, 'q, 'w, 'n) candle \<Rightarrow> pipe_env \<Rightarrow> 't \<Rightarrow> seq_id \<Rightarrow> nat \<Rightarrow> nat \<Rightarrow> ('t, 'w, 'n) PipelinedModel
    \<Rightarrow> (Error, 't) outcome \<times> ('t, 'w, 'n) PipelinedModel" where
  "forward_remote lib env hidden seq index_pos seq_len pm =
     (case remote_loop lib env (pm_encoding pm) (qc_embedding_length (ql_cfg (pm_head pm))) (pm_next_request_id pm) seq index_pos
             seq_len 0 (pm_workers pm) hidden of
        (r, ws) \<Rightarrow> (r, pm\<lparr> pm_workers := ws, pm_next_request_id := (pm_next_request_id pm + 1) mod 2 ^ 64 \<rparr>))"

definition reset_remote :: "pipe_env \<Rightarrow> seq_id \<Rightarrow> ('t, 'w, 'n) PipelinedModel \<Rightarrow> ('t, 'w, 'n) PipelinedModel" where
  "reset_remote env seq pm =
     pm\<lparr> pm_workers := map (\<lambda>(j, w). if pe_reset env seq j then w\<lparr> wl_worker := reset_sequence seq (wl_worker w) \<rparr> else w)
           (enumerate 0 (pm_workers pm)) \<rparr>"

text \<open>The local layers, the workers, and the LM head when logits are wanted.\<close>

definition run_stages :: "('t, 'q, 'w, 'n) candle \<Rightarrow> pipe_env \<Rightarrow> seq_id \<Rightarrow> u32 list \<Rightarrow> nat \<Rightarrow> 't SeqKv \<Rightarrow> bool \<Rightarrow> ('t, 'w, 'n) PipelinedModel
    \<Rightarrow> (Error, f32 list option) outcome \<times> 't SeqKv \<times> ('t, 'w, 'n) PipelinedModel" where
  "run_stages lib env seq tokens pos kv want_logits pm =
     (case embed_tokens lib (pm_head pm) tokens of
        Panic \<Rightarrow> (Panic, kv, pm)
      | Err e \<Rightarrow> (Err e, kv, pm)
      | Ok hidden \<Rightarrow>
          (case forward_hidden lib (pm_head pm) hidden pos kv of
             (Ok hidden, kv') \<Rightarrow>
               (case forward_remote lib env hidden seq pos (length tokens) pm of
                  (r, pm') \<Rightarrow>
                    (and_then r (\<lambda>hidden.
                       if \<not> want_logits then Ok None
                       else and_then (lm_output lib (pm_head pm) hidden) (\<lambda>logits.
                            and_then (logits_row lib logits) (\<lambda>l. Ok (Some l)))), kv', pm'))
           | (Err e, kv') \<Rightarrow> (Err e, kv', pm)
           | (Panic, kv') \<Rightarrow> (Panic, kv', pm)))"

definition pipelined_prefill :: "('t, 'q, 'w, 'n) candle \<Rightarrow> pipe_env \<Rightarrow> seq_id \<Rightarrow> u32 list \<Rightarrow> nat \<Rightarrow> bool \<Rightarrow> ('t, 'w, 'n) PipelinedModel
    \<Rightarrow> (Error, f32 list option) outcome \<times> ('t, 'w, 'n) PipelinedModel" where
  "pipelined_prefill lib env seq tokens start_pos want_logits pm =
     (let pm = (if start_pos = 0 then pm\<lparr> pm_kvs := (pm_kvs pm)(seq \<mapsto> new_kv (pm_head pm)) \<rparr> else pm)
      in case pm_kvs pm seq of
           None \<Rightarrow> (Err (Internal (''prefill of unknown seq '' @ show_nat seq)), pm)
         | Some kv \<Rightarrow>
             if kv_tokens kv \<noteq> start_pos
             then (Err (Internal (''prefill position mismatch for seq '' @ show_nat seq @ '': kv '' @ show_nat (kv_tokens kv)
                     @ '' vs start_pos '' @ show_nat start_pos)), pm)
             else
               (case run_stages lib env seq tokens start_pos kv want_logits pm of
                  (r, kv', pm') \<Rightarrow> (r, pm'\<lparr> pm_kvs := (pm_kvs pm')(seq \<mapsto> kv') \<rparr>)))"

definition pipelined_decode :: "('t, 'q, 'w, 'n) candle \<Rightarrow> pipe_env \<Rightarrow> (seq_id \<times> u32) list \<Rightarrow> ('t, 'w, 'n) PipelinedModel
    \<Rightarrow> (Error, f32 list list) outcome \<times> ('t, 'w, 'n) PipelinedModel" where
  "pipelined_decode lib env batch pm =
     (case batch of
        [] \<Rightarrow> (Ok [], pm)
      | [(seq, token)] \<Rightarrow>
          (case pm_kvs pm seq of
             None \<Rightarrow> (Err (Internal (''decode of unknown seq '' @ show_nat seq)), pm)
           | Some kv \<Rightarrow>
               (case run_stages lib env seq [token] (kv_tokens kv) kv True pm of
                  (r, kv', pm') \<Rightarrow>
                    (and_then r (\<lambda>l. case l of Some l \<Rightarrow> Ok [l] | None \<Rightarrow> Ok []), pm'\<lparr> pm_kvs := (pm_kvs pm')(seq \<mapsto> kv') \<rparr>)))
      | _ \<Rightarrow> (Err (Internal ''pipeline runtime cannot decode a batch larger than 1''), pm))"

definition pipelined_drop_seq :: "pipe_env \<Rightarrow> seq_id \<Rightarrow> ('t, 'w, 'n) PipelinedModel \<Rightarrow> ('t, 'w, 'n) PipelinedModel" where
  "pipelined_drop_seq env seq pm =
     (case pm_kvs pm seq of
        Some _ \<Rightarrow> reset_remote env seq (pm\<lparr> pm_kvs := (pm_kvs pm)(seq := None) \<rparr>)
      | None \<Rightarrow> pm)"

section \<open>Laws of the runtime contract\<close>

definition pipelined_held :: "('t, 'w, 'n) PipelinedModel \<Rightarrow> seq_id \<Rightarrow> nat option" where
  "pipelined_held pm s = map_option kv_tokens (pm_kvs pm s)"

lemma forward_remote_kvs: "forward_remote lib env h s p t pm = (r, pm') \<Longrightarrow> pm_kvs pm' = pm_kvs pm"
  by (auto simp: forward_remote_def split: prod.splits)

lemma run_stages_kvs: "run_stages lib env s ts p kv w pm = (r, kv', pm') \<Longrightarrow> pm_kvs pm' = pm_kvs pm"
  by (auto simp: run_stages_def dest: forward_remote_kvs split: outcome.splits prod.splits)

section \<open>Equivalence with the single-node runtime\<close>

lemma forward_blocks_append_Ok:
  assumes "forward_blocks lib m p t mk (bs @ bs') (ss @ ss') x = (Ok y, us)" and "length bs = length ss"
  obtains z us1 us2 where "forward_blocks lib m p t mk bs ss x = (Ok z, us1)"
    "forward_blocks lib m p t mk bs' ss' z = (Ok y, us2)" "us = us1 @ us2"
proof -
  obtain r us1 where f: "forward_blocks lib m p t mk bs ss x = (r, us1)" by fastforce
  show thesis
  proof (cases r)
    case (Ok z)
    obtain r2 us2 where g: "forward_blocks lib m p t mk bs' ss' z = (r2, us2)" by fastforce
    from assms f g Ok show thesis by (intro that [of z us1 us2]) (auto simp: forward_blocks_append)
  qed (use assms f in \<open>auto simp: forward_blocks_append\<close>)
qed

text \<open>A hidden state that the wire carries unchanged: decoding its encoding gives it back.\<close>

definition survives :: "('t, 'q, 'w, 'n) candle \<Rightarrow> half \<Rightarrow> Encoding \<Rightarrow> nat \<Rightarrow> nat \<Rightarrow> 't \<Rightarrow> bool" where
  "survives lib hf enc t e y \<longleftrightarrow> tc_dims3 lib y = Ok (1, t, e) \<and>
     (\<exists>d s. encode_activation lib hf y enc = Ok (d, s) \<and> decode_activation lib hf d (wire_encoding enc) s t e = Ok y)"

text \<open>The cache a worker uses for a step of sequence \<open>s\<close> at position \<open>p\<close>.\<close>

definition worker_kv :: "seq_id \<Rightarrow> nat \<Rightarrow> ('t, 'w, 'n) WorkerState \<Rightarrow> 't SeqKv" where
  "worker_kv s p st =
     (let kv = case_option (new_kv (wk_model st)) id (wk_kvs st s) in if p = 0 then seq_kv_clear kv else kv)"

lemma encoding_of_wire [simp]: "encoding_of_i32 (encoding_to_i32 e) = e"
  by (cases e) (simp_all add: encoding_of_i32_def)

lemma worker_reply_Ok:
  assumes "decode_activation lib hf (ac_data c) (encoding_of_i32 (ac_encoding c)) (ac_int8_scale c) t e = Ok x"
    and "ac_seq_len c = t" "ac_hidden c = e" "ac_index_pos c = p" "ac_seq_id c = s"
    and "tc_dims3 lib x = Ok (1, t, e)" "causal_mask lib t p = Ok mk"
    and "kv_tokens (worker_kv s p st) = p" "length (kv_entries (worker_kv s p st)) = length (ql_blocks (wk_model st))"
    and "forward_blocks lib (wk_model st) p t mk (ql_blocks (wk_model st)) (kv_entries (worker_kv s p st)) x = (Ok y, us)"
    and "survives lib hf enc t e y"
  obtains reply where
    "worker_reply sh lib hf c enc st = (Some reply, st\<lparr> wk_kvs := (wk_kvs st)(s \<mapsto> \<lparr> kv_entries = us, kv_tokens = p + t \<rparr>) \<rparr>)"
    "ac_error reply = []"
    "decode_activation lib hf (ac_data reply) (encoding_of_i32 (ac_encoding reply)) (ac_int8_scale reply)
       (ac_seq_len reply) (ac_hidden reply) = Ok y"
proof -
  obtain d sc where enc: "encode_activation lib hf y enc = Ok (d, sc)" "decode_activation lib hf d (wire_encoding enc) sc t e = Ok y"
    using assms(11) by (auto simp: survives_def)
  have kv: "(if p = 0 then seq_kv_clear (case_option (new_kv (wk_model st)) id (wk_kvs st s))
      else case_option (new_kv (wk_model st)) id (wk_kvs st s)) = worker_kv s p st"
    by (simp add: worker_kv_def)
  have fw: "forward_hidden lib (wk_model st) x p (worker_kv s p st) = (Ok y, \<lparr> kv_entries = us, kv_tokens = p + t \<rparr>)"
    using assms by (simp add: forward_hidden_def)
  show thesis
    by (rule that, simp only: worker_reply_def worker_step_def Let_def assms(1-5) kv outcome.case if_not_P assms(8) not_True_eq_False
        fw prod.case and_then.simps enc simp_thms if_False refl) (simp_all add: enc)
qed

text \<open>What a step leaves of a worker's link: a new cache for the one sequence.\<close>

definition advanced :: "seq_id \<Rightarrow> ('t, 'w, 'n) WorkerLink \<Rightarrow> 't SeqKv \<Rightarrow> ('t, 'w, 'n) WorkerLink" where
  "advanced s w kv = w\<lparr> wl_worker := (wl_worker w)\<lparr> wk_kvs := (wk_kvs (wl_worker w))(s \<mapsto> kv) \<rparr> \<rparr>"

abbreviation link_blocks :: "('t, 'w, 'n) WorkerLink \<Rightarrow> ('t, 'w, 'n) Block list" where
  "link_blocks w \<equiv> ql_blocks (wk_model (wl_worker w))"

definition ready_at :: "('t, 'w, 'n) QLlama \<Rightarrow> seq_id \<Rightarrow> nat \<Rightarrow> ('t, 'w, 'n) WorkerLink \<Rightarrow> bool" where
  "ready_at m s p w \<longleftrightarrow> same_stage m (wk_model (wl_worker w)) \<and> kv_tokens (worker_kv s p (wl_worker w)) = p \<and>
     length (kv_entries (worker_kv s p (wl_worker w))) = length (link_blocks w)"

lemma remote_loop_Ok:
  assumes "\<And>j. pe_net env req j = LinkUp" and "as_u32 p = p" "as_u32 t = t" "as_u32 e = e" and "causal_mask lib t p = Ok mk"
    and "\<forall>w \<in> set ws. ready_at m s p w \<and> wl_enc_out w \<in> encs" and "enc \<in> encs"
    and "forward_blocks lib m p t mk (concat (map link_blocks ws)) (concat (map (\<lambda>w. kv_entries (worker_kv s p (wl_worker w))) ws)) x
      = (Ok y, us)"
    and "\<And>n z zs en. en \<in> encs \<Longrightarrow> forward_blocks lib m p t mk (take n (concat (map link_blocks ws)))
        (take n (concat (map (\<lambda>w. kv_entries (worker_kv s p (wl_worker w))) ws))) x = (Ok z, zs) \<Longrightarrow> survives lib (pe_half env) en t e z"
  shows "\<exists>kvs. remote_loop lib env enc e req s p t j ws x = (Ok y, map2 (advanced s) ws kvs) \<and> length kvs = length ws \<and>
    us = concat (map kv_entries kvs) \<and> (\<forall>kv \<in> set kvs. kv_tokens kv = p + t) \<and> map (\<lambda>kv. length (kv_entries kv)) kvs = map (\<lambda>w. length (link_blocks w)) ws"
  using assms(6,8,9)
proof (induction ws arbitrary: x us j)
  case (Cons w ws)
  let ?kv = "worker_kv s p (wl_worker w)" and ?rest = "concat (map link_blocks ws)"
    and ?krest = "concat (map (\<lambda>w. kv_entries (worker_kv s p (wl_worker w))) ws)"
  have w: "same_stage m (wk_model (wl_worker w))" "kv_tokens ?kv = p" "length (kv_entries ?kv) = length (link_blocks w)" "wl_enc_out w \<in> encs"
    using Cons.prems(1) by (simp_all add: ready_at_def)
  have "forward_blocks lib m p t mk (link_blocks w @ ?rest) (kv_entries ?kv @ ?krest) x = (Ok y, us)"
    using Cons.prems(2) by simp
  from this w(3) [symmetric] obtain z us1 us2 where one: "forward_blocks lib m p t mk (link_blocks w) (kv_entries ?kv) x = (Ok z, us1)"
    and more: "forward_blocks lib m p t mk ?rest ?krest z = (Ok y, us2)" and us: "us = us1 @ us2"
    by (rule forward_blocks_append_Ok)
  have one': "forward_blocks lib (wk_model (wl_worker w)) p t mk (link_blocks w) (kv_entries ?kv) x = (Ok z, us1)"
    using one forward_blocks_cong [OF w(1), of lib p t mk] by (simp only:)
  have surv: "survives lib (pe_half env) en t e a" if "en \<in> encs"
    "forward_blocks lib m p t mk (take n ?rest) (take n ?krest) z = (Ok a, zs)" for en n a zs
    using Cons.prems(3) [of en "length (link_blocks w) + n" a "us1 @ zs"] that one w(3) by (simp add: forward_blocks_append)
  have sx: "survives lib (pe_half env) en t e x" and sz: "survives lib (pe_half env) en t e z" if "en \<in> encs" for en
    using Cons.prems(3) [of en 0 x "[]"] surv [of en 0 z "[]"] that by simp_all
  obtain d sc where d: "encode_activation lib (pe_half env) x enc = Ok (d, sc)"
    "decode_activation lib (pe_half env) d (wire_encoding enc) sc t e = Ok x" and dims: "tc_dims3 lib x = Ok (1, t, e)"
    using sx [OF assms(7)] by (auto simp: survives_def)
  define c where "c = \<lparr> ac_request_id = req, ac_seq_id = s, ac_index_pos = p, ac_seq_len = t, ac_hidden = e,
    ac_encoding = encoding_to_i32 (wire_encoding enc), ac_data = d, ac_int8_scale = sc, ac_error = [] \<rparr>"
  obtain reply where reply: "worker_reply (pe_status env) lib (pe_half env) c (wl_enc_out w) (wl_worker w) =
      (Some reply, (wl_worker w)\<lparr> wk_kvs := (wk_kvs (wl_worker w))(s \<mapsto> \<lparr> kv_entries = us1, kv_tokens = p + t \<rparr>) \<rparr>)"
    "ac_error reply = []" "decode_activation lib (pe_half env) (ac_data reply) (encoding_of_i32 (ac_encoding reply)) (ac_int8_scale reply)
       (ac_seq_len reply) (ac_hidden reply) = Ok z"
    by (rule worker_reply_Ok [of lib "pe_half env" c t e x p s mk "wl_worker w" z us1 "wl_enc_out w" "pe_status env"])
      (use d dims assms(5) w one' sz in \<open>simp_all add: c_def\<close>)
  have "\<forall>w \<in> set ws. ready_at m s p w \<and> wl_enc_out w \<in> encs" using Cons.prems(1) by simp
  then have "\<exists>kvs. remote_loop lib env enc e req s p t (j + 1) ws z = (Ok y, map2 (advanced s) ws kvs) \<and> length kvs = length ws \<and>
    us2 = concat (map kv_entries kvs) \<and> (\<forall>kv \<in> set kvs. kv_tokens kv = p + t) \<and> map (\<lambda>kv. length (kv_entries kv)) kvs = map (\<lambda>w. length (link_blocks w)) ws"
    by (rule Cons.IH [OF _ more]) (erule (1) surv)
  then obtain kvs where
    IH: "remote_loop lib env enc e req s p t (j + 1) ws z = (Ok y, map2 (advanced s) ws kvs)" "length kvs = length ws"
    "us2 = concat (map kv_entries kvs)" "\<forall>kv \<in> set kvs. kv_tokens kv = p + t"
    "map (\<lambda>kv. length (kv_entries kv)) kvs = map (\<lambda>w. length (link_blocks w)) ws" by (elim exE conjE)
  show ?case
    using IH us reply d forward_blocks_length [OF one] w(3) assms(1-4)
    by (intro exI [of _ "\<lparr> kv_entries = us1, kv_tokens = p + t \<rparr> # kvs"]) (simp add: Let_def c_def [symmetric] advanced_def)
qed simp

text \<open>
  The single-node runtime and the pipeline in step: the stages hold the blocks of the whole model in
  order, and the caches of a sequence on the stages are the slices of its cache on the single node.
\<close>

definition stage_kvs :: "seq_id \<Rightarrow> ('t, 'w, 'n) PipelinedModel \<Rightarrow> 't SeqKv option list" where
  "stage_kvs s pm = pm_kvs pm s # map (\<lambda>w. wk_kvs (wl_worker w) s) (pm_workers pm)"

definition seq_tied :: "seq_id \<Rightarrow> 't SeqKv \<Rightarrow> ('t, 'w, 'n) PipelinedModel \<Rightarrow> bool" where
  "seq_tied s kv pm \<longleftrightarrow> (\<exists>kvs. stage_kvs s pm = map Some kvs \<and> kv_entries kv = concat (map kv_entries kvs) \<and>
     (\<forall>k \<in> set kvs. kv_tokens k = kv_tokens kv))"

definition slots_fit :: "('t, 'w, 'n) PipelinedModel \<Rightarrow> bool" where
  "slots_fit pm \<longleftrightarrow>
     (\<forall>s kv. pm_kvs pm s = Some kv \<longrightarrow> length (kv_entries kv) = length (ql_blocks (pm_head pm))) \<and>
     (\<forall>w \<in> set (pm_workers pm). \<forall>s kv. wk_kvs (wl_worker w) s = Some kv \<longrightarrow> length (kv_entries kv) = length (link_blocks w))"

definition tied_model :: "('t, 'w, 'n) QLlama \<Rightarrow> ('t, 'w, 'n) PipelinedModel \<Rightarrow> bool" where
  "tied_model m pm \<longleftrightarrow> same_stage m (pm_head pm) \<and> (\<forall>w \<in> set (pm_workers pm). same_stage m (wk_model (wl_worker w))) \<and>
     ql_blocks m = ql_blocks (pm_head pm) @ concat (map link_blocks (pm_workers pm)) \<and>
     ql_embed m = ql_embed (pm_head pm) \<and> ql_out m = ql_out (pm_head pm)"

definition tied :: "('t, 'w, 'n) BatchedLlama \<Rightarrow> ('t, 'w, 'n) PipelinedModel \<Rightarrow> bool" where
  "tied st pm \<longleftrightarrow> tied_model (ba_model st) pm \<and> runtime_wf st \<and> slots_fit pm \<and>
     (\<forall>s kv. ba_kvs st s = Some kv \<longrightarrow> seq_tied s kv pm)"

text \<open>The cache the single node uses for a step of sequence \<open>s\<close> at position \<open>p\<close>.\<close>

definition batched_kv :: "seq_id \<Rightarrow> nat \<Rightarrow> ('t, 'w, 'n) BatchedLlama \<Rightarrow> 't SeqKv" where
  "batched_kv s p st =
     (let kv = case_option (new_kv (ba_model st)) id (ba_kvs st s) in if p = 0 then seq_kv_clear kv else kv)"

lemma batched_prefill_Ok:
  assumes "batched_prefill lib s ts p w st = (Ok r, st')"
  obtains h y kv where "kv_tokens (batched_kv s p st) = p" "embed_tokens lib (ba_model st) ts = Ok h"
    "forward_hidden lib (ba_model st) h p (batched_kv s p st) = (Ok y, kv)"
    "(if \<not> w then Ok None else and_then (lm_output lib (ba_model st) y) (\<lambda>l. and_then (logits_row lib l) (\<lambda>l. Ok (Some l)))) = Ok r"
    "st' = st\<lparr> ba_kvs := (ba_kvs st)(s \<mapsto> kv) \<rparr>"
proof -
  have K: "(if p = 0 then seq_kv_clear (case_option (new_kv (ba_model st)) id (ba_kvs st s))
      else case_option (new_kv (ba_model st)) id (ba_kvs st s)) = batched_kv s p st"
    by (simp add: batched_kv_def)
  note B = assms [unfolded batched_prefill_def Let_def K]
  have t: "kv_tokens (batched_kv s p st) = p" using B by (simp split: if_splits)
  obtain h where h: "embed_tokens lib (ba_model st) ts = Ok h" using B t by (cases "embed_tokens lib (ba_model st) ts") simp_all
  obtain r1 kv where f: "forward_hidden lib (ba_model st) h p (batched_kv s p st) = (r1, kv)" by fastforce
  from B t h f obtain y where "r1 = Ok y" by (cases r1) simp_all
  with B t h f show thesis by (intro that [of h y kv]) simp_all
qed

text \<open>The cache the coordinator uses for its own layers.\<close>

definition head_kv :: "seq_id \<Rightarrow> nat \<Rightarrow> ('t, 'w, 'n) PipelinedModel \<Rightarrow> 't SeqKv option" where
  "head_kv s p pm = (if p = 0 then Some (new_kv (pm_head pm)) else pm_kvs pm s)"

lemma concat_const: "concat (map (\<lambda>w. map (\<lambda>_. c) (f w)) ws) = map (\<lambda>_. c) (concat (map f ws))"
  by (induction ws) simp_all

lemma cleared_entries:
  "length (kv_entries kv) = length bs \<Longrightarrow> kv_entries (seq_kv_clear kv) = map (\<lambda>_. None) bs"
  by (simp add: seq_kv_clear_def map_replicate_const)

lemma cleared_slot:
  assumes "\<forall>s kv. kvs s = Some kv \<longrightarrow> length (kv_entries kv) = length (ql_blocks m)"
  shows "kv_entries (seq_kv_clear (case_option (new_kv m) id (kvs s))) = map (\<lambda>_. None) (ql_blocks m)"
  using assms by (intro cleared_entries) (simp split: option.split)

lemma tied_fresh:
  assumes td: "tied st pm"
  shows "kv_entries (batched_kv s 0 st) = kv_entries (new_kv (pm_head pm)) @
      concat (map (\<lambda>w. kv_entries (worker_kv s 0 (wl_worker w))) (pm_workers pm)) \<and>
    (\<forall>w \<in> set (pm_workers pm). ready_at (ba_model st) s 0 w)"
proof -
  have fit: "slots_fit pm" and m: "tied_model (ba_model st) pm" and wf: "runtime_wf st" using td by (simp_all add: tied_def)
  have w: "kv_entries (worker_kv s 0 (wl_worker w)) = map (\<lambda>_. None) (link_blocks w)" if "w \<in> set (pm_workers pm)" for w
    using fit that unfolding slots_fit_def worker_kv_def Let_def by (simp add: cleared_slot)
  then have "concat (map (\<lambda>w. kv_entries (worker_kv s 0 (wl_worker w))) (pm_workers pm))
      = concat (map (\<lambda>w. map (\<lambda>_. None) (link_blocks w)) (pm_workers pm))"
    by (simp cong: map_cong)
  moreover have "kv_entries (new_kv (pm_head pm)) = map (\<lambda>_. None) (ql_blocks (pm_head pm))"
    by (simp add: new_kv_def seq_kv_new_def map_replicate_const)
  moreover have "kv_entries (batched_kv s 0 st) = map (\<lambda>_. None) (ql_blocks (ba_model st))"
    using wf unfolding batched_kv_def Let_def by (simp add: cleared_slot runtime_wf_def)
  ultimately show ?thesis
    using m w by (simp add: tied_model_def concat_const ready_at_def) (simp add: worker_kv_def)
qed

lemma tied_slices:
  assumes td: "tied st pm" and p: "kv_tokens (batched_kv s p st) = p"
  obtains hkv where "head_kv s p pm = Some hkv" "kv_tokens hkv = p" "length (kv_entries hkv) = length (ql_blocks (pm_head pm))"
    "\<forall>w \<in> set (pm_workers pm). ready_at (ba_model st) s p w"
    "kv_entries (batched_kv s p st) = kv_entries hkv @ concat (map (\<lambda>w. kv_entries (worker_kv s p (wl_worker w))) (pm_workers pm))"
proof (cases "p = 0")
  case True
  then show thesis using tied_fresh [OF td, of s]
    by (intro that [of "new_kv (pm_head pm)"]) (simp_all add: head_kv_def new_kv_def seq_kv_new_def)
next
  case False
  with p obtain kv where kv: "ba_kvs st s = Some kv" "batched_kv s p st = kv"
    by (auto simp: batched_kv_def new_kv_def seq_kv_new_def split: option.splits)
  have "seq_tied s kv pm" using td kv(1) unfolding tied_def by blast
  then obtain kvs where kvs: "stage_kvs s pm = map Some kvs" "kv_entries kv = concat (map kv_entries kvs)"
    "\<forall>k \<in> set kvs. kv_tokens k = kv_tokens kv" unfolding seq_tied_def by blast
  then obtain hkv wkvs where split: "kvs = hkv # wkvs" "pm_kvs pm s = Some hkv"
    "map (\<lambda>w. wk_kvs (wl_worker w) s) (pm_workers pm) = map Some wkvs" by (auto simp: stage_kvs_def)
  have "map (\<lambda>w. worker_kv s p (wl_worker w)) (pm_workers pm) = map (\<lambda>w. the (wk_kvs (wl_worker w) s)) (pm_workers pm)"
  proof (rule map_cong [OF refl])
    fix w assume "w \<in> set (pm_workers pm)"
    then have "wk_kvs (wl_worker w) s \<in> Some ` set wkvs" using arg_cong [OF split(3), of set] by auto
    then show "worker_kv s p (wl_worker w) = the (wk_kvs (wl_worker w) s)" using False by (auto simp: worker_kv_def)
  qed
  also have "\<dots> = wkvs" using arg_cong [OF split(3), of "map the"] by (simp add: comp_def)
  finally have wk: "map (\<lambda>w. worker_kv s p (wl_worker w)) (pm_workers pm) = wkvs" .
  show thesis
  proof (rule that [of hkv])
    show "\<forall>w \<in> set (pm_workers pm). ready_at (ba_model st) s p w"
    proof
      fix w assume w: "w \<in> set (pm_workers pm)"
      then have "worker_kv s p (wl_worker w) \<in> set wkvs" using arg_cong [OF wk, of set] by auto
      moreover from w have "wk_kvs (wl_worker w) s \<in> Some ` set wkvs" using arg_cong [OF split(3), of set] by auto
      ultimately show "ready_at (ba_model st) s p w"
        using td w kvs split p kv False by (auto simp: ready_at_def tied_def tied_model_def slots_fit_def worker_kv_def)
    qed
    show "kv_entries (batched_kv s p st) = kv_entries hkv @ concat (map (\<lambda>w. kv_entries (worker_kv s p (wl_worker w))) (pm_workers pm))"
      using kvs split kv wk by (auto simp: comp_def)
  qed (use False split kvs p kv td in \<open>auto simp: head_kv_def tied_def slots_fit_def\<close>)
qed

lemma forward_remote_Ok:
  assumes "\<And>j. pe_net env (pm_next_request_id pm) j = LinkUp" and "e = qc_embedding_length (ql_cfg (pm_head pm))"
    and "as_u32 p = p" "as_u32 t = t" "as_u32 e = e" and "causal_mask lib t p = Ok mk"
    and "\<forall>w \<in> set (pm_workers pm). ready_at m s p w"
    and "encs = insert (pm_encoding pm) (wl_enc_out ` set (pm_workers pm))"
    and "forward_blocks lib m p t mk (concat (map link_blocks (pm_workers pm)))
        (concat (map (\<lambda>w. kv_entries (worker_kv s p (wl_worker w))) (pm_workers pm))) x = (Ok y, us)"
    and "\<And>n z zs en. en \<in> encs \<Longrightarrow> forward_blocks lib m p t mk (take n (concat (map link_blocks (pm_workers pm))))
        (take n (concat (map (\<lambda>w. kv_entries (worker_kv s p (wl_worker w))) (pm_workers pm)))) x = (Ok z, zs) \<Longrightarrow>
        survives lib (pe_half env) en t e z"
  obtains kvs where
    "forward_remote lib env x s p t pm = (Ok y, pm\<lparr> pm_workers := map2 (advanced s) (pm_workers pm) kvs,
       pm_next_request_id := (pm_next_request_id pm + 1) mod 2 ^ 64 \<rparr>)"
    "length kvs = length (pm_workers pm)" "us = concat (map kv_entries kvs)" "\<forall>kv \<in> set kvs. kv_tokens kv = p + t"
    "map (\<lambda>kv. length (kv_entries kv)) kvs = map (\<lambda>w. length (link_blocks w)) (pm_workers pm)"
proof -
  have enc: "\<forall>w \<in> set (pm_workers pm). ready_at m s p w \<and> wl_enc_out w \<in> encs" "pm_encoding pm \<in> encs"
    using assms(7,8) by simp_all
  have "\<exists>kvs. remote_loop lib env (pm_encoding pm) e (pm_next_request_id pm) s p t 0 (pm_workers pm) x
        = (Ok y, map2 (advanced s) (pm_workers pm) kvs) \<and> length kvs = length (pm_workers pm) \<and>
      us = concat (map kv_entries kvs) \<and> (\<forall>kv \<in> set kvs. kv_tokens kv = p + t) \<and>
      map (\<lambda>kv. length (kv_entries kv)) kvs = map (\<lambda>w. length (link_blocks w)) (pm_workers pm)"
    by (rule remote_loop_Ok [OF assms(1,3-6) enc assms(9)]) (erule (1) assms(10))
  then show thesis using that assms(2) by (auto simp: forward_remote_def)
qed

lemma map_wk_advanced:
  "length kvs = length ws \<Longrightarrow> map (\<lambda>w. wk_kvs (wl_worker w) s') (map2 (advanced s) ws kvs) =
    (if s' = s then map Some kvs else map (\<lambda>w. wk_kvs (wl_worker w) s') ws)"
  by (induction kvs ws rule: list_induct2) (auto simp: advanced_def)

lemma map_link_advanced: "length kvs = length ws \<Longrightarrow> map (\<lambda>w. wk_model (wl_worker w)) (map2 (advanced s) ws kvs) = map (\<lambda>w. wk_model (wl_worker w)) ws"
  by (induction kvs ws rule: list_induct2) (auto simp: advanced_def)

lemma tied_model_advanced:
  assumes "tied_model m pm" and "length kvs = length (pm_workers pm)"
  shows "tied_model m (pm\<lparr> pm_workers := map2 (advanced s) (pm_workers pm) kvs, pm_next_request_id := r, pm_kvs := K \<rparr>)"
proof -
  note eq = map_link_advanced [OF assms(2), of s]
  have "concat (map link_blocks (map2 (advanced s) (pm_workers pm) kvs)) = concat (map link_blocks (pm_workers pm))"
    using arg_cong [OF eq, of "\<lambda>ms. concat (map ql_blocks ms)"] by (simp only: map_map comp_def)
  moreover have "\<forall>w \<in> set (map2 (advanced s) (pm_workers pm) kvs). same_stage m (wk_model (wl_worker w))"
    using arg_cong [OF eq, of set] assms(1) unfolding tied_model_def by (metis (no_types, lifting) imageE image_eqI list.set_map)
  ultimately show ?thesis using assms(1) unfolding tied_model_def by simp
qed

lemma slots_fit_advanced:
  assumes "slots_fit pm" and "length (kv_entries hkv) = length (ql_blocks (pm_head pm))"
    and "map (\<lambda>kv. length (kv_entries kv)) kvs = map (\<lambda>w. length (link_blocks w)) (pm_workers pm)"
  shows "slots_fit (pm\<lparr> pm_workers := map2 (advanced s) (pm_workers pm) kvs, pm_next_request_id := r, pm_kvs := (pm_kvs pm)(s \<mapsto> hkv) \<rparr>)"
proof -
  have len: "length kvs = length (pm_workers pm)" using assms(3) by (rule map_eq_imp_length_eq)
  have "length (kv_entries kv) = length (link_blocks w)"
    if "w \<in> set (map2 (advanced s) (pm_workers pm) kvs)" "wk_kvs (wl_worker w) s' = Some kv" for w s' kv
  proof -
    from that(1) len obtain i where i: "i < length kvs" "w = advanced s (pm_workers pm ! i) (kvs ! i)"
      by (auto simp: in_set_conv_nth)
    have "length (kv_entries (kvs ! i)) = length (link_blocks (pm_workers pm ! i))"
      using arg_cong [OF assms(3), of "\<lambda>l. l ! i"] i len by simp
    with that(2) i len assms(1) show ?thesis by (auto simp: advanced_def slots_fit_def split: if_splits)
  qed
  with assms show ?thesis by (auto simp: slots_fit_def)
qed

lemma tied_advanced:
  assumes td: "tied st pm" and h: "length (kv_entries hkv) = length (ql_blocks (pm_head pm))"
    and k: "map (\<lambda>kv. length (kv_entries kv)) kvs = map (\<lambda>w. length (link_blocks w)) (pm_workers pm)"
    and n: "\<forall>k \<in> set (hkv # kvs). kv_tokens k = kv_tokens kv" and e: "kv_entries kv = kv_entries hkv @ concat (map kv_entries kvs)"
  shows "tied (st\<lparr> ba_kvs := (ba_kvs st)(s \<mapsto> kv) \<rparr>)
    (pm\<lparr> pm_workers := map2 (advanced s) (pm_workers pm) kvs, pm_next_request_id := r, pm_kvs := (pm_kvs pm)(s \<mapsto> hkv) \<rparr>)"
    (is "tied _ ?pm")
proof -
  have len: "length kvs = length (pm_workers pm)" using k by (rule map_eq_imp_length_eq)
  have st: "stage_kvs s' ?pm = (if s' = s then map Some (hkv # kvs) else stage_kvs s' pm)" for s'
    using map_wk_advanced [OF len, of s' s] by (simp add: stage_kvs_def)
  have "seq_tied s' kv' ?pm" if "((ba_kvs st)(s \<mapsto> kv)) s' = Some kv'" for s' kv'
  proof (cases "s' = s")
    case True
    with that n e show ?thesis unfolding seq_tied_def st by (intro exI [of _ "hkv # kvs"]) simp
  next
    case False
    with that td show ?thesis by (simp add: tied_def seq_tied_def st)
  qed
  moreover have "length (kv_entries kv) = length (ql_blocks (ba_model st))"
    using td h e arg_cong [OF k, of sum_list] by (simp add: tied_def tied_model_def length_concat comp_def)
  ultimately show ?thesis
    using td tied_model_advanced [of "ba_model st" pm kvs] slots_fit_advanced [OF _ h k] len
    by (auto simp: tied_def runtime_wf_def)
qed

definition encodings :: "('t, 'w, 'n) PipelinedModel \<Rightarrow> Encoding set" where
  "encodings pm = insert (pm_encoding pm) (wl_enc_out ` set (pm_workers pm))"

text \<open>Every hidden state between two layers of this step survives the encodings in use.\<close>

definition step_survives :: "('t, 'q, 'w, 'n) candle \<Rightarrow> half \<Rightarrow> Encoding set \<Rightarrow> seq_id \<Rightarrow> u32 list \<Rightarrow> nat \<Rightarrow> ('t, 'w, 'n) BatchedLlama \<Rightarrow> bool" where
  "step_survives lib hf encs s ts p st \<longleftrightarrow>
     (let m = ba_model st; t = length ts; e = qc_embedding_length (ql_cfg m) in
      \<forall>h. embed_tokens lib m ts = Ok h \<longrightarrow> tc_dims3 lib h = Ok (1, t, e) \<and>
        (\<forall>mk n z zs en. causal_mask lib t p = Ok mk \<longrightarrow> en \<in> encs \<longrightarrow>
          forward_blocks lib m p t mk (take n (ql_blocks m)) (take n (kv_entries (batched_kv s p st))) h = (Ok z, zs) \<longrightarrow>
          survives lib hf en t e z))"

text \<open>A single-node step, cut where the coordinator's own layers end.\<close>

lemma tied_cut:
  assumes td: "tied st pm" and p: "kv_tokens (batched_kv s p st) = p"
    and sv: "step_survives lib hf (encodings pm) s ts p st" and emb: "embed_tokens lib (ba_model st) ts = Ok h"
    and fw: "forward_hidden lib (ba_model st) h p (batched_kv s p st) = (Ok y, kv)"
  obtains hkv mk z us1 us2 where "head_kv s p pm = Some hkv" "kv_tokens hkv = p" "causal_mask lib (length ts) p = Ok mk"
    "forward_hidden lib (pm_head pm) h p hkv = (Ok z, \<lparr> kv_entries = us1, kv_tokens = p + length ts \<rparr>)"
    "\<forall>w \<in> set (pm_workers pm). ready_at (ba_model st) s p w"
    "forward_blocks lib (ba_model st) p (length ts) mk (concat (map link_blocks (pm_workers pm)))
      (concat (map (\<lambda>w. kv_entries (worker_kv s p (wl_worker w))) (pm_workers pm))) z = (Ok y, us2)"
    "\<forall>n a zs en. en \<in> encodings pm \<longrightarrow> forward_blocks lib (ba_model st) p (length ts) mk
        (take n (concat (map link_blocks (pm_workers pm))))
        (take n (concat (map (\<lambda>w. kv_entries (worker_kv s p (wl_worker w))) (pm_workers pm)))) z = (Ok a, zs) \<longrightarrow>
        survives lib hf en (length ts) (qc_embedding_length (ql_cfg (ba_model st))) a"
    "kv = \<lparr> kv_entries = us1 @ us2, kv_tokens = p + length ts \<rparr>" "length us1 = length (ql_blocks (pm_head pm))"
proof -
  let ?m = "ba_model st" and ?t = "length ts"
  obtain hkv where hk: "head_kv s p pm = Some hkv" "kv_tokens hkv = p" "length (kv_entries hkv) = length (ql_blocks (pm_head pm))"
    and rd: "\<forall>w \<in> set (pm_workers pm). ready_at ?m s p w"
    and ent: "kv_entries (batched_kv s p st) = kv_entries hkv @ concat (map (\<lambda>w. kv_entries (worker_kv s p (wl_worker w))) (pm_workers pm))"
    by (rule tied_slices [OF td p])
  from forward_hidden_Ok [OF fw] obtain b t e mk where d: "tc_dims3 lib h = Ok (b, t, e)" "causal_mask lib t p = Ok mk"
    "kv_tokens kv = p + t" "forward_blocks lib ?m p t mk (ql_blocks ?m) (kv_entries (batched_kv s p st)) h = (Ok y, kv_entries kv)"
    by blast
  have t: "t = ?t" and surv: "\<And>n z zs en. en \<in> encodings pm \<Longrightarrow>
      forward_blocks lib ?m p ?t mk (take n (ql_blocks ?m)) (take n (kv_entries (batched_kv s p st))) h = (Ok z, zs) \<Longrightarrow>
      survives lib hf en ?t (qc_embedding_length (ql_cfg ?m)) z"
    using sv emb d(1,2) by (auto simp: step_survives_def Let_def)
  have tm: "same_stage ?m (pm_head pm)" and blks: "ql_blocks ?m = ql_blocks (pm_head pm) @ concat (map link_blocks (pm_workers pm))"
    using td by (simp_all add: tied_def tied_model_def)
  from d(4) [unfolded blks ent t] hk(3) [symmetric] obtain z us1 us2 where
    one: "forward_blocks lib ?m p ?t mk (ql_blocks (pm_head pm)) (kv_entries hkv) h = (Ok z, us1)"
    and more: "forward_blocks lib ?m p ?t mk (concat (map link_blocks (pm_workers pm)))
      (concat (map (\<lambda>w. kv_entries (worker_kv s p (wl_worker w))) (pm_workers pm))) z = (Ok y, us2)"
    and us: "kv_entries kv = us1 @ us2"
    by (rule forward_blocks_append_Ok)
  show thesis
  proof (rule that [OF hk(1,2) _ _ rd more])
    show "forward_hidden lib (pm_head pm) h p hkv = (Ok z, \<lparr> kv_entries = us1, kv_tokens = p + ?t \<rparr>)"
      using d(1,2) one hk(3) forward_blocks_cong [OF tm, of lib p ?t mk] t by (simp add: forward_hidden_def)
    show "length us1 = length (ql_blocks (pm_head pm))" using forward_blocks_length [OF one] hk(3) by simp
    show "kv = \<lparr> kv_entries = us1 @ us2, kv_tokens = p + ?t \<rparr>" using us d(3) t by (cases kv) simp
    show "\<forall>n a zs en. en \<in> encodings pm \<longrightarrow> forward_blocks lib ?m p ?t mk (take n (concat (map link_blocks (pm_workers pm))))
        (take n (concat (map (\<lambda>w. kv_entries (worker_kv s p (wl_worker w))) (pm_workers pm)))) z = (Ok a, zs) \<longrightarrow>
        survives lib hf en ?t (qc_embedding_length (ql_cfg ?m)) a"
    proof (intro allI impI)
      fix n a zs en
      assume "en \<in> encodings pm" "forward_blocks lib ?m p ?t mk (take n (concat (map link_blocks (pm_workers pm))))
        (take n (concat (map (\<lambda>w. kv_entries (worker_kv s p (wl_worker w))) (pm_workers pm)))) z = (Ok a, zs)"
      then show "survives lib hf en ?t (qc_embedding_length (ql_cfg ?m)) a"
        using surv [of en "length (ql_blocks (pm_head pm)) + n" a "us1 @ zs"] one hk(3) by (simp add: blks ent forward_blocks_append)
    qed
  qed (use d t in simp_all)
qed

lemma run_stages_Ok:
  assumes td: "tied st pm" and p: "kv_tokens (batched_kv s p st) = p" and up: "\<And>req j. pe_net env req j = LinkUp"
    and fits: "p < 2 ^ 32" "length ts < 2 ^ 32" "qc_embedding_length (ql_cfg (ba_model st)) < 2 ^ 32"
    and sv: "step_survives lib (pe_half env) (encodings pm) s ts p st"
    and emb: "embed_tokens lib (ba_model st) ts = Ok h"
    and fw: "forward_hidden lib (ba_model st) h p (batched_kv s p st) = (Ok y, kv)"
    and out: "(if \<not> w then Ok None else and_then (lm_output lib (ba_model st) y) (\<lambda>l. and_then (logits_row lib l) (\<lambda>l. Ok (Some l)))) = Ok r"
    and pm0: "pm0 = pm\<lparr> pm_kvs := K \<rparr>"
  obtains hkv hkv' pm' where "head_kv s p pm = Some hkv" "kv_tokens hkv = p"
    "run_stages lib env s ts p hkv w pm0 = (Ok r, hkv', pm'\<lparr> pm_kvs := K \<rparr>)"
    "tied (st\<lparr> ba_kvs := (ba_kvs st)(s \<mapsto> kv) \<rparr>) (pm'\<lparr> pm_kvs := (pm_kvs pm)(s \<mapsto> hkv') \<rparr>)"
proof -
  let ?m = "ba_model st" and ?t = "length ts" and ?e = "qc_embedding_length (ql_cfg (ba_model st))"
  have cfg: "ql_cfg (pm_head pm) = ql_cfg ?m" "ql_out (pm_head pm) = ql_out ?m" "ql_embed (pm_head pm) = ql_embed ?m"
    using td by (simp_all add: tied_def tied_model_def same_stage_def)
  obtain hkv mk z us1 us2 where hk: "head_kv s p pm = Some hkv" "kv_tokens hkv = p" and mask: "causal_mask lib ?t p = Ok mk"
    and hfw: "forward_hidden lib (pm_head pm) h p hkv = (Ok z, \<lparr> kv_entries = us1, kv_tokens = p + ?t \<rparr>)"
    and rd: "\<forall>w \<in> set (pm_workers pm). ready_at ?m s p w"
    and more: "forward_blocks lib ?m p ?t mk (concat (map link_blocks (pm_workers pm)))
      (concat (map (\<lambda>w. kv_entries (worker_kv s p (wl_worker w))) (pm_workers pm))) z = (Ok y, us2)"
    and sz: "\<forall>n a zs en. en \<in> encodings pm \<longrightarrow> forward_blocks lib ?m p ?t mk (take n (concat (map link_blocks (pm_workers pm))))
        (take n (concat (map (\<lambda>w. kv_entries (worker_kv s p (wl_worker w))) (pm_workers pm)))) z = (Ok a, zs) \<longrightarrow>
        survives lib (pe_half env) en ?t ?e a"
    and kv: "kv = \<lparr> kv_entries = us1 @ us2, kv_tokens = p + ?t \<rparr>" and us1: "length us1 = length (ql_blocks (pm_head pm))"
    by (rule tied_cut [OF td p sv emb fw])
  have small: "as_u32 p = p" "as_u32 ?t = ?t" "as_u32 ?e = ?e" using fits by (simp_all add: as_u32_def)
  obtain kvs where kvs: "forward_remote lib env z s p ?t pm0 = (Ok y, pm0\<lparr> pm_workers := map2 (advanced s) (pm_workers pm0) kvs,
       pm_next_request_id := (pm_next_request_id pm0 + 1) mod 2 ^ 64 \<rparr>)"
    "length kvs = length (pm_workers pm0)" "us2 = concat (map kv_entries kvs)" "\<forall>kv \<in> set kvs. kv_tokens kv = p + ?t"
    "map (\<lambda>kv. length (kv_entries kv)) kvs = map (\<lambda>w. length (link_blocks w)) (pm_workers pm0)"
    by (rule forward_remote_Ok [where pm = pm0 and e = ?e and m = ?m and encs = "encodings pm", OF up _ small mask])
      (use rd more in \<open>simp_all add: pm0 cfg\<close>, simp add: encodings_def, use sz in blast)
  have "embed_tokens lib (pm_head pm) ts = Ok h" "lm_output lib (pm_head pm) = lm_output lib ?m"
    using emb cfg by (simp_all add: embed_tokens_def lm_output_def fun_eq_iff)
  then have run: "run_stages lib env s ts p hkv w pm0 = (Ok r, \<lparr> kv_entries = us1, kv_tokens = p + ?t \<rparr>,
      pm\<lparr> pm_workers := map2 (advanced s) (pm_workers pm) kvs, pm_next_request_id := (pm_next_request_id pm + 1) mod 2 ^ 64 \<rparr>\<lparr> pm_kvs := K \<rparr>)"
    using hfw kvs(1) out by (cases w) (simp_all add: run_stages_def pm0)
  from kvs us1 kv show thesis
    by (intro that [OF hk run]) (rule tied_advanced [OF td], simp_all add: pm0)
qed

text \<open>C38: A layer pipeline computes what the single node computes. While the single-node runtime and the
  pipeline hold the same blocks and the same caches, and the hidden states of the step survive the
  activation encoding, a prefill that succeeds on the single node succeeds through the coordinator and
  all workers with the same logits and leaves the two in step again; a decode of one token through the pipeline
  is such a step.
\<close>

theorem pipeline_equals_single_node:
  assumes "tied st pm" and "batched_prefill lib s ts p w st = (Ok r, st')" and "\<And>req j. pe_net env req j = LinkUp"
    and "p < 2 ^ 32" "length ts < 2 ^ 32" "qc_embedding_length (ql_cfg (ba_model st)) < 2 ^ 32"
    and "step_survives lib (pe_half env) (encodings pm) s ts p st"
  shows "\<exists>pm'. pipelined_prefill lib env s ts p w pm = (Ok r, pm') \<and> tied st' pm' \<and>
    (\<forall>tok l. ts = [tok] \<and> 0 < p \<and> r = Some l \<and> w \<longrightarrow> pipelined_decode lib env [(s, tok)] pm = (Ok [l], pm'))"
proof -
  obtain h y kv where b: "kv_tokens (batched_kv s p st) = p" "embed_tokens lib (ba_model st) ts = Ok h"
    "forward_hidden lib (ba_model st) h p (batched_kv s p st) = (Ok y, kv)"
    "(if \<not> w then Ok None else and_then (lm_output lib (ba_model st) y) (\<lambda>l. and_then (logits_row lib l) (\<lambda>l. Ok (Some l)))) = Ok r"
    "st' = st\<lparr> ba_kvs := (ba_kvs st)(s \<mapsto> kv) \<rparr>"
    by (rule batched_prefill_Ok [OF assms(2)])
  define K where "K = (if p = 0 then (pm_kvs pm)(s \<mapsto> new_kv (pm_head pm)) else pm_kvs pm)"
  have pm0: "(if p = 0 then pm\<lparr> pm_kvs := (pm_kvs pm)(s \<mapsto> new_kv (pm_head pm)) \<rparr> else pm) = pm\<lparr> pm_kvs := K \<rparr>"
    by (simp add: K_def)
  obtain hkv hkv' pm' where hk: "head_kv s p pm = Some hkv" "kv_tokens hkv = p"
    and run: "run_stages lib env s ts p hkv w (pm\<lparr> pm_kvs := K \<rparr>) = (Ok r, hkv', pm'\<lparr> pm_kvs := K \<rparr>)"
    and td: "tied (st\<lparr> ba_kvs := (ba_kvs st)(s \<mapsto> kv) \<rparr>) (pm'\<lparr> pm_kvs := (pm_kvs pm)(s \<mapsto> hkv') \<rparr>)"
    by (rule run_stages_Ok [OF assms(1) b(1) assms(3-7) b(2-4) refl])
  have "K s = Some hkv" "K(s \<mapsto> hkv') = (pm_kvs pm)(s \<mapsto> hkv')" using hk(1) by (auto simp: K_def head_kv_def split: if_splits)
  with run hk(2) have "pipelined_prefill lib env s ts p w pm = (Ok r, pm'\<lparr> pm_kvs := (pm_kvs pm)(s \<mapsto> hkv') \<rparr>)"
    by (simp add: pipelined_prefill_def Let_def pm0)
  moreover have "pipelined_decode lib env [(s, tok)] pm = (Ok [l], pm'\<lparr> pm_kvs := (pm_kvs pm)(s \<mapsto> hkv') \<rparr>)"
    if "ts = [tok] \<and> 0 < p \<and> r = Some l \<and> w" for tok l
    using that run hk by (auto simp: pipelined_decode_def K_def head_kv_def)
  ultimately show ?thesis using td b(5) by blast
qed

text \<open>A pipeline of two stages, one block each, over numbers below 256, with blocks that add zero to the hidden state.\<close>

definition pipe_lib :: "(rat list, rat, rat, rat) candle" where
  "pipe_lib = demo_lib\<lparr> tc_dims3 := (\<lambda>x. Ok (1, length x, 1)), tc_reshape := (\<lambda>_. Ok), tc_matmul := (\<lambda>x _. Ok x) \<rparr>"

definition pipe_block :: "(rat list, rat, rat) Block" where
  "pipe_block = demo_block\<lparr> bl_wo := 0, bl_w_down := 0 \<rparr>"

definition pipe_single :: "(rat list, rat, rat) BatchedLlama" where
  "pipe_single = \<lparr> ba_model = demo_model\<lparr> ql_blocks := [pipe_block, pipe_block] \<rparr>, ba_kvs = Map.empty, ba_max_seq_len = 16, ba_max_batch = 4 \<rparr>"

definition pipe_worker :: "(rat list, rat, rat) WorkerState" where
  "pipe_worker = \<lparr> wk_model = demo_model\<lparr> ql_range := \<lparr> lr_start = 1, lr_end = 2 \<rparr>, ql_embed := None, ql_out := None, ql_blocks := [pipe_block] \<rparr>,
     wk_kvs = Map.empty, wk_model_name = ''demo'' \<rparr>"

definition pipe_pair :: "(rat list, rat, rat) PipelinedModel" where
  "pipe_pair = \<lparr> pm_head = demo_model\<lparr> ql_blocks := [pipe_block] \<rparr>, pm_kvs = Map.empty,
     pm_workers = [\<lparr> wl_endpoint = ''w1'', wl_range = \<lparr> lr_start = 1, lr_end = 2 \<rparr>, wl_enc_out = EncF16, wl_worker = pipe_worker \<rparr>],
     pm_encoding = EncF16, pm_max_seq_len = 16, pm_next_request_id = 1 \<rparr>"

definition pipe_half :: half where
  "pipe_half = \<lparr> hf_to_le = (\<lambda>v. (word_of_int \<lfloor>v\<rfloor>, 0)), hf_of_le = (\<lambda>(a, b). of_int (uint a)) \<rparr>"

definition pipe_env_up :: pipe_env where
  "pipe_env_up = \<lparr> pe_half = pipe_half, pe_net = (\<lambda>_ _. LinkUp), pe_reset = (\<lambda>_ _. True), pe_status = (\<lambda>_. []) \<rparr>"

lemma pipe_pair_tied: "tied pipe_single pipe_pair"
  by (simp add: tied_def tied_model_def pipe_single_def pipe_pair_def pipe_worker_def demo_model_def same_stage_def runtime_wf_def slots_fit_def)

lemmas pipe_eval = pipe_single_def pipe_lib_def pipe_block_def demo_model_def demo_block_def demo_cfg_def demo_lib_def Let_def
  block_forward_single_def project_def qkv_forward_def heads_def rope_apply_def grow_slot_def attend_def merge_heads_def mlp_def
  causal_mask_def pred_usize_def batched_kv_def new_kv_def seq_kv_new_def seq_kv_clear_def

lemma pipe_single_runs: "\<exists>r st'. batched_prefill pipe_lib 1 [3, 5] 0 True pipe_single = (Ok r, st')"
  by (simp add: batched_prefill_def forward_hidden_def embed_tokens_def lm_output_def logits_row_def pipe_eval)

lemma pipe_embed: "embed_tokens pipe_lib (ba_model pipe_single) [3, 5] = Ok [6, 10]"
  by (simp add: embed_tokens_def pipe_eval)

lemma pipe_block_id:
  assumes "forward_blocks pipe_lib m p t mk (take n [pipe_block, pipe_block]) (take n [None, None]) [6, 10] = (Ok z, zs)"
    and "ql_cfg m = demo_cfg"
  shows "z = [6, 10]"
proof (cases n)
  case 0
  with assms show ?thesis by simp
next
  case (Suc k)
  with assms show ?thesis
    by (cases k; cases mk) (simp_all add: pipe_eval)
qed

lemma pipe_survives: "survives pipe_lib pipe_half EncF16 2 1 [6, 10]"
  by (simp add: survives_def encode_activation_def decode_activation_def pipe_lib_def demo_lib_def pipe_half_def)

lemma pipe_step_survives: "step_survives pipe_lib pipe_half {EncF16} 1 [3, 5] 0 pipe_single"
  unfolding step_survives_def Let_def pipe_embed
proof (intro allI impI conjI)
  fix h assume "Ok [6, 10] = (Ok h :: (Error, rat list) outcome)"
  then have h: "h = [6, 10]" by simp
  show "tc_dims3 pipe_lib h = Ok (1, length [3, 5], qc_embedding_length (ql_cfg (ba_model pipe_single)))"
    by (simp add: h pipe_lib_def pipe_single_def demo_model_def demo_cfg_def)
  fix mk n z zs en
  assume en: "en \<in> {EncF16}" and "forward_blocks pipe_lib (ba_model pipe_single) 0 (length [3, 5 :: u32]) mk (take n (ql_blocks (ba_model pipe_single)))
      (take n (kv_entries (batched_kv 1 0 pipe_single))) h = (Ok z, zs)"
  then have "z = [6, 10]"
    by (intro pipe_block_id [of "ba_model pipe_single" 0 "length [3, 5 :: u32]" mk n z zs])
      (simp_all add: h pipe_single_def demo_model_def demo_cfg_def batched_kv_def new_kv_def seq_kv_new_def seq_kv_clear_def)
  with en show "survives pipe_lib pipe_half en (length [3, 5 :: u32]) (qc_embedding_length (ql_cfg (ba_model pipe_single))) z"
    using pipe_survives by (simp add: pipe_single_def demo_model_def demo_cfg_def numeral_2_eq_2)
qed

theorem pipeline_equals_single_node_witness:
  "\<exists>r st' pm'. batched_prefill pipe_lib 1 [3, 5] 0 True pipe_single = (Ok r, st') \<and>
    pipelined_prefill pipe_lib pipe_env_up 1 [3, 5] 0 True pipe_pair = (Ok r, pm') \<and> tied st' pm'"
proof -
  obtain r st' where b: "batched_prefill pipe_lib 1 [3, 5] 0 True pipe_single = (Ok r, st')" using pipe_single_runs by blast
  have "encodings pipe_pair = {EncF16}" by (auto simp: encodings_def pipe_pair_def)
  then have sv: "step_survives pipe_lib (pe_half pipe_env_up) (encodings pipe_pair) 1 [3, 5] 0 pipe_single"
    using pipe_step_survives by (simp add: pipe_env_up_def)
  have "pe_net pipe_env_up req j = LinkUp" for req j by (simp add: pipe_env_up_def)
  from pipeline_equals_single_node [OF pipe_pair_tied b this _ _ _ sv] b show ?thesis
    by (auto simp: pipe_single_def demo_model_def demo_cfg_def)
qed

section \<open>Assembling the pipeline\<close>

lemma connect_all_Ok: "connect_all dial eps = Ok ws \<Longrightarrow> list_all2 (\<lambda>ep w. dial ep = Ok w) eps ws"
  by (induction eps arbitrary: ws) (auto simp: and_then_Ok)

lemma load_blocks_concat:
  "list_all2 (\<lambda>is bs. load_blocks lib g cfg is = Ok bs) iss bss \<Longrightarrow> load_blocks lib g cfg (concat iss) = Ok (concat bss)"
  by (induction rule: list_all2_induct) (simp_all add: load_blocks_append)

lemma load_full_parts:
  assumes "qllama_load lib g r parts_full = Ok m" and "load_blocks lib g (ql_cfg m) [lr_start r'..<lr_end r'] = Ok bs"
    and "lr_end r' \<le> qc_n_layers (ql_cfg m)"
  shows "qllama_load lib g r' parts_full = Ok (m\<lparr> ql_range := r', ql_blocks := bs \<rparr>)"
proof -
  from assms(1) obtain cfg cs sn ni q w hd bs0 where
    "from_gguf g = Ok cfg" "precompute_freqs lib (qc_rope_dim cfg) (qc_rope_freq_base cfg) (qc_context_length cfg) = Ok (cs, sn)"
    "tc_neg_inf lib = Ok ni" "load_tensor g ''token_embd.weight'' = Ok q" "tc_dequantize lib q = Ok w"
    "load_head lib g (qc_rms_eps cfg) = Ok hd"
    "m = \<lparr> ql_cfg = cfg, ql_range = r, ql_embed = Some w, ql_blocks = bs0, ql_out = Some hd, ql_cos = cs, ql_sin = sn, ql_neg_inf = ni \<rparr>"
    by (auto simp: qllama_load_def and_then_Ok parts_full_def split: if_splits)
  with assms(2,3) show ?thesis by (simp add: qllama_load_def parts_full_def)
qed

text \<open>What connecting tells of one link, when the worker behind it was loaded from the same file.\<close>

lemma connect_worker_Ok:
  assumes "connect_worker reach fwd ep = Ok l"
    and "\<forall>ep enc w. reach ep = Ok (enc, w) \<longrightarrow> (\<exists>name r. lr_start r < lr_end r \<and> run_worker_state lib g name r = Ok w)"
    and "from_gguf g = Ok cfg" and "qc_n_layers cfg < 2 ^ 32"
  shows "lr_start (wl_range l) < lr_end (wl_range l) \<and> wk_kvs (wl_worker l) = Map.empty \<and>
    qllama_load lib g (wl_range l) parts_middle = Ok (wk_model (wl_worker l))"
proof -
  from assms(1) obtain enc w where w: "reach ep = Ok (enc, w)" "wl_worker l = w"
    and rng: "layer_range_new (wi_layer_start (worker_info w)) (wi_layer_end (worker_info w)) = Inr (wl_range l)"
    by (auto simp: connect_worker_def and_then_Ok of_result_Ok)
  from assms(2) w(1) obtain name r where r: "lr_start r < lr_end r" and run: "run_worker_state lib g name r = Ok w" by blast
  from run have load: "qllama_load lib g r parts_middle = Ok (wk_model w)" and kvs: "wk_kvs w = Map.empty"
    by (auto simp: run_worker_state_def and_then_Ok)
  from qllama_load_Ok [OF load] assms(3) have "ql_range (wk_model w) = r" "lr_end r \<le> qc_n_layers cfg" by auto
  with r assms(4) rng have "wl_range l = r" by (cases r) (auto simp: worker_info_def as_u32_def layer_range_new_def split: if_splits)
  with r load kvs w(2) show ?thesis by simp
qed

text \<open>C40: Assembling a pipeline is sound. When the coordinator accepts a set of workers that loaded the
  same file, the slices run every layer exactly once and in order, the whole file also loads on a single
  node, with the same context limit, and the two start in step.
\<close>

theorem pipeline_connect_tied:
  assumes "pipeline_connect lib reach fwd g ctx layers eps enc = Ok pm" and "lr_start layers < lr_end layers"
    and "\<forall>ep enc w. reach ep = Ok (enc, w) \<longrightarrow> (\<exists>name r. lr_start r < lr_end r \<and> run_worker_state lib g name r = Ok w)"
    and "from_gguf g = Ok cfg" and "qc_n_layers cfg < 2 ^ 32"
  shows "layers_of (layers # map wl_range (pm_workers pm)) = [0..<qc_n_layers cfg] \<and>
    (\<exists>st. batched_load lib g ctx mb = Ok st \<and> ba_max_seq_len st = pm_max_seq_len pm \<and> tied st pm)"
proof -
  from assms(1) obtain hd ws where hd: "qllama_load lib g layers parts_full = Ok hd"
    and ws: "connect_all (connect_worker reach fwd) eps = Ok ws"
    and cov: "validate_coverage (qc_n_layers (ql_cfg hd)) (layers # map wl_range ws) = Inr ()"
    and pm: "pm = \<lparr> pm_head = hd, pm_kvs = Map.empty, pm_workers = ws, pm_encoding = enc,
             pm_max_seq_len = max (min ctx (qc_context_length (ql_cfg hd))) 1, pm_next_request_id = 1 \<rparr>"
    by (auto simp: pipeline_connect_def and_then_Ok of_result_Ok split: if_splits)
  have cfg: "ql_cfg hd = cfg" "lr_end layers \<le> qc_n_layers cfg" "load_blocks lib g cfg [lr_start layers..<lr_end layers] = Ok (ql_blocks hd)"
    using qllama_load_Ok [OF hd] assms(4) by auto
  have link: "lr_start (wl_range l) < lr_end (wl_range l) \<and> wk_kvs (wl_worker l) = Map.empty \<and>
      qllama_load lib g (wl_range l) parts_middle = Ok (wk_model (wl_worker l))" if l: "l \<in> set ws" for l
  proof -
    obtain ep where "connect_worker reach fwd ep = Ok l" using connect_all_Ok [OF ws] l by (auto simp: list_all2_conv_all_nth in_set_conv_nth)
    from connect_worker_Ok [OF this assms(3-5)] show ?thesis .
  qed
  have tiles: "layers_of (layers # map wl_range ws) = [0..<qc_n_layers cfg]"
    using validate_coverage_tiles [OF cov] assms(2) link cfg(1) by (auto simp: less_imp_le)
  have blk: "load_blocks lib g cfg [lr_start (wl_range l)..<lr_end (wl_range l)] = Ok (link_blocks l)" if "l \<in> set ws" for l
    using qllama_load_Ok [of lib g "wl_range l" parts_middle "wk_model (wl_worker l)"] link [OF that] assms(4) by auto
  have "list_all2 (\<lambda>is bs. load_blocks lib g cfg is = Ok bs)
      (map (\<lambda>r. [lr_start r..<lr_end r]) (layers # map wl_range ws)) (ql_blocks hd # map link_blocks ws)"
    using cfg(3) blk by (simp add: list.rel_map list_all2_same)
  from load_blocks_concat [OF this] tiles
  have "load_blocks lib g cfg [0..<qc_n_layers cfg] = Ok (ql_blocks hd @ concat (map link_blocks ws))" by (simp add: layers_of_def)
  then have full: "qllama_load lib g \<lparr> lr_start = 0, lr_end = qc_n_layers cfg \<rparr> parts_full =
      Ok (hd\<lparr> ql_range := \<lparr> lr_start = 0, lr_end = qc_n_layers cfg \<rparr>, ql_blocks := ql_blocks hd @ concat (map link_blocks ws) \<rparr>)"
    using load_full_parts [OF hd, of "\<lparr> lr_start = 0, lr_end = qc_n_layers cfg \<rparr>"] cfg(1) by simp
  have stage: "same_stage hd (wk_model (wl_worker w))" if "w \<in> set ws" for w
    using qllama_load_same_stage [OF hd] link [OF that] by blast
  let ?st = "\<lparr> ba_model = hd\<lparr> ql_range := \<lparr> lr_start = 0, lr_end = qc_n_layers cfg \<rparr>, ql_blocks := ql_blocks hd @ concat (map link_blocks ws) \<rparr>,
    ba_kvs = Map.empty, ba_max_seq_len = max (min ctx (qc_context_length cfg)) 1, ba_max_batch = max mb 1 \<rparr>"
  have "batched_load lib g ctx mb = Ok ?st"
    using full assms(2,4) cfg(1,2) by (simp add: batched_load_def layer_range_new_def of_result_def)
  moreover have "tied ?st pm"
    using stage link by (auto simp: tied_def tied_model_def same_stage_def runtime_wf_def slots_fit_def pm)
  ultimately show ?thesis using tiles cfg(1) by (auto simp: pm)
qed

definition pipe_gguf :: "rat Gguf" where
  "pipe_gguf = \<lparr> gg_str = (\<lambda>k. if k = ''general.architecture'' then Some ''llama'' else None),
     gg_u32 = (\<lambda>k. if k = ''llama.block_count'' then Some 2 else Some 1), gg_f32 = (\<lambda>_. Some 1), gg_tensor = (\<lambda>_. Ok 1) \<rparr>"

definition pipe_reach :: "string \<Rightarrow> (Error, Encoding \<times> (rat list, rat, rat) WorkerState) outcome" where
  "pipe_reach ep = and_then (run_worker_state pipe_lib pipe_gguf ''demo'' \<lparr> lr_start = 1, lr_end = 2 \<rparr>) (\<lambda>w. Ok (EncF16, w))"

lemmas pipe_load_eval = qllama_load_def from_gguf_def pipe_gguf_def precompute_freqs_def pipe_lib_def demo_lib_def load_tensor_def
  load_head_def load_norm_def load_proj_def load_matmul_def load_block_def parts_full_def parts_middle_def Let_def

lemma pipe_load:
  "\<exists>m. qllama_load pipe_lib pipe_gguf \<lparr> lr_start = 1, lr_end = 2 \<rparr> parts_middle = Ok m"
  "\<exists>m. qllama_load pipe_lib pipe_gguf \<lparr> lr_start = 0, lr_end = 1 \<rparr> parts_full = Ok m"
  by (simp_all add: pipe_load_eval upt_rec numeral_2_eq_2)

lemma pipe_from_gguf: "\<exists>cfg. from_gguf pipe_gguf = Ok cfg \<and> qc_n_layers cfg = 2"
  by (simp add: from_gguf_def pipe_gguf_def)

lemma pipe_connects: "\<exists>pm. pipeline_connect pipe_lib pipe_reach (\<lambda>_. Ok ()) pipe_gguf 16 \<lparr> lr_start = 0, lr_end = 1 \<rparr> [''w1''] EncF16 = Ok pm"
proof -
  obtain m m' where m: "qllama_load pipe_lib pipe_gguf \<lparr> lr_start = 1, lr_end = 2 \<rparr> parts_middle = Ok m"
    "qllama_load pipe_lib pipe_gguf \<lparr> lr_start = 0, lr_end = 1 \<rparr> parts_full = Ok m'" using pipe_load by blast
  obtain cfg where "from_gguf pipe_gguf = Ok cfg" "qc_n_layers cfg = 2" using pipe_from_gguf by blast
  with qllama_load_Ok [OF m(1)] qllama_load_Ok [OF m(2)]
  have "ql_range m = \<lparr> lr_start = 1, lr_end = 2 \<rparr>" "qc_n_layers (ql_cfg m') = 2" by auto
  with m show ?thesis
    by (simp add: pipeline_connect_def connect_worker_def pipe_reach_def run_worker_state_def worker_info_def as_u32_def
        layer_range_new_def of_result_def validate_coverage_def)
qed

theorem pipeline_connect_tied_witness:
  "\<exists>pm st. pipeline_connect pipe_lib pipe_reach (\<lambda>_. Ok ()) pipe_gguf 16 \<lparr> lr_start = 0, lr_end = 1 \<rparr> [''w1''] EncF16 = Ok pm \<and>
    batched_load pipe_lib pipe_gguf 16 4 = Ok st \<and> tied st pm"
proof -
  obtain pm where pm: "pipeline_connect pipe_lib pipe_reach (\<lambda>_. Ok ()) pipe_gguf 16 \<lparr> lr_start = 0, lr_end = 1 \<rparr> [''w1''] EncF16 = Ok pm"
    using pipe_connects by blast
  obtain cfg where cfg: "from_gguf pipe_gguf = Ok cfg" "qc_n_layers cfg = 2" using pipe_from_gguf by blast
  have reach: "\<forall>ep enc w. pipe_reach ep = Ok (enc, w) \<longrightarrow>
      (\<exists>name r. lr_start r < lr_end r \<and> run_worker_state pipe_lib pipe_gguf name r = Ok w)"
    by (auto simp: pipe_reach_def and_then_Ok intro!: exI [of _ "''demo''"] exI [of _ "\<lparr> lr_start = 1, lr_end = 2 \<rparr>"])
  from pipeline_connect_tied [OF pm _ reach cfg(1), of 4] cfg(2) pm show ?thesis by auto
qed

section \<open>The runtime contract\<close>

interpretation pl: batch_runtime "pipelined_prefill lib env" "pipelined_decode lib env" "pipelined_drop_seq env" pipelined_held
  for lib :: "('t, 'q, 'w, 'n) candle" and env :: pipe_env
proof unfold_locales
  fix s ts p w m r m'
  assume "pipelined_prefill lib env s ts p w m = (Ok r, m')"
  then show "p = 0 \<or> pipelined_held m s = Some p"
    by (auto simp: pipelined_prefill_def pipelined_held_def Let_def split: if_splits option.splits)
next
  fix s ts p w m out m' s'
  assume "pipelined_prefill lib env s ts p w m = (out, m')" "s' \<noteq> (s :: seq_id)"
  then show "pipelined_held m' s' = pipelined_held m s' \<or> pipelined_held m' s' = None"
    by (auto simp: pipelined_prefill_def pipelined_held_def Let_def dest: run_stages_kvs split: if_splits option.splits prod.splits)
next
  fix b m out' m' s
  assume "pipelined_decode lib env b m = (out', m')" "pipelined_held m s = None"
  then show "pipelined_held m' s = None"
    by (auto simp: pipelined_decode_def pipelined_held_def run_stages_kvs split: list.splits if_splits option.splits prod.splits)
next
  fix s m s'
  show "pipelined_held (pipelined_drop_seq env s m) s' = (if s' = s then None else pipelined_held m s')"
    by (auto simp: pipelined_held_def pipelined_drop_seq_def reset_remote_def split: option.splits)
next
  fix b m ls m' s
  assume "pipelined_decode lib env b m = (Ok ls, m')" "s \<in> fst ` set b"
  then show "pipelined_held m s \<noteq> None \<and> pipelined_held m' s \<noteq> None"
    by (auto simp: pipelined_decode_def pipelined_held_def split: list.splits option.splits prod.splits)
qed

end
