(* ===== verification/Cgn_Spawn.thy ===== *)
theory Cgn_Spawn
  imports Cgn_Dispatch Cgn_Auth "HOL-Library.Sublist"
begin

text \<open>
  What the agent starts: the engine configuration (\<open>cgn-core/src/config.rs\<close>) and the renderers of
  command lines, connector settings and environments (\<open>cgn-agent/src/engine/spawn.rs\<close>). The text
  form of a JSON value (serde_json) and the reading of a file are parameters. The lemmas show which
  configurations are accepted, that a rendered command is never empty, and that the prefill and the
  decode side of a split deployment agree on the connector that moves blocks between them.
\<close>

section \<open>Configuration\<close>

datatype EngineKind = Vllm | Sglang | LlamaCpp | Mlx | TensorrtLlm | CgnInfer | OpenaiCompat

datatype KvOffload = OffNone | OffNixl | OffLmcache | OffHicache | OffKvbm | OffCgn

fun offload_as_str :: "KvOffload \<Rightarrow> string" where
  "offload_as_str OffNone = ''none''"
| "offload_as_str OffNixl = ''nixl''"
| "offload_as_str OffLmcache = ''lmcache''"
| "offload_as_str OffHicache = ''hicache''"
| "offload_as_str OffKvbm = ''kvbm''"
| "offload_as_str OffCgn = ''cgn''"

datatype LmcacheMode = LmV1 | LmMp

record LmcacheEngineConfig =
  lm_mode :: LmcacheMode
  lm_host :: string
  lm_port :: nat
  lm_http_port :: nat
  lm_l1_size_gb :: nat
  lm_eviction_policy :: string
  lm_chunk_size :: nat
  lm_spawn_server :: bool
  lm_server_binary :: string
  lm_server_extra_args :: "string list"
  lm_config_file :: string
  lm_connector_module_path :: string
  lm_isolated_ipc :: bool
  lm_server_urls :: string
  lm_disable_prefix_caching :: bool
  lm_disable_hybrid_kv_cache_manager :: bool

definition LmcacheEngineConfig_default :: LmcacheEngineConfig where
  "LmcacheEngineConfig_default =
     \<lparr> lm_mode = LmV1, lm_host = ''localhost'', lm_port = 5555, lm_http_port = 8080, lm_l1_size_gb = 20,
       lm_eviction_policy = ''LRU'', lm_chunk_size = 256, lm_spawn_server = False, lm_server_binary = ''lmcache'',
       lm_server_extra_args = [], lm_config_file = [], lm_connector_module_path = [], lm_isolated_ipc = False,
       lm_server_urls = [], lm_disable_prefix_caching = False, lm_disable_hybrid_kv_cache_manager = False \<rparr>"

record VllmEngineConfig =
  vl_binary :: string
  vl_extra_args :: "string list"

record SglangEngineConfig =
  sg_binary :: string
  sg_host :: string
  sg_port :: nat
  sg_context_length :: nat
  sg_mem_fraction_static :: f32
  sg_extra_args :: "string list"

datatype LlamaCppMode = PythonServer | LlamaBinary

record LlamaCppEngineConfig =
  lc_binary :: string
  lc_mode :: LlamaCppMode
  lc_host :: string
  lc_port :: nat
  lc_n_ctx :: nat
  lc_n_threads :: nat
  lc_n_gpu_layers :: int
  lc_extra_args :: "string list"

record MlxLmEngineConfig =
  mx_binary :: string
  mx_host :: string
  mx_port :: nat
  mx_extra_args :: "string list"

record TensorrtLlmEngineConfig =
  tr_binary :: string
  tr_host :: string
  tr_port :: nat
  tr_extra_args :: "string list"

record CgnInferEngineConfig =
  ci_binary_path :: string
  ci_host :: string
  ci_port :: nat
  ci_ctx :: "nat option"
  ci_threads :: "nat option"
  ci_extra_args :: "string list"

record EngineConfig =
  ec_kind :: EngineKind
  ec_url :: string
  ec_kv_offload :: KvOffload
  ec_vllm :: VllmEngineConfig
  ec_sglang :: SglangEngineConfig
  ec_llama_cpp :: LlamaCppEngineConfig
  ec_mlx_lm :: MlxLmEngineConfig
  ec_tensorrt_llm :: TensorrtLlmEngineConfig
  ec_cgn_infer :: CgnInferEngineConfig
  ec_lmcache :: LmcacheEngineConfig

definition VLLM_HTTP :: nat where "VLLM_HTTP = 8000"

definition MLX_LM_HTTP :: nat where "MLX_LM_HTTP = 8090"

definition EngineConfig_default :: EngineConfig where
  "EngineConfig_default =
     \<lparr> ec_kind = Vllm, ec_url = ''http://127.0.0.1:'' @ show_nat VLLM_HTTP, ec_kv_offload = OffNone,
       ec_vllm = \<lparr> vl_binary = ''vllm'', vl_extra_args = [''--enable-chunked-prefill''] \<rparr>,
       ec_sglang = \<lparr> sg_binary = ''python'', sg_host = ''127.0.0.1'', sg_port = VLLM_HTTP, sg_context_length = 4096,
         sg_mem_fraction_static = f32_round (85 / 100), sg_extra_args = [] \<rparr>,
       ec_llama_cpp = \<lparr> lc_binary = ''python'', lc_mode = PythonServer, lc_host = ''127.0.0.1'', lc_port = VLLM_HTTP,
         lc_n_ctx = 4096, lc_n_threads = 4, lc_n_gpu_layers = 0, lc_extra_args = [] \<rparr>,
       ec_mlx_lm = \<lparr> mx_binary = ''python3'', mx_host = ''127.0.0.1'', mx_port = MLX_LM_HTTP, mx_extra_args = [] \<rparr>,
       ec_tensorrt_llm = \<lparr> tr_binary = ''trtllm-serve'', tr_host = ''127.0.0.1'', tr_port = VLLM_HTTP, tr_extra_args = [] \<rparr>,
       ec_cgn_infer = \<lparr> ci_binary_path = ''cgn-infer'', ci_host = ''127.0.0.1'', ci_port = VLLM_HTTP, ci_ctx = None,
         ci_threads = None, ci_extra_args = [] \<rparr>,
       ec_lmcache = LmcacheEngineConfig_default \<rparr>"

record PipelineWorkerConfig =
  pw_listen :: string
  pw_layers :: string
  pw_endpoint :: "string option"
  pw_spawn :: bool

record PipelineTopologyConfig =
  pt_coordinator_layers :: string
  pt_workers :: "PipelineWorkerConfig list"
  pt_activation_encoding :: string

text \<open>The adapters are listed in the order of the \<open>BTreeMap\<close>.\<close>

record ModelSpec =
  md_name :: string
  md_tp :: nat
  md_max_model_len :: "nat option"
  md_extra_args :: "string list"
  md_path :: "string option"
  md_lora :: "(string \<times> string) list"
  md_pipeline :: "PipelineTopologyConfig option"

section \<open>Text of numbers and names\<close>

definition show_int :: "int \<Rightarrow> string" where
  "show_int i = (if i < 0 then CHR ''-'' # show_nat (nat (- i)) else show_nat (nat i))"

text \<open>\<open>{:.3}\<close>: three decimals, rounded half to even.\<close>

definition pad3 :: "nat \<Rightarrow> string" where
  "pad3 n = [dec_char (n div 100 mod 10), dec_char (n div 10 mod 10), dec_char (n mod 10)]"

definition show_fixed3 :: "f32 \<Rightarrow> string" where
  "show_fixed3 x =
     (let n = nat (round_half_even (\<bar>x\<bar> * 1000)) in (if x < 0 then ''-'' else []) @ show_nat (n div 1000) @ ''.'' @ pad3 (n mod 1000))"

fun join_comma :: "string list \<Rightarrow> string" where
  "join_comma [] = []"
| "join_comma [s] = s"
| "join_comma (s # t # ss) = s @ '','' @ join_comma (t # ss)"

fun engine_kind_name :: "EngineKind \<Rightarrow> string" where
  "engine_kind_name Vllm = ''vllm''"
| "engine_kind_name Sglang = ''sglang''"
| "engine_kind_name LlamaCpp = ''llama_cpp''"
| "engine_kind_name Mlx = ''mlx''"
| "engine_kind_name TensorrtLlm = ''tensorrt_llm''"
| "engine_kind_name CgnInfer = ''cgn_infer''"
| "engine_kind_name OpenaiCompat = ''openai_compat''"

text \<open>\<open>str::replace\<close> of a pattern that is not empty.\<close>

function replace_all :: "string \<Rightarrow> string \<Rightarrow> string \<Rightarrow> string" where
  "replace_all pat new s =
     (if pat = [] \<or> s = [] then s
      else if take (length pat) s = pat then new @ replace_all pat new (drop (length pat) s)
      else hd s # replace_all pat new (tl s))"
  by pat_completeness auto
termination by (relation "measure (\<lambda>(_, _, s). length s)") (auto simp: neq_Nil_conv)

text \<open>The multiplication sign in the message of the validation.\<close>

definition TIMES :: string where "TIMES = [CHR 0xC3, CHR 0x97]"

section \<open>Connector settings\<close>

record spawn_env =
  sx_to_string :: "json \<Rightarrow> string"
  sx_read_file :: "string \<Rightarrow> (string, string) result"

definition validate_kv_offload :: "EngineConfig \<Rightarrow> (Error, unit) result" where
  "validate_kv_offload cfg =
     (let kind = ec_kind cfg; off = ec_kv_offload cfg;
          good = (off = OffNone \<or> kind = Vllm \<and> off \<in> {OffNixl, OffLmcache, OffKvbm, OffCgn}
                  \<or> kind = Sglang \<and> off \<in> {OffHicache, OffNixl, OffLmcache})
      in if \<not> good
         then Inl (Config (''engine.kv_offload = \"'' @ offload_as_str off @ ''\" is not supported with engine.kind = \"''
                @ engine_kind_name kind @ ''\". Valid pairings: vllm '' @ TIMES @ '' {none,nixl,lmcache,kvbm,cgn}, ''
                @ ''sglang '' @ TIMES @ '' {none,nixl,hicache,lmcache}, llama_cpp/mlx/tensorrt_llm/cgn_infer/openai_compat ''
                @ TIMES @ '' {none}.''))
         else if kind = Sglang \<and> off = OffLmcache \<and> lm_mode (ec_lmcache cfg) = LmMp
         then Inl (Config (''engine.lmcache.mode = \"mp\" renders vLLM's LMCacheMPConnector. ''
                @ ''SGLang uses --enable-lmcache with an LMCache YAML: set mode = \"v1\" ''
                @ ''and point [engine.lmcache].config_file at that file (mp_host / mp_port live in the YAML).''))
         else Inr ())"

definition mp_connector_value :: "LmcacheEngineConfig \<Rightarrow> json" where
  "mp_connector_value cfg =
     (let extra = (if lm_server_urls cfg \<noteq> [] then [(''lmcache.mp.server_urls'', JString (lm_server_urls cfg))]
                   else [(''lmcache.mp.host'', JString (lm_host cfg)), (''lmcache.mp.port'', JUint (lm_port cfg))])
                  @ (if lm_isolated_ipc cfg then [(''lmcache.mp.isolated_ipc'', JBool True)] else [])
      in JObject ([(''kv_connector'', JString ''LMCacheMPConnector''), (''kv_role'', JString ''kv_both'')]
           @ (if lm_connector_module_path cfg \<noteq> []
              then [(''kv_connector_module_path'', JString (lm_connector_module_path cfg))] else [])
           @ [(''kv_connector_extra_config'', JObject extra)]))"

definition mp_transfer_config :: "spawn_env \<Rightarrow> LmcacheEngineConfig \<Rightarrow> string" where
  "mp_transfer_config env cfg = sx_to_string env (mp_connector_value cfg)"

definition nixl_both :: json where
  "nixl_both = JObject [(''kv_connector'', JString ''NixlConnector''), (''kv_role'', JString ''kv_both'')]"

fun transfer_text :: "spawn_env \<Rightarrow> NodeRoleCfg \<Rightarrow> KvOffload \<Rightarrow> LmcacheEngineConfig \<Rightarrow> string option" where
  "transfer_text env role OffNone lm = None"
| "transfer_text env role OffHicache lm = None"
| "transfer_text env CfgBoth OffNixl lm = Some ''{\"kv_connector\":\"NixlConnector\",\"kv_role\":\"kv_both\"}''"
| "transfer_text env CfgPrefill OffNixl lm = Some ''{\"kv_connector\":\"NixlConnector\",\"kv_role\":\"kv_producer\"}''"
| "transfer_text env CfgDecode OffNixl lm = Some ''{\"kv_connector\":\"NixlConnector\",\"kv_role\":\"kv_consumer\"}''"
| "transfer_text env CfgBoth OffLmcache lm = Some (case lm_mode lm of
     LmV1 \<Rightarrow> ''{\"kv_connector\":\"LMCacheConnectorV1\",\"kv_role\":\"kv_both\"}'' | LmMp \<Rightarrow> mp_transfer_config env lm)"
| "transfer_text env CfgPrefill OffLmcache lm = Some (sx_to_string env (JObject
     [(''kv_connector'', JString ''PdConnector''), (''kv_role'', JString ''kv_both''),
      (''kv_connector_extra_config'', JObject [(''connectors'', JArray
         [case lm_mode lm of
            LmV1 \<Rightarrow> JObject [(''kv_connector'', JString ''LMCacheConnectorV1''), (''kv_role'', JString ''kv_both'')]
          | LmMp \<Rightarrow> mp_connector_value lm,
          nixl_both])])]))"
| "transfer_text env CfgDecode OffLmcache lm = Some ''{\"kv_connector\":\"NixlConnector\",\"kv_role\":\"kv_both\"}''"
| "transfer_text env CfgBoth OffKvbm lm = Some (''{\"kv_connector\":\"DynamoConnector\",\"kv_role\":\"kv_both\",''
     @ ''\"kv_connector_module_path\":\"kvbm.vllm_integration.connector\"}'')"
| "transfer_text env CfgPrefill OffKvbm lm = Some (''{\"kv_connector\":\"DynamoConnector\",\"kv_role\":\"kv_producer\",''
     @ ''\"kv_connector_module_path\":\"kvbm.vllm_integration.connector\"}'')"
| "transfer_text env CfgDecode OffKvbm lm = Some (''{\"kv_connector\":\"DynamoConnector\",\"kv_role\":\"kv_consumer\",''
     @ ''\"kv_connector_module_path\":\"kvbm.vllm_integration.connector\"}'')"
| "transfer_text env CfgBoth OffCgn lm = Some (''{\"kv_connector\":\"CognitoraConnector\",\"kv_role\":\"kv_both\",''
     @ ''\"kv_connector_module_path\":\"cgn_kv_connector.connector\"}'')"
| "transfer_text env CfgPrefill OffCgn lm = Some (''{\"kv_connector\":\"PdConnector\",\"kv_role\":\"kv_both\",''
     @ ''\"kv_connector_extra_config\":{\"connectors\":[{\"kv_connector\":\"CognitoraConnector\",\"kv_role\":\"kv_both\",''
     @ ''\"kv_connector_module_path\":\"cgn_kv_connector.connector\"},''
     @ ''{\"kv_connector\":\"NixlConnector\",\"kv_role\":\"kv_both\"}]}}'')"
| "transfer_text env CfgDecode OffCgn lm = Some ''{\"kv_connector\":\"NixlConnector\",\"kv_role\":\"kv_both\"}''"

definition vllm_kv_transfer_config :: "spawn_env \<Rightarrow> NodeRoleCfg \<Rightarrow> EngineConfig \<Rightarrow> (Error, string option) result" where
  "vllm_kv_transfer_config env role cfg =
     (let path = lm_config_file (ec_lmcache cfg) in
      if ec_kv_offload cfg = OffLmcache \<and> path \<noteq> []
      then (case sx_read_file env path of
              Inl e \<Rightarrow> Inl (Config (''engine.lmcache.config_file = '' @ debug_str path @ '' could not be read: '' @ e
                @ ''. This file is the kv-transfer-config JSON published next to an LMCache server (the `<engine>-connection` ConfigMap).''))
            | Inr json \<Rightarrow>
                if trim json = [] then Inl (Config (''engine.lmcache.config_file = '' @ debug_str path @ '' is empty''))
                else Inr (Some (trim json)))
      else Inr (transfer_text env role (ec_kv_offload cfg) (ec_lmcache cfg)))"

section \<open>Command lines\<close>

definition should_spawn :: "EngineConfig \<Rightarrow> bool" where
  "should_spawn cfg \<longleftrightarrow> ec_kind cfg \<noteq> OpenaiCompat"

definition opt_arg :: "string \<Rightarrow> nat option \<Rightarrow> string list" where
  "opt_arg flag v = (case v of None \<Rightarrow> [] | Some n \<Rightarrow> [flag, show_nat n])"

definition path_or_name :: "ModelSpec \<Rightarrow> string" where
  "path_or_name spec = (case md_path spec of Some p \<Rightarrow> p | None \<Rightarrow> md_name spec)"

definition render_tensorrt_llm :: "EngineConfig \<Rightarrow> ModelSpec \<Rightarrow> string list" where
  "render_tensorrt_llm cfg spec =
     (let c = ec_tensorrt_llm cfg in
      [tr_binary c, path_or_name spec, ''--host'', tr_host c, ''--port'', show_nat (tr_port c), ''--tp_size'', show_nat (md_tp spec)]
      @ opt_arg ''--max_seq_len'' (md_max_model_len spec) @ tr_extra_args c @ md_extra_args spec)"

definition lora_pairs :: "ModelSpec \<Rightarrow> string list" where
  "lora_pairs spec = map (\<lambda>(n, p). n @ ''='' @ p) (md_lora spec)"

definition render_vllm :: "spawn_env \<Rightarrow> EngineConfig \<Rightarrow> ModelSpec \<Rightarrow> NodeRoleCfg \<Rightarrow> (Error, string list) result" where
  "render_vllm env cfg spec role =
     (case vllm_kv_transfer_config env role cfg of
        Inl e \<Rightarrow> Inl e
      | Inr json \<Rightarrow> Inr
          ([vl_binary (ec_vllm cfg), ''serve'', md_name spec, ''--tensor-parallel-size'', show_nat (md_tp spec)]
           @ opt_arg ''--max-model-len'' (md_max_model_len spec)
           @ (case json of None \<Rightarrow> [] | Some j \<Rightarrow> [''--kv-transfer-config'', j])
           @ (if ec_kv_offload cfg = OffLmcache
              then (if lm_disable_prefix_caching (ec_lmcache cfg) then [''--no-enable-prefix-caching''] else [])
                @ (if lm_disable_hybrid_kv_cache_manager (ec_lmcache cfg) then [''--disable-hybrid-kv-cache-manager''] else [])
              else [])
           @ (if md_lora spec \<noteq> [] then [''--enable-lora'', ''--lora-modules''] @ lora_pairs spec else [])
           @ vl_extra_args (ec_vllm cfg) @ md_extra_args spec))"

definition sglang_hicache_args :: "KvOffload \<Rightarrow> string list" where
  "sglang_hicache_args off =
     (if off = OffHicache
      then [''--enable-hierarchical-cache'', ''--hicache-ratio'', ''2'', ''--hicache-write-policy'', ''write_through'',
            ''--hicache-storage-backend'', ''nixl''] else [])"

definition sglang_lmcache_args :: "KvOffload \<Rightarrow> string list" where
  "sglang_lmcache_args off = (if off = OffLmcache then [''--enable-lmcache''] else [])"

definition render_sglang :: "EngineConfig \<Rightarrow> ModelSpec \<Rightarrow> string list" where
  "render_sglang cfg spec =
     (let c = ec_sglang cfg; ctx_len = case_option (sg_context_length c) id (md_max_model_len spec) in
      [sg_binary c, ''-m'', ''sglang.launch_server'', ''--model-path'', path_or_name spec, ''--served-model-name'', md_name spec,
       ''--tp'', show_nat (md_tp spec), ''--host'', sg_host c, ''--port'', show_nat (sg_port c), ''--context-length'', show_nat ctx_len,
       ''--mem-fraction-static'', show_fixed3 (sg_mem_fraction_static c)]
      @ sglang_hicache_args (ec_kv_offload cfg) @ sglang_lmcache_args (ec_kv_offload cfg)
      @ (if md_lora spec \<noteq> [] then ''--lora-paths'' # lora_pairs spec else [])
      @ sg_extra_args c @ md_extra_args spec)"

definition render_llama_cpp :: "EngineConfig \<Rightarrow> ModelSpec \<Rightarrow> (Error, string list) result" where
  "render_llama_cpp cfg spec =
     (let c = ec_llama_cpp cfg; ctx = show_nat (case_option (lc_n_ctx c) id (md_max_model_len spec)) in
      case md_path spec of
        None \<Rightarrow> Inl (Config (''engine.kind = llama_cpp requires [models.\"'' @ md_name spec @ ''\"].path = <gguf>''))
      | Some path \<Rightarrow> Inr
          ((case lc_mode c of
              PythonServer \<Rightarrow>
                [lc_binary c, ''-m'', ''llama_cpp.server'', ''--host'', lc_host c, ''--port'', show_nat (lc_port c), ''--model'', path,
                 ''--model_alias'', md_name spec, ''--n_ctx'', ctx, ''--n_threads'', show_nat (lc_n_threads c),
                 ''--n_gpu_layers'', show_int (lc_n_gpu_layers c)]
            | LlamaBinary \<Rightarrow>
                [lc_binary c, ''--model'', path, ''--host'', lc_host c, ''--port'', show_nat (lc_port c), ''--ctx-size'', ctx,
                 ''--threads'', show_nat (lc_n_threads c), ''--n-gpu-layers'', show_int (lc_n_gpu_layers c)])
           @ lc_extra_args c @ md_extra_args spec))"

definition render_mlx :: "EngineConfig \<Rightarrow> ModelSpec \<Rightarrow> string list" where
  "render_mlx cfg spec =
     (let c = ec_mlx_lm cfg in
      [mx_binary c, ''-m'', ''mlx_lm.server'', ''--model'', path_or_name spec, ''--host'', mx_host c, ''--port'', show_nat (mx_port c)]
      @ mx_extra_args c @ md_extra_args spec)"

definition cgn_infer_model_path :: "ModelSpec \<Rightarrow> (Error, string) result" where
  "cgn_infer_model_path spec =
     (case md_path spec of
        None \<Rightarrow> Inl (Config (''engine.kind = cgn_infer requires [models.\"'' @ md_name spec @ ''\"].path = <gguf>''))
      | Some p \<Rightarrow> Inr p)"

definition worker_endpoint :: "PipelineWorkerConfig \<Rightarrow> string" where
  "worker_endpoint w = (case pw_endpoint w of Some e \<Rightarrow> e | None \<Rightarrow> ''http://'' @ pw_listen w)"

definition pipeline_args :: "ModelSpec \<Rightarrow> (Error, string list) result" where
  "pipeline_args spec =
     (case md_pipeline spec of
        None \<Rightarrow> Inr []
      | Some pipe \<Rightarrow>
          if pt_coordinator_layers pipe = [] \<or> pt_workers pipe = []
          then Inl (Config (''[models.\"'' @ md_name spec @ ''\"].pipeline requires coordinator_layers and at least one worker''))
          else Inr [''--role'', ''coordinator'', ''--layers'', pt_coordinator_layers pipe, ''--workers'',
                    join_comma (map worker_endpoint (pt_workers pipe)), ''--activation-encoding'', pt_activation_encoding pipe])"

definition render_cgn_infer :: "EngineConfig \<Rightarrow> ModelSpec \<Rightarrow> (Error, string list) result" where
  "render_cgn_infer cfg spec =
     (let c = ec_cgn_infer cfg in
      case cgn_infer_model_path spec of
        Inl e \<Rightarrow> Inl e
      | Inr path \<Rightarrow>
          (case pipeline_args spec of
             Inl e \<Rightarrow> Inl e
           | Inr pipe_args \<Rightarrow> Inr
               ([ci_binary_path c, ''serve'', ''--model'', path, ''--host'', ci_host c, ''--port'', show_nat (ci_port c)]
                @ opt_arg ''--ctx'' (case md_max_model_len spec of Some n \<Rightarrow> Some n | None \<Rightarrow> ci_ctx c)
                @ opt_arg ''--threads'' (ci_threads c) @ pipe_args @ ci_extra_args c @ md_extra_args spec)))"

fun worker_argvs :: "EngineConfig \<Rightarrow> ModelSpec \<Rightarrow> string \<Rightarrow> string \<Rightarrow> PipelineWorkerConfig list \<Rightarrow> (Error, string list list) result" where
  "worker_argvs cfg spec path enc [] = Inr []"
| "worker_argvs cfg spec path enc (w # ws) =
     (if \<not> pw_spawn w then worker_argvs cfg spec path enc ws
      else if pw_listen w = [] \<or> pw_layers w = []
      then Inl (Config (''[models.\"'' @ md_name spec @ ''\"].pipeline.workers entries need listen and layers''))
      else
        (case worker_argvs cfg spec path enc ws of
           Inl e \<Rightarrow> Inl e
         | Inr out \<Rightarrow> Inr
             (([ci_binary_path (ec_cgn_infer cfg), ''worker'', ''--model'', path, ''--layers'', pw_layers w, ''--listen'', pw_listen w,
                ''--activation-encoding'', enc] @ opt_arg ''--threads'' (ci_threads (ec_cgn_infer cfg))) # out)))"

definition render_pipeline_workers :: "EngineConfig \<Rightarrow> ModelSpec \<Rightarrow> (Error, string list list) result" where
  "render_pipeline_workers cfg spec =
     (case md_pipeline spec of
        None \<Rightarrow> Inr []
      | Some pipe \<Rightarrow>
          if ec_kind cfg \<noteq> CgnInfer then Inl (Config ''[models.*.pipeline] requires engine.kind = \"cgn_infer\"'')
          else (case cgn_infer_model_path spec of
                  Inl e \<Rightarrow> Inl e
                | Inr path \<Rightarrow> worker_argvs cfg spec path (pt_activation_encoding pipe) (pt_workers pipe)))"

definition render_legacy :: "string list \<Rightarrow> ModelSpec \<Rightarrow> string list" where
  "render_legacy template spec =
     map (\<lambda>a. replace_all ''{tp}'' (show_nat (md_tp spec)) (replace_all ''{model}'' (md_name spec) a)) template
     @ opt_arg ''--max-model-len'' (md_max_model_len spec) @ md_extra_args spec"

definition render_argv :: "spawn_env \<Rightarrow> EngineConfig \<Rightarrow> ModelSpec \<Rightarrow> NodeRoleCfg \<Rightarrow> string list option \<Rightarrow> (Error, string list) result" where
  "render_argv env cfg spec role legacy_cmd =
     (case validate_kv_offload cfg of
        Inl e \<Rightarrow> Inl e
      | Inr _ \<Rightarrow>
          (case legacy_cmd of
             Some (a # as) \<Rightarrow> Inr (render_legacy (a # as) spec)
           | _ \<Rightarrow>
               (case ec_kind cfg of
                  Vllm \<Rightarrow> render_vllm env cfg spec role
                | Sglang \<Rightarrow> Inr (render_sglang cfg spec)
                | LlamaCpp \<Rightarrow> render_llama_cpp cfg spec
                | Mlx \<Rightarrow> Inr (render_mlx cfg spec)
                | TensorrtLlm \<Rightarrow> Inr (render_tensorrt_llm cfg spec)
                | CgnInfer \<Rightarrow> render_cgn_infer cfg spec
                | OpenaiCompat \<Rightarrow> Inl (Config (''engine.kind = openai_compat does not spawn '' @ [CHR 0xE2, CHR 0x80, CHR 0x94]
                    @ '' caller should check should_spawn()'')))))"

definition server_host :: "string \<Rightarrow> string" where
  "server_host host =
     (if starts_with ''tcp://'' host then before_pat ''://'' (drop 6 host)
      else if starts_with ''grpc://'' host then before_pat ''://'' (drop 7 host) else host)"

definition lmcache_server_argv :: "LmcacheEngineConfig \<Rightarrow> string list" where
  "lmcache_server_argv cfg =
     [lm_server_binary cfg, ''server'', ''--host'', server_host (lm_host cfg), ''--port'', show_nat (lm_port cfg),
      ''--http-port'', show_nat (lm_http_port cfg), ''--l1-size-gb'', show_nat (lm_l1_size_gb cfg),
      ''--eviction-policy'', lm_eviction_policy cfg, ''--chunk-size'', show_nat (lm_chunk_size cfg)]
     @ (if lm_isolated_ipc cfg then [''--isolated-ipc''] else []) @ lm_server_extra_args cfg"

definition should_spawn_lmcache_server :: "EngineConfig \<Rightarrow> bool" where
  "should_spawn_lmcache_server cfg \<longleftrightarrow>
     ec_kind cfg = Vllm \<and> ec_kv_offload cfg = OffLmcache \<and> lm_mode (ec_lmcache cfg) = LmMp \<and> lm_spawn_server (ec_lmcache cfg)"

definition engine_child_env :: "EngineConfig \<Rightarrow> (string \<times> string) list" where
  "engine_child_env cfg =
     (if ec_kv_offload cfg \<noteq> OffLmcache then []
      else [(''PYTHONHASHSEED'', ''0'')]
        @ (if ec_kind cfg = Sglang \<and> lm_config_file (ec_lmcache cfg) \<noteq> []
           then [(''LMCACHE_CONFIG_FILE'', lm_config_file (ec_lmcache cfg))] else []))"

section \<open>Accepted configurations\<close>

text \<open>The legacy template wins over every engine that would not be spawned at all.\<close>

lemma renderers_nonempty:
  "render_vllm env cfg spec role = Inr argv \<Longrightarrow> argv \<noteq> []"
  "render_llama_cpp cfg spec = Inr argv \<Longrightarrow> argv \<noteq> []"
  "render_cgn_infer cfg spec = Inr argv \<Longrightarrow> argv \<noteq> []"
  "render_sglang cfg spec \<noteq> []" "render_mlx cfg spec \<noteq> []" "render_tensorrt_llm cfg spec \<noteq> []"
  "render_legacy (a # as) spec \<noteq> []"
proof -
  show "render_vllm env cfg spec role = Inr argv \<Longrightarrow> argv \<noteq> []"
    unfolding render_vllm_def by (cases "vllm_kv_transfer_config env role cfg") auto
  have cons: "Inr ((x # xs) @ ys) = Inr argv \<Longrightarrow> argv \<noteq> []" for x :: string and xs ys argv by auto
  show "argv \<noteq> []" if r: "render_llama_cpp cfg spec = Inr argv"
  proof (cases "md_path spec")
    case None
    with r show ?thesis by (simp only: render_llama_cpp_def Let_def option.case sum.distinct)
  next
    case (Some p)
    show ?thesis using r unfolding render_llama_cpp_def Let_def Some option.case
      by (cases "lc_mode (ec_llama_cpp cfg)") (simp_all only: LlamaCppMode.case, (erule cons)+)
  qed
  show "argv \<noteq> []" if r: "render_cgn_infer cfg spec = Inr argv"
    using r unfolding render_cgn_infer_def Let_def
    by (cases "cgn_infer_model_path spec"; cases "pipeline_args spec") (simp_all only: sum.case sum.distinct, erule cons)
qed (simp_all only: render_sglang_def render_mlx_def render_tensorrt_llm_def render_legacy_def Let_def append_is_Nil_conv list.distinct
    list.map simp_thms not_False_eq_True)

lemma render_argv_nonempty:
  assumes "render_argv env cfg spec role legacy = Inr argv"
  shows "argv \<noteq> []"
proof (cases "\<exists>a as. legacy = Some (a # as)")
  case True
  with assms renderers_nonempty(7) show ?thesis unfolding render_argv_def by (auto split: sum.splits)
next
  case False
  then have "legacy = None \<or> legacy = Some []" by (metis list.exhaust not_None_eq)
  with assms show ?thesis
    unfolding render_argv_def
    by (cases "ec_kind cfg") (auto split: sum.splits dest: renderers_nonempty(1-3) simp: renderers_nonempty(4-6))
qed

lemma worker_argvs_nonempty: "worker_argvs cfg spec path enc ws = Inr out \<Longrightarrow> argv \<in> set out \<Longrightarrow> argv \<noteq> []"
  by (induction ws arbitrary: out) (auto split: if_splits sum.splits)

lemma render_pipeline_workers_nonempty: "render_pipeline_workers cfg spec = Inr out \<Longrightarrow> argv \<in> set out \<Longrightarrow> argv \<noteq> []"
  by (auto simp: render_pipeline_workers_def split: option.splits if_splits sum.splits dest: worker_argvs_nonempty)

text \<open>The text form of a JSON value shows every plain string in it.\<close>

fun json_strings :: "json \<Rightarrow> string list" where
  "json_strings (JString s) = [s]"
| "json_strings (JArray js) = concat (map json_strings js)"
| "json_strings (JObject kvs) = concat (map (\<lambda>(k, j). json_strings j) kvs)"
| "json_strings _ = []"

definition plain :: "string \<Rightarrow> bool" where
  "plain s \<longleftrightarrow> (\<forall>c \<in> set s. 32 \<le> (of_char c :: nat) \<and> of_char c < (127 :: nat) \<and> c \<noteq> CHR 0x22 \<and> c \<noteq> CHR 0x5C)"

definition shows_strings :: "(json \<Rightarrow> string) \<Rightarrow> bool" where
  "shows_strings f \<longleftrightarrow> (\<forall>j s. s \<in> set (json_strings j) \<longrightarrow> plain s \<longrightarrow> sublist s (f j))"

lemma transfer_shared:
  assumes "shows_strings (sx_to_string env)" and "off \<in> {OffNixl, OffLmcache, OffKvbm, OffCgn}"
  shows "\<exists>pj dj. transfer_text env CfgPrefill off lm = Some pj \<and> transfer_text env CfgDecode off lm = Some dj \<and>
    (let c = if off = OffKvbm then ''DynamoConnector'' else ''NixlConnector'' in sublist c pj \<and> sublist c dj)"
proof -
  have "plain ''NixlConnector''" by (simp add: plain_def)
  then have "sublist ''NixlConnector'' (sx_to_string env j)" if "''NixlConnector'' \<in> set (json_strings j)" for j
    using assms(1) that by (simp add: shows_strings_def)
  with assms(2) show ?thesis by (auto simp: nixl_both_def sublist_code)
qed

text \<open>The two sides of a split deployment agree. When the same vLLM configuration with any KV offload is
  rendered for a prefill and for a decode node, both command lines carry a connector setting, and the
  two settings name a common connector that moves blocks between nodes: Dynamo's for KVBM, NIXL for
  every other offload.
\<close>

lemma split_deployment_shares_connector:
  assumes "shows_strings (sx_to_string env)" and "ec_kind cfg = Vllm" and "ec_kv_offload cfg \<noteq> OffNone"
    and "lm_config_file (ec_lmcache cfg) = []"
    and "render_argv env cfg spec CfgPrefill None = Inr p" and "render_argv env cfg spec CfgDecode None = Inr d"
  shows "\<exists>pj dj. sublist [''--kv-transfer-config'', pj] p \<and> sublist [''--kv-transfer-config'', dj] d \<and>
    (let c = if ec_kv_offload cfg = OffKvbm then ''DynamoConnector'' else ''NixlConnector'' in sublist c pj \<and> sublist c dj)"
proof -
  have off: "ec_kv_offload cfg \<in> {OffNixl, OffLmcache, OffKvbm, OffCgn}"
    using assms(2,3,5) by (auto simp: render_argv_def validate_kv_offload_def Let_def split: if_splits sum.splits)
  obtain pj dj where t: "transfer_text env CfgPrefill (ec_kv_offload cfg) (ec_lmcache cfg) = Some pj"
    "transfer_text env CfgDecode (ec_kv_offload cfg) (ec_lmcache cfg) = Some dj"
    "let c = if ec_kv_offload cfg = OffKvbm then ''DynamoConnector'' else ''NixlConnector'' in sublist c pj \<and> sublist c dj"
    using transfer_shared [OF assms(1) off, of "ec_lmcache cfg"] by blast
  have cfgtxt: "vllm_kv_transfer_config env role cfg = Inr (transfer_text env role (ec_kv_offload cfg) (ec_lmcache cfg))" for role
    using assms(4) by (simp add: vllm_kv_transfer_config_def)
  have args: "sublist [''--kv-transfer-config'', j] argv"
    if r: "render_argv env cfg spec role None = Inr argv" and j: "transfer_text env role (ec_kv_offload cfg) (ec_lmcache cfg) = Some j"
    for role argv j
  proof -
    from r assms(2) have r': "render_vllm env cfg spec role = Inr argv" by (auto simp: render_argv_def split: sum.splits)
    let ?pre = "[vl_binary (ec_vllm cfg), ''serve'', md_name spec, ''--tensor-parallel-size'', show_nat (md_tp spec)]
      @ opt_arg ''--max-model-len'' (md_max_model_len spec)"
    have "\<exists>rest. argv = ?pre @ [''--kv-transfer-config'', j] @ rest"
      using r' unfolding render_vllm_def cfgtxt j sum.case option.case by auto
    then show ?thesis by (metis sublist_appendI)
  qed
  from args [OF assms(5) t(1)] args [OF assms(6) t(2)] t(3) show ?thesis by blast
qed

text \<open>A printer that shows the strings of a value one after the other, and a configuration with each offload.\<close>

definition demo_spawn_env :: spawn_env where
  "demo_spawn_env = \<lparr> sx_to_string = (\<lambda>j. concat (json_strings j)), sx_read_file = (\<lambda>_. Inl ''no file'') \<rparr>"

definition demo_spec :: ModelSpec where
  "demo_spec = \<lparr> md_name = ''llama'', md_tp = 1, md_max_model_len = None, md_extra_args = [], md_path = None, md_lora = [], md_pipeline = None \<rparr>"

lemma demo_shows_strings: "shows_strings (sx_to_string demo_spawn_env)"
proof -
  have "sublist s (concat ss)" if "s \<in> set ss" for s :: string and ss
  proof -
    from that obtain ys zs where "ss = ys @ s # zs" by (auto dest: split_list)
    then have "concat ss = concat ys @ s @ concat zs" by simp
    then show ?thesis by (simp only: sublist_appendI)
  qed
  then show ?thesis by (simp add: shows_strings_def demo_spawn_env_def)
qed

lemma split_deployment_shares_connector_witness:
  "\<exists>p d pj dj. render_argv demo_spawn_env (EngineConfig_default\<lparr> ec_kv_offload := OffLmcache \<rparr>) demo_spec CfgPrefill None = Inr p \<and>
    render_argv demo_spawn_env (EngineConfig_default\<lparr> ec_kv_offload := OffLmcache \<rparr>) demo_spec CfgDecode None = Inr d \<and>
    sublist [''--kv-transfer-config'', pj] p \<and> sublist [''--kv-transfer-config'', dj] d \<and>
    sublist ''NixlConnector'' pj \<and> sublist ''NixlConnector'' dj"
proof -
  let ?cfg = "EngineConfig_default\<lparr> ec_kv_offload := OffLmcache \<rparr>"
  have run: "\<exists>argv. render_argv demo_spawn_env ?cfg demo_spec role None = Inr argv" for role
    by (simp add: render_argv_def validate_kv_offload_def render_vllm_def vllm_kv_transfer_config_def EngineConfig_default_def
        LmcacheEngineConfig_default_def)
  obtain p d where pd: "render_argv demo_spawn_env ?cfg demo_spec CfgPrefill None = Inr p"
    "render_argv demo_spawn_env ?cfg demo_spec CfgDecode None = Inr d" using run by blast
  have "ec_kind ?cfg = Vllm" "ec_kv_offload ?cfg \<noteq> OffNone" "lm_config_file (ec_lmcache ?cfg) = []" "ec_kv_offload ?cfg = OffLmcache"
    by (simp_all add: EngineConfig_default_def LmcacheEngineConfig_default_def)
  from split_deployment_shares_connector [OF demo_shows_strings this(1-3) pd] this(4) pd show ?thesis
    unfolding Let_def by auto
qed

end
