(* ===== verification/Cgn_Supervisor.thy ===== *)
theory Cgn_Supervisor
  imports Cgn_Spawn Cgn_Outcome
begin

text \<open>
  Process supervision (\<open>cgn-agent/src/supervisor.rs\<close>): the resolution of the engine configuration,
  the start of a process group, the watch loop with its backoff, draining and the two waiting loops. A process
  is a value of the type \<open>'c\<close>; what starting one gives, which of them have exited, the readings of
  the clock and the answers of a probe are arguments. The lemmas show that the waiting loops end, that
  a group is restarted as a whole, and what a failed restart leaves behind.
\<close>

section \<open>Configuration\<close>

record ModelCfg =
  mo_lora :: "(string \<times> string) list"
  mo_tp :: nat
  mo_max_model_len :: "nat option"
  mo_extra_args :: "string list"
  mo_path :: "string option"
  mo_pipeline :: "PipelineTopologyConfig option"

record SupCfg =
  su_engine :: EngineConfig
  su_models :: "(string \<times> ModelCfg) list"
  su_vllm_url :: "string option"
  su_vllm_cmd :: "string list option"
  su_role :: NodeRoleCfg
  su_gpu_index :: "nat option"

definition resolve_engine_config :: "SupCfg \<Rightarrow> EngineConfig" where
  "resolve_engine_config cfg =
     (case su_vllm_url cfg of
        Some u \<Rightarrow> if u \<noteq> [] \<and> ec_url (su_engine cfg) = ec_url EngineConfig_default then (su_engine cfg)\<lparr> ec_url := u \<rparr> else su_engine cfg
      | None \<Rightarrow> su_engine cfg)"

definition default_model_spec :: "SupCfg \<Rightarrow> ModelSpec option" where
  "default_model_spec cfg =
     (case su_models cfg of
        [] \<Rightarrow> None
      | (name, m) # _ \<Rightarrow> Some \<lparr> md_name = name, md_tp = mo_tp m, md_max_model_len = mo_max_model_len m, md_extra_args = mo_extra_args m,
           md_path = mo_path m, md_lora = mo_lora m, md_pipeline = mo_pipeline m \<rparr>)"

section \<open>Starting a group\<close>

text \<open>
  \<open>ve_spawn\<close> starts a program with extra variables, \<open>ve_ambient\<close> tells the variables the agent itself
  has, and \<open>ve_lmcache i\<close> is the \<open>i\<close>-th look at the LMCache server: its exit status, whether it is healthy, and
  the seconds since the start.
\<close>

record 'c sup_env =
  ve_render :: spawn_env
  ve_spawn :: "string list \<Rightarrow> (string \<times> string) list \<Rightarrow> (string, 'c) result"
  ve_ambient :: "string \<Rightarrow> bool"
  ve_lmcache :: "nat \<Rightarrow> string option \<times> bool \<times> nat"

definition child_env :: "(string \<Rightarrow> bool) \<Rightarrow> nat option \<Rightarrow> (string \<times> string) list \<Rightarrow> (string \<times> string) list" where
  "child_env ambient gpu_index extra_env =
     filter (\<lambda>(k, _). \<not> ambient k)
       (extra_env @ (case gpu_index of None \<Rightarrow> []
          | Some idx \<Rightarrow> [(''CUDA_VISIBLE_DEVICES'', show_nat idx), (''HIP_VISIBLE_DEVICES'', show_nat idx)]))"

definition spawn_child :: "'c sup_env \<Rightarrow> nat option \<Rightarrow> (string \<times> string) list \<Rightarrow> string list \<Rightarrow> (Error, 'c) outcome" where
  "spawn_child env gpu_index extra_env argv =
     (if argv = [] then Panic
      else case ve_spawn env argv (child_env (ve_ambient env) gpu_index extra_env) of
             Inl e \<Rightarrow> Err (Internal (''spawn engine: '' @ e))
           | Inr c \<Rightarrow> Ok c)"

fun spawn_all :: "'c sup_env \<Rightarrow> nat option \<Rightarrow> (string \<times> string) list \<Rightarrow> string list list \<Rightarrow> (Error, 'c list) outcome" where
  "spawn_all env gpu extra [] = Ok []"
| "spawn_all env gpu extra (argv # argvs) =
     and_then (spawn_child env gpu extra argv) (\<lambda>c. and_then (spawn_all env gpu extra argvs) (\<lambda>cs. Ok (c # cs)))"

fun lmcache_loop :: "(nat \<Rightarrow> string option \<times> bool \<times> nat) \<Rightarrow> string \<Rightarrow> nat \<Rightarrow> nat \<Rightarrow> (Error, unit) result option" where
  "lmcache_loop look url 0 i = None"
| "lmcache_loop look url (Suc fuel) i =
     (case look i of
        (Some status, _, _) \<Rightarrow> Some (Inl (Unavailable (''lmcache server exited before '' @ url @ '' was healthy (status '' @ status @ '')'')))
      | (None, True, _) \<Rightarrow> Some (Inr ())
      | (None, False, elapsed) \<Rightarrow>
          if elapsed > 60 then Some (Inl (Unavailable (''lmcache server never became healthy at '' @ url)))
          else lmcache_loop look url fuel (Suc i))"

definition wait_lmcache_server :: "(nat \<Rightarrow> string option \<times> bool \<times> nat) \<Rightarrow> nat \<Rightarrow> (Error, unit) result option" where
  "wait_lmcache_server look http_port = lmcache_loop look (''http://127.0.0.1:'' @ show_nat http_port @ ''/healthcheck'') 62 0"

text \<open>
  \<open>Ok None\<close> leaves the children as they are; \<open>Ok (Some cs)\<close> replaces them. The processes that a failing
  call has already started are killed when their handles are dropped.
\<close>

definition start_lmcache :: "SupCfg \<Rightarrow> 'c sup_env \<Rightarrow> (Error, 'c list) outcome" where
  "start_lmcache cfg env =
     (let ec = resolve_engine_config cfg in
      if should_spawn_lmcache_server ec
      then and_then (spawn_child env (su_gpu_index cfg) (engine_child_env ec) (lmcache_server_argv (ec_lmcache ec))) (\<lambda>server.
           case wait_lmcache_server (ve_lmcache env) (lm_http_port (ec_lmcache ec)) of
             Some (Inr _) \<Rightarrow> Ok [server]
           | Some (Inl e) \<Rightarrow> Err e
           | None \<Rightarrow> Panic)
      else Ok [])"

definition spawn_engine_for_default_model :: "SupCfg \<Rightarrow> 'c sup_env \<Rightarrow> (Error, 'c list option) outcome" where
  "spawn_engine_for_default_model cfg env =
     (let ec = resolve_engine_config cfg in
      if \<not> should_spawn ec then Ok None
      else
        (case default_model_spec cfg of
           None \<Rightarrow> Ok None
         | Some spec \<Rightarrow>
             and_then (start_lmcache cfg env) (\<lambda>first.
             and_then (of_result (render_pipeline_workers ec spec)) (\<lambda>workers.
             and_then (of_result (render_argv (ve_render env) ec spec (su_role cfg) (su_vllm_cmd cfg))) (\<lambda>argv.
             and_then (spawn_all env (su_gpu_index cfg) (engine_child_env ec) (workers @ [argv])) (\<lambda>cs.
             Ok (Some (first @ cs))))))))"

section \<open>The watch loop\<close>

record 'c Supervisor =
  sv_children :: "'c list"
  sv_backoff :: nat

definition kill_children :: "'c Supervisor \<Rightarrow> 'c Supervisor" where
  "kill_children st = st\<lparr> sv_children := [] \<rparr>"

text \<open>One turn of \<open>supervise\<close>; \<open>exited\<close> is what \<open>try_wait\<close> says of each child.\<close>

definition supervise_turn :: "SupCfg \<Rightarrow> ('c \<Rightarrow> bool) \<times> 'c sup_env \<Rightarrow> 'c Supervisor \<Rightarrow> 'c Supervisor" where
  "supervise_turn cfg obs st =
     (if sv_children st = [] then st
      else if \<not> list_ex (fst obs) (sv_children st) then st\<lparr> sv_backoff := 1 \<rparr>
      else
        let st = (kill_children st)\<lparr> sv_backoff := min (sv_backoff st * 2) 30 \<rparr>
        in case spawn_engine_for_default_model cfg (snd obs) of
             Ok (Some cs) \<Rightarrow> st\<lparr> sv_children := cs \<rparr>
           | _ \<Rightarrow> st)"

section \<open>Waiting\<close>

text \<open>\<open>drain\<close>: the \<open>i\<close>-th reading of the in-flight counter and of the milliseconds since the start.\<close>

fun drain_loop :: "(nat \<Rightarrow> nat \<times> nat) \<Rightarrow> nat \<Rightarrow> nat \<Rightarrow> nat \<Rightarrow> nat option" where
  "drain_loop look timeout 0 i = None"
| "drain_loop look timeout (Suc fuel) i =
     (case look i of (running, now) \<Rightarrow>
        if running = 0 \<or> timeout \<le> now then Some running else drain_loop look timeout fuel (Suc i))"

definition drain :: "(nat \<Rightarrow> nat \<times> nat) \<Rightarrow> nat \<Rightarrow> nat option" where
  "drain look timeout = drain_loop look timeout (timeout div 100 + 2) 0"

text \<open>\<open>wait_ready\<close>: the \<open>i\<close>-th answer of the probe and the milliseconds since the start.\<close>

fun ready_loop :: "(nat \<Rightarrow> bool \<times> nat) \<Rightarrow> nat \<Rightarrow> nat \<Rightarrow> nat \<Rightarrow> (Error, unit) result option" where
  "ready_loop look mx 0 i = None"
| "ready_loop look mx (Suc fuel) i =
     (case look i of (ready, elapsed) \<Rightarrow>
        if ready then Some (Inr ())
        else if elapsed > mx then Some (Inl (Unavailable ''engine never became ready''))
        else ready_loop look mx fuel (Suc i))"

definition wait_ready :: "(nat \<Rightarrow> bool \<times> nat) \<Rightarrow> nat \<Rightarrow> (Error, unit) result option" where
  "wait_ready look mx = ready_loop look mx (mx div 100 + 2) 0"

section \<open>The loops end\<close>

lemma lmcache_loop_ends:
  assumes "\<And>i. i \<le> snd (snd (look i))" and "62 \<le> i + fuel" and "0 < fuel"
  shows "lmcache_loop look url fuel i \<noteq> None"
  using assms(2,3)
proof (induction fuel arbitrary: i)
  case (Suc fuel)
  have "i \<le> snd (snd (look i))" by (rule assms(1))
  with Suc show ?case by (cases "fuel = 0") (auto split: prod.splits option.splits bool.splits)
qed simp

lemma wait_lmcache_server_ends: "(\<And>i. i \<le> snd (snd (look i))) \<Longrightarrow> wait_lmcache_server look port \<noteq> None"
  unfolding wait_lmcache_server_def by (rule lmcache_loop_ends) auto

lemma drain_loop_ends:
  assumes "\<And>i. 100 * i \<le> snd (look i)" and "timeout \<le> 100 * (i + fuel - 1)" and "0 < fuel"
  shows "drain_loop look timeout fuel i \<noteq> None"
  using assms(2,3)
proof (induction fuel arbitrary: i)
  case (Suc fuel)
  have "100 * i \<le> snd (look i)" by (rule assms(1))
  with Suc show ?case by (cases "fuel = 0") (auto split: prod.splits)
qed simp

lemma drain_loop_result:
  "drain_loop look timeout fuel i = Some n \<Longrightarrow> \<exists>j \<ge> i. n = fst (look j) \<and> (n = 0 \<or> timeout \<le> snd (look j)) \<and> (\<forall>k. i \<le> k \<and> k < j \<longrightarrow> fst (look k) \<noteq> 0)"
proof (induction fuel arbitrary: i)
  case (Suc fuel)
  show ?case
  proof (cases "fst (look i) = 0 \<or> timeout \<le> snd (look i)")
    case True
    with Suc.prems show ?thesis by (intro exI [of _ i]) (auto split: prod.splits)
  next
    case False
    with Suc.prems have "drain_loop look timeout fuel (Suc i) = Some n" by (auto split: prod.splits)
    from Suc.IH [OF this] obtain j where j: "Suc i \<le> j" "n = fst (look j)" "n = 0 \<or> timeout \<le> snd (look j)"
      "\<forall>k. Suc i \<le> k \<and> k < j \<longrightarrow> fst (look k) \<noteq> 0" by blast
    have "fst (look k) \<noteq> 0" if "i \<le> k \<and> k < j" for k using that False j(4) by (cases "k = i") auto
    with j show ?thesis by (intro exI [of _ j]) auto
  qed
qed simp

lemma ready_loop_ends:
  assumes "\<And>i. 100 * i \<le> snd (look i)" and "mx < 100 * (i + fuel - 1)" and "0 < fuel"
  shows "ready_loop look mx fuel i \<noteq> None"
  using assms(2,3)
proof (induction fuel arbitrary: i)
  case (Suc fuel)
  have "100 * i \<le> snd (look i)" by (rule assms(1))
  with Suc show ?case by (cases "fuel = 0") (auto split: prod.splits)
qed simp

text \<open>Draining ends, and what it returns is zero or was read after the deadline.\<close>

lemma drain_ends:
  assumes "\<And>i. 100 * i \<le> snd (look i)"
  shows "\<exists>n. drain look timeout = Some n \<and> (n = 0 \<or> (\<exists>j. timeout \<le> snd (look j)))"
proof -
  have "drain look timeout \<noteq> None" unfolding drain_def by (rule drain_loop_ends [OF assms]) simp_all
  then obtain n where n: "drain look timeout = Some n" by blast
  from drain_loop_result [OF n [unfolded drain_def]] n show ?thesis by blast
qed

lemma wait_ready_ends: "(\<And>i. 100 * i \<le> snd (look i)) \<Longrightarrow> wait_ready look mx \<noteq> None"
  unfolding wait_ready_def by (rule ready_loop_ends) simp_all

section \<open>Restarts\<close>

lemma spawn_child_Ok: "argv \<noteq> [] \<Longrightarrow> spawn_child env gpu extra argv \<noteq> Panic"
  by (simp add: spawn_child_def split: sum.splits)

lemma spawn_all_no_panic: "\<forall>argv \<in> set argvs. argv \<noteq> [] \<Longrightarrow> spawn_all env gpu extra argvs \<noteq> Panic"
proof (induction argvs)
  case (Cons argv argvs)
  then have "spawn_child env gpu extra argv \<noteq> Panic" "spawn_all env gpu extra argvs \<noteq> Panic" using spawn_child_Ok by auto
  then show ?case by (cases "spawn_child env gpu extra argv"; cases "spawn_all env gpu extra argvs") auto
qed simp

lemma spawn_all_length: "spawn_all env gpu extra argvs = Ok cs \<Longrightarrow> length cs = length argvs"
  by (induction argvs arbitrary: cs) (auto simp: and_then_Ok)

lemma start_lmcache_no_panic:
  assumes "\<And>i. i \<le> snd (snd (ve_lmcache env i))"
  shows "start_lmcache cfg env \<noteq> Panic"
proof -
  let ?ec = "resolve_engine_config cfg"
  have "lmcache_server_argv (ec_lmcache ?ec) \<noteq> []" by (simp only: lmcache_server_argv_def append_is_Nil_conv list.distinct simp_thms not_False_eq_True)
  then have sp: "spawn_child env (su_gpu_index cfg) (engine_child_env ?ec) (lmcache_server_argv (ec_lmcache ?ec)) \<noteq> Panic"
    by (rule spawn_child_Ok)
  obtain r where "wait_lmcache_server (ve_lmcache env) (lm_http_port (ec_lmcache ?ec)) = Some r"
    using wait_lmcache_server_ends [of "ve_lmcache env", OF assms] by fastforce
  with sp show ?thesis
    by (cases "spawn_child env (su_gpu_index cfg) (engine_child_env ?ec) (lmcache_server_argv (ec_lmcache ?ec))"; cases r)
      (simp_all add: start_lmcache_def Let_def)
qed

text \<open>Indexing the rendered command lines never panics.\<close>

lemma spawn_engine_no_panic:
  assumes "\<And>i. i \<le> snd (snd (ve_lmcache env i))"
  shows "spawn_engine_for_default_model cfg env \<noteq> Panic"
proof (cases "should_spawn (resolve_engine_config cfg)"; cases "default_model_spec cfg")
  fix spec assume s: "should_spawn (resolve_engine_config cfg)" "default_model_spec cfg = Some spec"
  let ?ec = "resolve_engine_config cfg"
  have first: "start_lmcache cfg env \<noteq> Panic" by (rule start_lmcache_no_panic [OF assms])
  have group: "spawn_all env (su_gpu_index cfg) (engine_child_env ?ec) (ws @ [argv]) \<noteq> Panic"
    if "render_pipeline_workers ?ec spec = Inr ws" "render_argv (ve_render env) ?ec spec (su_role cfg) (su_vllm_cmd cfg) = Inr argv" for ws argv
    using render_pipeline_workers_nonempty [OF that(1)] render_argv_nonempty [OF that(2)] by (intro spawn_all_no_panic) auto
  have all: "and_then (spawn_all env (su_gpu_index cfg) (engine_child_env ?ec) (ws @ [argv])) (\<lambda>cs. Ok (Some (f @ cs))) \<noteq> Panic"
    if "render_pipeline_workers ?ec spec = Inr ws" "render_argv (ve_render env) ?ec spec (su_role cfg) (su_vllm_cmd cfg) = Inr argv" for ws argv f
    using group [OF that] by (cases "spawn_all env (su_gpu_index cfg) (engine_child_env ?ec) (ws @ [argv])") auto
  from s first all show ?thesis
    by (cases "start_lmcache cfg env"; cases "render_pipeline_workers ?ec spec";
        cases "render_argv (ve_render env) ?ec spec (su_role cfg) (su_vllm_cmd cfg)")
      (simp_all add: spawn_engine_for_default_model_def Let_def of_result_def)
qed (simp_all add: spawn_engine_for_default_model_def Let_def)

text \<open>The backoff never exceeds thirty seconds and returns to one second after a quiet turn.\<close>

lemma backoff_bound: "sv_backoff st \<le> 30 \<Longrightarrow> sv_backoff (supervise_turn cfg obs st) \<le> 30"
  by (auto simp: supervise_turn_def Let_def kill_children_def split: outcome.splits option.splits)

lemma no_children_no_turn: "sv_children st = [] \<Longrightarrow> fold (supervise_turn cfg) later st = st"
  by (induction later) (simp_all add: supervise_turn_def)

text \<open>A failed restart is final. When a member of the process group has exited and starting the group
  again fails once, the agent has killed the remaining members and no later turn of the watch loop starts a
  process again, whatever the environment does.
\<close>

lemma failed_respawn_is_final:
  assumes "\<exists>c \<in> set (sv_children st). exited c" and "spawn_engine_for_default_model cfg env = Err e"
  shows "sv_children (fold (supervise_turn cfg) later (supervise_turn cfg (exited, env) st)) = []"
proof -
  have "sv_children st \<noteq> []" using assms(1) by auto
  with assms have "sv_children (supervise_turn cfg (exited, env) st) = []"
    by (auto simp: supervise_turn_def Let_def kill_children_def list_ex_iff)
  then show ?thesis using no_children_no_turn by metis
qed

definition demo_sup_cfg :: SupCfg where
  "demo_sup_cfg = \<lparr> su_engine = EngineConfig_default, su_models = [(''m'', \<lparr> mo_lora = [], mo_tp = 1, mo_max_model_len = None,
     mo_extra_args = [], mo_path = None, mo_pipeline = None \<rparr>)], su_vllm_url = None, su_vllm_cmd = None, su_role = CfgBoth, su_gpu_index = None \<rparr>"

definition demo_sup_env :: "nat sup_env" where
  "demo_sup_env = \<lparr> ve_render = demo_spawn_env, ve_spawn = (\<lambda>_ _. Inl ''no such file''), ve_ambient = (\<lambda>_. False), ve_lmcache = (\<lambda>i. (None, False, i)) \<rparr>"

lemma failed_respawn_is_final_witness:
  "\<exists>e. spawn_engine_for_default_model demo_sup_cfg demo_sup_env = Err e \<and>
    sv_children (fold (supervise_turn demo_sup_cfg) [((\<lambda>_. True), demo_sup_env\<lparr> ve_spawn := (\<lambda>_ _. Inr 7) \<rparr>)]
      (supervise_turn demo_sup_cfg ((\<lambda>_. True), demo_sup_env) \<lparr> sv_children = [1], sv_backoff = 1 \<rparr>)) = []"
proof -
  have "\<exists>e. spawn_engine_for_default_model demo_sup_cfg demo_sup_env = Err e"
    by (simp add: spawn_engine_for_default_model_def demo_sup_cfg_def demo_sup_env_def resolve_engine_config_def should_spawn_def
        default_model_spec_def start_lmcache_def should_spawn_lmcache_server_def EngineConfig_default_def render_pipeline_workers_def
        render_argv_def validate_kv_offload_def render_vllm_def vllm_kv_transfer_config_def of_result_def spawn_child_def Let_def
        LmcacheEngineConfig_default_def)
  then obtain e where e: "spawn_engine_for_default_model demo_sup_cfg demo_sup_env = Err e" by blast
  show ?thesis
    using failed_respawn_is_final [of "\<lparr> sv_children = [1], sv_backoff = 1 \<rparr>" "\<lambda>_. True", OF _ e,
        of "[((\<lambda>_. True), demo_sup_env\<lparr> ve_spawn := (\<lambda>_ _. Inr 7) \<rparr>)]"] e by simp
qed

lemma start_lmcache_length:
  assumes "start_lmcache cfg env = Ok f"
  shows "length f = (if should_spawn_lmcache_server (resolve_engine_config cfg) then 1 else 0)"
proof (cases "should_spawn_lmcache_server (resolve_engine_config cfg)")
  case True
  then obtain server where "spawn_child env (su_gpu_index cfg) (engine_child_env (resolve_engine_config cfg))
      (lmcache_server_argv (ec_lmcache (resolve_engine_config cfg))) = Ok server"
    using assms unfolding start_lmcache_def Let_def by (simp only: if_True and_then_Ok) blast
  with True assms show ?thesis by (auto simp: start_lmcache_def Let_def split: option.splits sum.splits)
qed (use assms in \<open>simp add: start_lmcache_def Let_def\<close>)

text \<open>
  A restart replaces the whole group: the LMCache server first if the agent runs one, then one process per
  pipeline worker in their order, and the engine last.
\<close>

lemma restart_replaces_group:
  assumes "\<exists>c \<in> set (sv_children st). exited c" and "spawn_engine_for_default_model cfg env = Ok (Some cs)"
  shows "sv_children (supervise_turn cfg (exited, env) st) = cs \<and> (\<exists>spec ws argv. default_model_spec cfg = Some spec \<and>
    render_pipeline_workers (resolve_engine_config cfg) spec = Inr ws \<and>
    render_argv (ve_render env) (resolve_engine_config cfg) spec (su_role cfg) (su_vllm_cmd cfg) = Inr argv \<and>
    length cs = (if should_spawn_lmcache_server (resolve_engine_config cfg) then 1 else 0) + length ws + 1)"
proof -
  let ?ec = "resolve_engine_config cfg"
  have "sv_children st \<noteq> []" using assms(1) by auto
  with assms have "sv_children (supervise_turn cfg (exited, env) st) = cs"
    by (auto simp: supervise_turn_def Let_def list_ex_iff)
  moreover have sp: "should_spawn ?ec" using assms(2) by (cases "should_spawn ?ec") (simp_all add: spawn_engine_for_default_model_def Let_def)
  moreover from this obtain spec where spec: "default_model_spec cfg = Some spec"
    using assms(2) by (cases "default_model_spec cfg") (simp_all add: spawn_engine_for_default_model_def Let_def)
  from assms(2) obtain ws argv f gs where g: "render_pipeline_workers ?ec spec = Inr ws"
    "render_argv (ve_render env) ?ec spec (su_role cfg) (su_vllm_cmd cfg) = Inr argv"
    "start_lmcache cfg env = Ok f" "spawn_all env (su_gpu_index cfg) (engine_child_env ?ec) (ws @ [argv]) = Ok gs" "cs = f @ gs"
    unfolding spawn_engine_for_default_model_def Let_def spec option.case
    by (simp only: sp not_True_eq_False if_False and_then_Ok of_result_Ok outcome.inject option.inject) blast
  have "length f = (if should_spawn_lmcache_server ?ec then 1 else 0)" using g(3) by (rule start_lmcache_length)
  with spawn_all_length [OF g(4)] g(5) have "length cs = (if should_spawn_lmcache_server ?ec then 1 else 0) + length ws + 1" by simp
  ultimately show ?thesis using spec g(1,2) by blast
qed

end
