(* ===== verification/Cgn_EngineHttp.thy ===== *)
theory Cgn_EngineHttp
  imports Cgn_Spawn Cgn_Scheduler
begin

text \<open>
  The driver of the agent for engines that speak the OpenAI protocol
  (\<open>cgn-agent/src/engine/openai_http.rs\<close>): it posts a request and reads the event stream of the answer.
  Bytes are characters. JSON printing and parsing (serde_json) and the HTTP exchange (reqwest) are
  parameters. The receiver of the tokens is the function \<open>keeps\<close> from the number of tokens sent so far
  to whether it still listens. The lemmas show that the cutting of the stream into chunks does not matter.
\<close>

section \<open>Bytes and frames\<close>

text \<open>\<open>str::from_utf8\<close> accepts exactly the well-formed sequences.\<close>

definition cont :: "nat \<Rightarrow> bool" where "cont b \<longleftrightarrow> 128 \<le> b \<and> b < 192"

fun utf8_len :: "nat list \<Rightarrow> nat" where
  "utf8_len (b # r) =
     (if b < 128 then 1
      else case r of
        c # r1 \<Rightarrow>
          if 194 \<le> b \<and> b < 224 \<and> cont c then 2
          else (case r1 of
            d # r2 \<Rightarrow>
              if cont d \<and> (b = 224 \<and> 160 \<le> c \<and> c < 192 \<or> b = 237 \<and> 128 \<le> c \<and> c < 160
                  \<or> 225 \<le> b \<and> b < 240 \<and> b \<noteq> 237 \<and> cont c) then 3
              else (case r2 of
                e # _ \<Rightarrow>
                  if cont d \<and> cont e \<and> (b = 240 \<and> 144 \<le> c \<and> c < 192 \<or> b = 244 \<and> 128 \<le> c \<and> c < 144
                      \<or> 241 \<le> b \<and> b < 244 \<and> cont c) then 4 else 0
              | [] \<Rightarrow> 0)
          | [] \<Rightarrow> 0)
      | [] \<Rightarrow> 0)"
| "utf8_len [] = 0"

function utf8_valid :: "nat list \<Rightarrow> bool" where
  "utf8_valid bs = (if bs = [] then True else if utf8_len bs = 0 then False else utf8_valid (drop (utf8_len bs) bs))"
  by pat_completeness auto
termination by (relation "measure length") auto

declare utf8_valid.simps [simp del]

definition from_utf8 :: "string \<Rightarrow> string option" where
  "from_utf8 s = (if utf8_valid (map of_char s) then Some s else None)"

definition CR :: char where "CR = CHR 0x0D"

fun find_frame_end :: "string \<Rightarrow> nat option" where
  "find_frame_end (a # b # rest) =
     (if a = NL \<and> b = NL then Some 2
      else if a = NL \<and> b = CR \<and> rest \<noteq> [] \<and> hd rest = NL then Some 3
      else map_option Suc (find_frame_end (b # rest)))"
| "find_frame_end _ = None"

text \<open>\<open>trim_start_matches\<close>: every leading occurrence goes.\<close>

lemma starts_with_shrinks: "p \<noteq> [] \<Longrightarrow> starts_with p s \<Longrightarrow> length s - length p < length s"
  by (cases s; cases p) (auto simp: starts_with_def)

function strip_all :: "string \<Rightarrow> string \<Rightarrow> string" where
  "strip_all p s = (if p \<noteq> [] \<and> starts_with p s then strip_all p (drop (length p) s) else s)"
  by pat_completeness auto
termination by (relation "measure (\<lambda>(_, s). length s)") (simp_all add: starts_with_shrinks)

declare strip_all.simps [simp del]

definition frame_payload :: "string \<Rightarrow> string option" where
  "frame_payload frame =
     (let text = case_option [] id (from_utf8 frame) in
      map_option (\<lambda>line. trim (strip_all ''data:'' line)) (find (starts_with ''data:'') (map trim (lines text))))"

section \<open>The driver\<close>

record ChatDelta =
  cd_content :: "string option"
  cd_tool_calls :: "json option"

record FrameChoice =
  fc_text :: "string option"
  fc_delta :: "ChatDelta option"
  fc_finish_reason :: "string option"
  fc_logprobs :: "json option"

record StreamFrame =
  sf_choices :: "FrameChoice list"
  sf_usage :: "(u32 \<times> u32) option"

record http_env =
  he_to_string :: "json \<Rightarrow> string"
  he_from_str :: "string \<Rightarrow> json option"
  he_frame :: "string \<Rightarrow> StreamFrame option"
  he_as_f64 :: "json \<Rightarrow> rat option"
  he_f32 :: "f32 \<Rightarrow> json"

fun as_array :: "json \<Rightarrow> json list option" where
  "as_array (JArray js) = Some js"
| "as_array _ = None"

definition mean_logprob :: "http_env \<Rightarrow> json \<Rightarrow> f32 option" where
  "mean_logprob env v =
     (case (case Option.bind (json_get ''content'' v) as_array of
              Some items \<Rightarrow> Some (List.map_filter (\<lambda>i. Option.bind (json_get ''logprob'' i) (he_as_f64 env)) items)
            | None \<Rightarrow> map_option (List.map_filter (he_as_f64 env)) (Option.bind (json_get ''token_logprobs'' v) as_array)) of
        Some (x # xs) \<Rightarrow>
          Some (f32_round (f64_round (fold (\<lambda>y a. f64_round (a + y)) (x # xs) 0 / f64_round (of_nat (length (x # xs))))))
      | _ \<Rightarrow> None)"

definition terminal_token :: "bool \<Rightarrow> u32 \<times> u32 \<Rightarrow> Token" where
  "terminal_token saw_finish usage =
     \<lparr> tk_text = [], tk_logprob = 0, tk_finish = (if saw_finish then [] else ''stop''), tk_tool_calls_json = [],
       tk_prompt_tokens = fst usage, tk_completion_tokens = snd usage, tk_logprobs_json = [] \<rparr>"

text \<open>One choice of a frame as a token; a choice without text, finish reason and tool calls is skipped.\<close>

definition choice_token :: "http_env \<Rightarrow> bool \<Rightarrow> FrameChoice \<Rightarrow> Token option" where
  "choice_token env forward_logprobs c =
     (let text = (case Option.bind (fc_delta c) cd_content of Some t \<Rightarrow> t | None \<Rightarrow> case_option [] id (fc_text c));
          tools = (case Option.bind (fc_delta c) cd_tool_calls of Some v \<Rightarrow> he_to_string env v | None \<Rightarrow> []);
          fin = case_option [] id (fc_finish_reason c)
      in if text = [] \<and> fin = [] \<and> tools = [] then None
         else Some \<lparr> tk_text = text, tk_logprob = case_option 0 id (Option.bind (fc_logprobs c) (mean_logprob env)), tk_finish = fin,
                tk_tool_calls_json = tools, tk_prompt_tokens = 0, tk_completion_tokens = 0,
                tk_logprobs_json = (case fc_logprobs c of Some v \<Rightarrow> if forward_logprobs then he_to_string env v else [] | None \<Rightarrow> []) \<rparr>)"

record sse =
  ss_buf :: string
  ss_finish :: bool
  ss_usage :: "u32 \<times> u32"
  ss_sent :: "Token list"

datatype flow = Go sse | Stop sse

definition sse_start :: sse where
  "sse_start = \<lparr> ss_buf = [], ss_finish = False, ss_usage = (0, 0), ss_sent = [] \<rparr>"

fun send_choices :: "http_env \<Rightarrow> bool \<Rightarrow> (nat \<Rightarrow> bool) \<Rightarrow> FrameChoice list \<Rightarrow> sse \<Rightarrow> flow" where
  "send_choices env fl keeps [] st = Go st"
| "send_choices env fl keeps (c # cs) st =
     (case choice_token env fl c of
        None \<Rightarrow> send_choices env fl keeps cs st
      | Some t \<Rightarrow>
          let st = st\<lparr> ss_finish := (ss_finish st \<or> tk_finish t \<noteq> []) \<rparr>
          in if keeps (length (ss_sent st)) then send_choices env fl keeps cs (st\<lparr> ss_sent := ss_sent st @ [t] \<rparr>) else Stop st)"

definition send_terminal :: "(nat \<Rightarrow> bool) \<Rightarrow> sse \<Rightarrow> sse" where
  "send_terminal keeps st =
     (if keeps (length (ss_sent st)) then st\<lparr> ss_sent := ss_sent st @ [terminal_token (ss_finish st) (ss_usage st)] \<rparr> else st)"

definition handle_frame :: "http_env \<Rightarrow> bool \<Rightarrow> (nat \<Rightarrow> bool) \<Rightarrow> string \<Rightarrow> sse \<Rightarrow> flow" where
  "handle_frame env fl keeps frame st =
     (case frame_payload frame of
        None \<Rightarrow> Go st
      | Some payload \<Rightarrow>
          if payload = ''[DONE]'' then Stop (send_terminal keeps st)
          else (case he_frame env payload of
                  None \<Rightarrow> Go st
                | Some f \<Rightarrow> send_choices env fl keeps (sf_choices f)
                    (case sf_usage f of Some u \<Rightarrow> st\<lparr> ss_usage := u \<rparr> | None \<Rightarrow> st)))"

lemma find_frame_end_bound: "find_frame_end s = Some n \<Longrightarrow> 2 \<le> n \<and> n \<le> length s"
  by (induction s arbitrary: n rule: find_frame_end.induct) (auto split: if_splits simp: Suc_le_eq neq_Nil_conv)

text \<open>The frames that are complete in the buffer; \<open>handle\<close> never touches it.\<close>

function drain_frames :: "(string \<Rightarrow> sse \<Rightarrow> flow) \<Rightarrow> string \<Rightarrow> sse \<Rightarrow> flow" where
  "drain_frames handle buf st =
     (case find_frame_end buf of
        None \<Rightarrow> Go (st\<lparr> ss_buf := buf \<rparr>)
      | Some n \<Rightarrow>
          (case handle (take n buf) st of
             Stop st' \<Rightarrow> Stop (st'\<lparr> ss_buf := drop n buf \<rparr>)
           | Go st' \<Rightarrow> drain_frames handle (drop n buf) st'))"
  by pat_completeness auto
termination by (relation "measure (\<lambda>(_, buf, _). length buf)") (auto dest: find_frame_end_bound)

declare drain_frames.simps [simp del]

fun stream_loop :: "http_env \<Rightarrow> string \<Rightarrow> bool \<Rightarrow> (nat \<Rightarrow> bool) \<Rightarrow> (string, string) result list \<Rightarrow> sse \<Rightarrow> (Error, unit) result \<times> sse" where
  "stream_loop env kind fl keeps [] st =
     (if \<not> ss_finish st then (Inl (Internal (kind @ '' stream ended before a finish reason'')), st)
      else (Inr (), send_terminal keeps st))"
| "stream_loop env kind fl keeps (Inl e # items) st = (Inl (Internal (kind @ '' stream: '' @ e)), st)"
| "stream_loop env kind fl keeps (Inr bytes # items) st =
     (case drain_frames (handle_frame env fl keeps) (ss_buf st @ bytes) st of
        Stop st' \<Rightarrow> (Inr (), st')
      | Go st' \<Rightarrow> stream_loop env kind fl keeps items st')"

section \<open>The request\<close>

record EngineMessage =
  em_role :: string
  em_content :: string
  em_content_json :: string
  em_tool_calls_json :: string
  em_tool_call_id :: string

record GenerateReq =
  gq_id :: string
  gq_model :: string
  gq_messages :: "EngineMessage list"
  gq_prompt :: string
  gq_max_tokens :: u32
  gq_temperature :: f32
  gq_top_p :: f32
  gq_stop :: "string list"
  gq_seed :: "u32 option"
  gq_frequency_penalty :: f32
  gq_presence_penalty :: f32
  gq_repetition_penalty :: f32
  gq_top_k :: u32
  gq_logprobs :: bool
  gq_extensions_json :: string
  gq_prefix_digests :: "bytes list"
  gq_resident_digests :: "bytes list"

text \<open>A field of a JSON object: an old value is replaced.\<close>

definition obj_put :: "string \<Rightarrow> json \<Rightarrow> (string \<times> json) list \<Rightarrow> (string \<times> json) list" where
  "obj_put k v kvs = filter (\<lambda>(k', _). k' \<noteq> k) kvs @ [(k, v)]"

definition put_if :: "bool \<Rightarrow> string \<Rightarrow> json \<Rightarrow> (string \<times> json) list \<Rightarrow> (string \<times> json) list" where
  "put_if b k v kvs = (if b then obj_put k v kvs else kvs)"

definition message_json :: "http_env \<Rightarrow> EngineMessage \<Rightarrow> json" where
  "message_json env m =
     (let content = (if em_content_json m \<noteq> []
                     then case_option (JString (em_content m)) id (he_from_str env (em_content_json m)) else JString (em_content m));
          msg = [(''role'', JString (em_role m)), (''content'', content)];
          msg = (if em_tool_calls_json m \<noteq> []
                 then case he_from_str env (em_tool_calls_json m) of Some tc \<Rightarrow> obj_put ''tool_calls'' tc msg | None \<Rightarrow> msg else msg)
      in JObject (put_if (em_tool_call_id m \<noteq> []) ''tool_call_id'' (JString (em_tool_call_id m)) msg))"

definition json_u32 :: "u32 \<Rightarrow> json" where "json_u32 n = JUint (unat n)"

definition apply_sampling :: "http_env \<Rightarrow> GenerateReq \<Rightarrow> bool \<Rightarrow> (string \<times> json) list \<Rightarrow> (string \<times> json) list" where
  "apply_sampling env req chat_mode body =
     (put_if (gq_logprobs req) ''logprobs'' (if chat_mode then JBool True else JUint 1)
     (put_if (gq_top_k req > 0) ''top_k'' (json_u32 (gq_top_k req))
     (put_if (gq_repetition_penalty req \<noteq> 0 \<and> gq_repetition_penalty req \<noteq> 1) ''repetition_penalty'' (he_f32 env (gq_repetition_penalty req))
     (put_if (gq_presence_penalty req \<noteq> 0) ''presence_penalty'' (he_f32 env (gq_presence_penalty req))
     (put_if (gq_frequency_penalty req \<noteq> 0) ''frequency_penalty'' (he_f32 env (gq_frequency_penalty req))
     ((case gq_seed req of Some sd \<Rightarrow> obj_put ''seed'' (json_u32 sd) | None \<Rightarrow> id)
     (put_if (gq_max_tokens req > 0) ''max_tokens'' (json_u32 (gq_max_tokens req))
     (obj_put ''stream_options'' (JObject [(''include_usage'', JBool True)])
     (obj_put ''stream'' (JBool True)
     (obj_put ''stop'' (JArray (map JString (gq_stop req)))
     (obj_put ''top_p'' (he_f32 env (gq_top_p req))
     (obj_put ''temperature'' (he_f32 env (gq_temperature req)) body))))))))))))"

definition merge_extensions :: "http_env \<Rightarrow> string \<Rightarrow> string \<Rightarrow> (string \<times> json) list \<Rightarrow> (string \<times> json) list" where
  "merge_extensions env kind ext body =
     (if ext = [] then body
      else case he_from_str env ext of
             Some (JObject kvs) \<Rightarrow> fold (\<lambda>(k, v). if k = ''cache_salt'' \<and> kind \<noteq> ''vllm'' then id else obj_put k v) kvs body
           | _ \<Rightarrow> body)"

definition digest_hex :: "bytes list \<Rightarrow> string list" where
  "digest_hex ds = map hex_string (filter (\<lambda>d. length d = 32) ds)"

definition kv_transfer_params :: "bytes list \<Rightarrow> bytes list \<Rightarrow> json option" where
  "kv_transfer_params digests resident =
     (if digest_hex digests = [] then None
      else Some (JObject ([(''cgn_prefix_digests'', JArray (map JString (digest_hex digests)))]
        @ (if digest_hex resident \<noteq> [] then [(''cgn_resident_digests'', JArray (map JString (digest_hex resident)))] else []))))"

definition request_body :: "http_env \<Rightarrow> string \<Rightarrow> GenerateReq \<Rightarrow> json" where
  "request_body env kind req =
     (let chat_mode = (gq_messages req \<noteq> []);
          body = (if chat_mode then [(''model'', JString (gq_model req)), (''messages'', JArray (map (message_json env) (gq_messages req)))]
                  else [(''model'', JString (gq_model req)), (''prompt'', JString (gq_prompt req))]);
          body = merge_extensions env kind (gq_extensions_json req) (apply_sampling env req chat_mode body)
      in JObject (case kv_transfer_params (gq_prefix_digests req) (gq_resident_digests req) of
                    Some kv \<Rightarrow> obj_put ''kv_transfer_params'' kv body | None \<Rightarrow> body))"

definition classify_engine_status :: "string \<Rightarrow> nat \<Rightarrow> string \<Rightarrow> string \<Rightarrow> Error" where
  "classify_engine_status kind code status body =
     (let msg = kind @ '' status '' @ status @ '': '' @ body in
      if code = 429 \<or> code = 503 then Unavailable msg
      else if code = 408 then Internal msg
      else if 400 \<le> code \<and> code \<le> 499 then InvalidArgument msg
      else Internal msg)"

text \<open>What a post gives: a transport error, a status with its text, or a stream of chunks.\<close>

datatype http_answer = PostFailed string | PostStatus nat string string | PostStream "(string, string) result list"

definition engine_url :: "string \<Rightarrow> GenerateReq \<Rightarrow> string" where
  "engine_url base req = base @ (if gq_messages req \<noteq> [] then ''/v1/chat/completions'' else ''/v1/completions'')"

definition engine_generate :: "http_env \<Rightarrow> (string \<Rightarrow> json \<Rightarrow> http_answer) \<Rightarrow> string \<Rightarrow> string \<Rightarrow> GenerateReq \<Rightarrow> (nat \<Rightarrow> bool)
    \<Rightarrow> (Error, unit) result \<times> Token list" where
  "engine_generate env post kind base req keeps =
     (case post (engine_url base req) (request_body env kind req) of
        PostFailed e \<Rightarrow> (Inl (Unavailable (kind @ '' post: '' @ e)), [])
      | PostStatus code status body \<Rightarrow> (Inl (classify_engine_status kind code status body), [])
      | PostStream items \<Rightarrow> map_prod id ss_sent (stream_loop env kind (gq_logprobs req) keeps items sse_start))"

datatype embed_answer = EmbedFailed string | EmbedStatus nat string string | EmbedBody "(string, f32 list list \<times> u32 option) result"

definition engine_embed :: "string \<Rightarrow> embed_answer \<Rightarrow> (Error, f32 list list \<times> u32) result" where
  "engine_embed kind answer =
     (case answer of
        EmbedFailed e \<Rightarrow> Inl (Unavailable (kind @ '' embed post: '' @ e))
      | EmbedStatus code status body \<Rightarrow>
          if code = 404 then Inl (Unavailable (kind @ '' returned 404 from /v1/embeddings '' @ [CHR 0xE2, CHR 0x80, CHR 0x94]
                 @ '' is the loaded model an embedding model?''))
          else Inl (Internal (kind @ '' embed status '' @ status @ '': '' @ body))
      | EmbedBody (Inl e) \<Rightarrow> Inl (Internal (kind @ '' embed decode: '' @ e))
      | EmbedBody (Inr (vs, usage)) \<Rightarrow> Inr (vs, case_option 0 id usage))"

definition engine_ready :: "(string \<Rightarrow> nat option) \<Rightarrow> string \<Rightarrow> bool" where
  "engine_ready get_status base \<longleftrightarrow>
     list_ex (\<lambda>path. case get_status (base @ path) of Some c \<Rightarrow> 200 \<le> c \<and> c < 300 | None \<Rightarrow> False) [''/health'', ''/v1/models'']"

section \<open>Chunks do not matter\<close>

lemma find_frame_end_append: "find_frame_end s = Some n \<Longrightarrow> find_frame_end (s @ t) = Some n"
proof (induction s arbitrary: n rule: find_frame_end.induct)
  case (1 a b rest)
  then show ?case by (cases rest) (auto split: if_splits)
qed simp_all

text \<open>Every handler of frames leaves the buffer alone, so it can be set before or after.\<close>

definition buf_free :: "(string \<Rightarrow> sse \<Rightarrow> flow) \<Rightarrow> bool" where
  "buf_free h \<longleftrightarrow> (\<forall>f st b. h f (st\<lparr> ss_buf := b \<rparr>) =
     (case h f st of Go s \<Rightarrow> Go (s\<lparr> ss_buf := b \<rparr>) | Stop s \<Rightarrow> Stop (s\<lparr> ss_buf := b \<rparr>)))"

lemma send_choices_buf:
  "send_choices env fl keeps cs (st\<lparr> ss_buf := b \<rparr>) =
    (case send_choices env fl keeps cs st of Go s \<Rightarrow> Go (s\<lparr> ss_buf := b \<rparr>) | Stop s \<Rightarrow> Stop (s\<lparr> ss_buf := b \<rparr>))"
proof (induction cs arbitrary: st)
  case (Cons c cs)
  have eq: "st\<lparr> ss_buf := b, ss_finish := f, ss_sent := t \<rparr> = st\<lparr> ss_finish := f, ss_sent := t \<rparr>\<lparr> ss_buf := b \<rparr>" for f t by simp
  show ?case
    by (cases "choice_token env fl c") (auto simp: Cons Let_def eq simp del: sse.update_convs)
qed simp

lemma handle_frame_buf_free: "buf_free (handle_frame env fl keeps)"
proof -
  have upd: "st\<lparr> ss_buf := b, ss_usage := u \<rparr> = st\<lparr> ss_usage := u \<rparr>\<lparr> ss_buf := b \<rparr>" for st :: sse and b u by simp
  show ?thesis
    unfolding buf_free_def
  proof (intro allI)
    fix f st b
    show "handle_frame env fl keeps f (st\<lparr> ss_buf := b \<rparr>) =
      (case handle_frame env fl keeps f st of Go s \<Rightarrow> Go (s\<lparr> ss_buf := b \<rparr>) | Stop s \<Rightarrow> Stop (s\<lparr> ss_buf := b \<rparr>))"
      by (cases "frame_payload f"; cases "he_frame env (the (frame_payload f))")
        (auto simp: handle_frame_def send_terminal_def upd send_choices_buf split: option.splits simp del: sse.update_convs)
  qed
qed

lemma drain_frames_buf:
  "buf_free h \<Longrightarrow> drain_frames h buf (st\<lparr> ss_buf := c \<rparr>) = drain_frames h buf st"
proof (induction h buf st arbitrary: c rule: drain_frames.induct)
  case (1 h buf st)
  show ?case
  proof (cases "find_frame_end buf")
    case None
    then show ?thesis by (simp add: drain_frames.simps [of h buf])
  next
    case (Some n)
    have h: "h (take n buf) (st\<lparr> ss_buf := c \<rparr>) =
        (case h (take n buf) st of Go s \<Rightarrow> Go (s\<lparr> ss_buf := c \<rparr>) | Stop s \<Rightarrow> Stop (s\<lparr> ss_buf := c \<rparr>))"
      using 1(2) by (simp only: buf_free_def)
    show ?thesis
    proof (cases "h (take n buf) st")
      case (Go s)
      with 1(1) [OF Some Go 1(2)] Some h show ?thesis by (simp add: drain_frames.simps [of h buf])
    next
      case (Stop s)
      with Some h show ?thesis by (simp add: drain_frames.simps [of h buf])
    qed
  qed
qed

lemma drain_frames_append:
  "buf_free h \<Longrightarrow> drain_frames h (buf @ x) st =
    (case drain_frames h buf st of Go s \<Rightarrow> drain_frames h (ss_buf s @ x) s | Stop s \<Rightarrow> Stop (s\<lparr> ss_buf := ss_buf s @ x \<rparr>))"
proof (induction h buf st rule: drain_frames.induct)
  case (1 h buf st)
  show ?case
  proof (cases "find_frame_end buf")
    case None
    then show ?thesis by (simp add: drain_frames.simps [of h buf] drain_frames_buf [OF 1(2)])
  next
    case (Some n)
    note n = find_frame_end_append [OF Some, of x] find_frame_end_bound [OF Some]
    show ?thesis
    proof (cases "h (take n buf) st")
      case (Go s)
      with 1(1) [OF Some Go 1(2)] Some n show ?thesis
        by (simp add: drain_frames.simps [of h buf] drain_frames.simps [of h "buf @ x"])
    next
      case (Stop s)
      with Some n show ?thesis by (simp add: drain_frames.simps [of h buf] drain_frames.simps [of h "buf @ x"])
    qed
  qed
qed

lemma stream_loop_merge:
  "map_prod id ss_sent (stream_loop env kind fl keeps (Inr a # Inr b # items) st) =
   map_prod id ss_sent (stream_loop env kind fl keeps (Inr (a @ b) # items) st)"
  using drain_frames_append [OF handle_frame_buf_free, of env fl keeps "ss_buf st @ a" b st]
  by (simp split: flow.splits)

lemma stream_loop_concat:
  "map_prod id ss_sent (stream_loop env kind fl keeps (Inr a # map Inr cs @ items) st) =
   map_prod id ss_sent (stream_loop env kind fl keeps (Inr (a @ concat cs) # items) st)"
proof (induction cs arbitrary: a)
  case (Cons c cs)
  show ?case
    using stream_loop_merge [of env kind fl keeps a c "map Inr cs @ items" st] Cons.IH [of "a @ c"]
    by (simp only: list.map append_Cons concat.simps append_assoc)
qed simp

text \<open>C34: How the network cuts the event stream of an engine into chunks has no influence: the tokens the
  agent forwards and the result it reports depend only on the bytes, also when the connection breaks at the end.
\<close>

theorem stream_chunking_irrelevant:
  "engine_generate env (\<lambda>_ _. PostStream (map Inr parts @ rest)) kind base req keeps =
   engine_generate env (\<lambda>_ _. PostStream (Inr (concat parts) # rest)) kind base req keeps"
proof -
  have start: "stream_loop env kind fl keeps (Inr [] # items) sse_start = stream_loop env kind fl keeps items sse_start" for fl items
    by (simp add: drain_frames.simps sse_start_def)
  show ?thesis
    using stream_loop_concat [of env kind "gq_logprobs req" keeps "[]" parts rest sse_start]
    by (simp only: engine_generate_def http_answer.case start append_Nil)
qed

end
