(* ===== verification/Cgn_Sampling.thy ===== *)
theory Cgn_Sampling
  imports Cgn_Outcome Cgn_F32 "HOL-Library.Multiset"
begin

text \<open>
  The sampler of the inference engine (\<open>cgn-infer/src/sampling/mod.rs\<close>). Logits are finite binary32
  numbers. The exponential function, the order that the unstable sort gives to equal elements and the
  weighted choice of the \<open>rand\<close> crate are parameters; a choice that the crate refuses is a panic.
\<close>

record SamplerParams =
  sm_temperature :: f32
  sm_top_p :: f32
  sm_top_k :: nat
  sm_repetition_penalty :: f32
  sm_repeat_last_n :: nat
  sm_seed :: "nat option"

definition SamplerParams_default :: SamplerParams where
  "SamplerParams_default = \<lparr> sm_temperature = 1, sm_top_p = 1, sm_top_k = 0, sm_repetition_penalty = 1, sm_repeat_last_n = 64, sm_seed = None \<rparr>"

text \<open>The binary32 number nearest to \<open>1e-4\<close>.\<close>

definition GREEDY_EPS :: f32 where "GREEDY_EPS = 13743895 / 2 ^ 37"

definition F32_EPSILON :: f32 where "F32_EPSILON = 1 / 2 ^ 23"

definition penalise :: "f32 \<Rightarrow> u32 \<Rightarrow> f32 list \<Rightarrow> f32 list" where
  "penalise penalty tok logits =
     (let i = unat tok in
      if i < length logits
      then logits[i := (if logits ! i > 0 then fdiv (logits ! i) penalty else fmul (logits ! i) penalty)] else logits)"

definition apply_repetition_penalty :: "f32 list \<Rightarrow> u32 list \<Rightarrow> f32 \<Rightarrow> nat \<Rightarrow> f32 list" where
  "apply_repetition_penalty logits recent penalty last_n =
     (if \<bar>fsub penalty 1\<bar> < F32_EPSILON \<or> last_n = 0 then logits
      else fold (penalise penalty) (drop (length recent - last_n) recent) logits)"

text \<open>\<open>max_by\<close> returns the last of several equally large elements.\<close>

fun argmax_loop :: "nat \<Rightarrow> f32 \<Rightarrow> nat \<Rightarrow> f32 list \<Rightarrow> nat" where
  "argmax_loop b v i [] = b"
| "argmax_loop b v i (x # xs) = (if v \<le> x then argmax_loop i x (Suc i) xs else argmax_loop b v (Suc i) xs)"

definition argmax :: "f32 list \<Rightarrow> u32" where
  "argmax logits = (case logits of [] \<Rightarrow> 0 | x # xs \<Rightarrow> of_nat (argmax_loop 0 x 1 xs))"

definition softmax :: "(f32 \<Rightarrow> f32) \<Rightarrow> f32 list \<Rightarrow> f32 list" where
  "softmax expf logits =
     (case logits of
        [] \<Rightarrow> []
      | l # ls \<Rightarrow>
          let mx = fold max ls l; exps = map (\<lambda>l. expf (fsub l mx)) logits; total' = fold (\<lambda>e s. fadd s e) exps 0
          in map (\<lambda>e. fdiv e total') exps)"

text \<open>The number of leading probabilities kept by the nucleus: up to the first one that reaches the threshold.\<close>

fun nucleus :: "f32 \<Rightarrow> f32 \<Rightarrow> f32 list \<Rightarrow> nat" where
  "nucleus tp cum [] = 0"
| "nucleus tp cum (p # ps) = (if tp \<le> fadd cum p then 1 else Suc (nucleus tp (fadd cum p) ps))"

record 'r sample_env =
  sa_exp :: "f32 \<Rightarrow> f32"
  sa_sort :: "(nat \<times> f32) list \<Rightarrow> (nat \<times> f32) list"
  sa_pick :: "f32 list \<Rightarrow> 'r \<Rightarrow> (nat \<times> 'r) option"

definition rank_logits :: "'r sample_env \<Rightarrow> SamplerParams \<Rightarrow> f32 list \<Rightarrow> (nat \<times> f32) list" where
  "rank_logits env params scaled =
     (let ranked = sa_sort env (enumerate 0 scaled)
      in if 0 < sm_top_k params \<and> sm_top_k params < length ranked then take (sm_top_k params) ranked else ranked)"

definition sample :: "'r sample_env \<Rightarrow> SamplerParams \<Rightarrow> f32 list \<Rightarrow> u32 list \<Rightarrow> 'r \<Rightarrow> (unit, u32 \<times> 'r) outcome" where
  "sample env params logits recent rng =
     (let logits = apply_repetition_penalty logits recent (sm_repetition_penalty params) (sm_repeat_last_n params) in
      if sm_temperature params < GREEDY_EPS then Ok (argmax logits, rng)
      else
        let ranked = rank_logits env params (map (\<lambda>l. fdiv l (sm_temperature params)) logits);
            probs = softmax (sa_exp env) (map snd ranked);
            keep = (if sm_top_p params < 1 then nucleus (sm_top_p params) 0 probs else length probs);
            kept = take keep ranked;
            probs = (if sm_top_p params < 1
                     then let ps = take keep probs; total' = fold (\<lambda>e s. fadd s e) ps 0 in map (\<lambda>p. fdiv p total') ps else probs)
        in case sa_pick env probs rng of
             None \<Rightarrow> Panic
           | Some (i, rng') \<Rightarrow> if i < length kept then Ok (of_nat (fst (kept ! i)), rng') else Panic)"

section \<open>What is sampled\<close>

definition sort_law :: "((nat \<times> f32) list \<Rightarrow> (nat \<times> f32) list) \<Rightarrow> bool" where
  "sort_law srt \<longleftrightarrow> (\<forall>xs. mset (srt xs) = mset xs \<and> sorted_wrt (\<lambda>a b. snd b \<le> snd a) (srt xs))"

lemma argmax_loop_best:
  "\<lbrakk>b < i; xs = drop i ls; \<forall>j < i. ls ! j \<le> v; ls ! b = v; i \<le> length ls\<rbrakk> \<Longrightarrow>
    argmax_loop b v i xs < length ls \<and> (\<forall>j < length ls. ls ! j \<le> ls ! argmax_loop b v i xs)"
proof (induction xs arbitrary: b v i)
  case Nil
  then have "i = length ls" by simp
  with Nil show ?case by simp
next
  case (Cons x xs)
  then have i: "i < length ls" by (cases "i < length ls") simp_all
  with Cons.prems(2) Cons_nth_drop_Suc [OF i] have "x # xs = ls ! i # drop (Suc i) ls" by (simp only:)
  then have x: "x = ls ! i" "xs = drop (Suc i) ls" by simp_all
  show ?case
  proof (cases "v \<le> x")
    case True
    have "ls ! j \<le> x" if "j < Suc i" for j
      using Cons.prems(3) True x(1) that order_trans [of "ls ! j" v x] by (cases "j = i") simp_all
    then have "argmax_loop i x (Suc i) xs < length ls \<and> (\<forall>j < length ls. ls ! j \<le> ls ! argmax_loop i x (Suc i) xs)"
      using i x by (intro Cons.IH) simp_all
    with True show ?thesis by simp
  next
    case False
    have "ls ! j \<le> v" if "j < Suc i" for j using Cons.prems(3) False x(1) that by (cases "j = i") simp_all
    then have "argmax_loop b v (Suc i) xs < length ls \<and> (\<forall>j < length ls. ls ! j \<le> ls ! argmax_loop b v (Suc i) xs)"
      using i x Cons.prems(1,4) by (intro Cons.IH) simp_all
    with False show ?thesis by simp
  qed
qed

lemma argmax_best:
  assumes "ls \<noteq> []" and "length ls \<le> 2 ^ 32"
  shows "unat (argmax ls) < length ls \<and> (\<forall>j < length ls. ls ! j \<le> ls ! unat (argmax ls))"
proof -
  obtain x xs where ls: "ls = x # xs" using assms(1) by (cases ls) auto
  let ?b = "argmax_loop 0 x 1 xs"
  have b: "?b < length ls \<and> (\<forall>j < length ls. ls ! j \<le> ls ! ?b)"
    by (rule argmax_loop_best) (simp_all add: ls)
  then have "unat (of_nat ?b :: u32) = ?b" using assms(2) by (simp add: unat_of_nat)
  with b show ?thesis by (simp add: argmax_def ls)
qed

lemma length_apply_penalty [simp]: "length (apply_repetition_penalty ls recent p n) = length ls"
proof -
  have "length (fold (penalise p) toks ls) = length ls" for toks
    by (induction toks arbitrary: ls) (auto simp: penalise_def Let_def)
  then show ?thesis by (simp add: apply_repetition_penalty_def)
qed

text \<open>An entry of the ranking at position \<open>r\<close> has at most \<open>r\<close> strictly better logits.\<close>

lemma rank_bound:
  assumes "sort_law srt" and "r < length ls"
  shows "fst (srt (enumerate 0 ls) ! r) < length ls \<and>
    card {j. j < length ls \<and> ls ! fst (srt (enumerate 0 ls) ! r) < ls ! j} \<le> r"
proof -
  let ?R = "srt (enumerate 0 ls)"
  have ms: "mset ?R = mset (enumerate 0 ls)" and sw: "sorted_wrt (\<lambda>a b. snd b \<le> snd a) ?R"
    using assms(1) by (simp_all add: sort_law_def)
  from ms have len: "length ?R = length ls" by (metis length_enumerate size_mset)
  from ms have st: "set ?R = set (enumerate 0 ls)" by (metis set_mset_mset)
  have el: "j < length ls \<and> v = ls ! j" if "(j, v) \<in> set ?R" for j v
    using that unfolding st by (auto simp: in_set_enumerate_eq)
  obtain i v where iv: "?R ! r = (i, v)" by fastforce
  then have i: "i < length ls" "v = ls ! i" using el [of i v] nth_mem [of r ?R] assms(2) len by auto
  have "{j. j < length ls \<and> ls ! i < ls ! j} \<subseteq> fst ` set (take r ?R)"
  proof
    fix j assume j: "j \<in> {j. j < length ls \<and> ls ! i < ls ! j}"
    then have "(j, ls ! j) \<in> set ?R" unfolding st by (auto simp: in_set_enumerate_eq)
    then obtain k where k: "k < length ?R" "?R ! k = (j, ls ! j)" by (auto simp: in_set_conv_nth)
    have "k < r"
    proof (rule ccontr)
      assume "\<not> k < r"
      then have "snd (?R ! k) \<le> snd (?R ! r)" using sw k(1) by (cases "k = r") (auto simp: sorted_wrt_iff_nth_less)
      with k iv i j show False by simp
    qed
    then have "?R ! k \<in> set (take r ?R)" using k(1) by (auto simp: in_set_conv_nth intro!: exI [of _ k])
    with k(2) show "j \<in> fst ` set (take r ?R)" by force
  qed
  then have "card {j. j < length ls \<and> ls ! i < ls ! j} \<le> card (fst ` set (take r ?R))" by (intro card_mono) auto
  also have "\<dots> \<le> length (take r ?R)" by (metis card_length list.set_map length_map)
  also have "\<dots> \<le> r" by simp
  finally show ?thesis using iv i by simp
qed

text \<open>Every proper prefix of the nucleus has less than the threshold of the probability mass.\<close>

definition mass :: "f32 list \<Rightarrow> f32 \<Rightarrow> f32" where
  "mass ps c = fold (\<lambda>p c. fadd c p) ps c"

lemma nucleus_prefix: "0 < k \<Longrightarrow> k < nucleus tp c ps \<Longrightarrow> mass (take k ps) c < tp"
proof (induction tp c ps arbitrary: k rule: nucleus.induct)
  case (2 tp c p ps)
  then have below: "\<not> tp \<le> fadd c p" by (auto split: if_splits)
  obtain k' where k: "k = Suc k'" using 2(2) by (cases k) auto
  show ?case
  proof (cases "k' = 0")
    case True
    with below k show ?thesis by (simp add: mass_def)
  next
    case False
    with 2(1) [OF below, of k'] 2(3) below k show ?thesis by (simp add: mass_def)
  qed
qed simp

text \<open>The entry of the ranking that a sampling run picks.\<close>

lemma sample_pick:
  assumes "sample env params logits recent rng = Ok (tok, rng')" and "\<not> sm_temperature params < GREEDY_EPS"
    and "ls = apply_repetition_penalty logits recent (sm_repetition_penalty params) (sm_repeat_last_n params)"
    and "ranked = rank_logits env params (map (\<lambda>l. fdiv l (sm_temperature params)) ls)"
    and "probs = softmax (sa_exp env) (map snd ranked)"
  shows "\<exists>r < length ranked. tok = of_nat (fst (ranked ! r)) \<and> (sm_top_p params < 1 \<longrightarrow> r < nucleus (sm_top_p params) 0 probs)"
proof -
  let ?keep = "if sm_top_p params < 1 then nucleus (sm_top_p params) 0 probs else length probs"
  obtain ws where run: "(case sa_pick env ws rng of None \<Rightarrow> Panic
      | Some (i, rng') \<Rightarrow> if i < length (take ?keep ranked) then Ok (of_nat (fst (take ?keep ranked ! i)), rng') else Panic) =
      (Ok (tok, rng') :: (unit, u32 \<times> _) outcome)"
    using assms(1,2) unfolding sample_def Let_def assms(3) [symmetric] assms(4) [symmetric] assms(5) [symmetric]
    by (simp only: if_False)
  then obtain i where "i < length (take ?keep ranked)" "tok = of_nat (fst (take ?keep ranked ! i))"
    by (auto split: option.splits prod.splits if_splits)
  then show ?thesis by (intro exI [of _ i]) (auto split: if_splits)
qed

text \<open>The sampler picks within its limits. The token is one of the vocabulary. Greedy decoding picks a
  largest logit after the repetition penalty. Otherwise fewer than \<open>top_k\<close> tokens have a strictly larger
  tempered logit than the one that is picked, and its place in the ranking lies in the nucleus: every
  non-empty run of better ranked tokens before it has less than \<open>top_p\<close> of the probability mass.\<close>

lemma sample_within_limits:
  assumes "sort_law (sa_sort env)" and "logits \<noteq> []" and "length logits \<le> 2 ^ 32"
    and "sample env params logits recent rng = Ok (tok, rng')"
    and "ls = apply_repetition_penalty logits recent (sm_repetition_penalty params) (sm_repeat_last_n params)"
    and "scaled = map (\<lambda>l. fdiv l (sm_temperature params)) ls" and "ranked = rank_logits env params scaled"
    and "probs = softmax (sa_exp env) (map snd ranked)"
  shows "unat tok < length logits \<and>
    (if sm_temperature params < GREEDY_EPS then \<forall>j < length ls. ls ! j \<le> ls ! unat tok
     else (0 < sm_top_k params \<longrightarrow> card {j. j < length ls \<and> scaled ! unat tok < scaled ! j} < sm_top_k params) \<and>
       (\<exists>r < length ranked. fst (ranked ! r) = unat tok \<and>
         (sm_top_p params < 1 \<longrightarrow> (\<forall>k. 0 < k \<and> k \<le> r \<longrightarrow> mass (take k probs) 0 < sm_top_p params))))"
proof (cases "sm_temperature params < GREEDY_EPS")
  case True
  then have "tok = argmax ls" using assms(4) by (simp add: sample_def assms(5))
  moreover have "ls \<noteq> []" "length ls \<le> 2 ^ 32" using assms(2,3) by (simp_all add: assms(5) flip: length_greater_0_conv)
  ultimately show ?thesis using argmax_best [of ls] True by (simp add: assms(5))
next
  case False
  let ?R = "sa_sort env (enumerate 0 scaled)"
  have len: "length ls = length logits" "length scaled = length logits" by (simp_all add: assms(5,6))
  have "mset ?R = mset (enumerate 0 scaled)" using assms(1) by (simp add: sort_law_def)
  then have lR: "length ?R = length logits" by (metis len(2) length_enumerate size_mset)
  from sample_pick [OF assms(4) False assms(5) assms(7) [unfolded assms(6)] assms(8)] obtain r where
    r: "r < length ranked" "tok = of_nat (fst (ranked ! r))" "sm_top_p params < 1 \<longrightarrow> r < nucleus (sm_top_p params) 0 probs"
    by blast
  have R: "r < length ?R" "ranked ! r = ?R ! r" "0 < sm_top_k params \<longrightarrow> r < sm_top_k params"
    using r(1) by (auto simp: assms(7) rank_logits_def Let_def split: if_splits)
  note b = rank_bound [OF assms(1), of r scaled]
  have "fst (ranked ! r) < length logits" using b R lR len by simp
  then have tok: "unat tok = fst (ranked ! r)" using r(2) assms(3) by (simp add: unat_of_nat)
  have "\<forall>k. 0 < k \<and> k \<le> r \<longrightarrow> mass (take k probs) 0 < sm_top_p params" if "sm_top_p params < 1"
    using nucleus_prefix r(3) that by auto
  with r(1) tok have "\<exists>r < length ranked. fst (ranked ! r) = unat tok \<and>
      (sm_top_p params < 1 \<longrightarrow> (\<forall>k. 0 < k \<and> k \<le> r \<longrightarrow> mass (take k probs) 0 < sm_top_p params))" by auto
  moreover have "0 < sm_top_k params \<longrightarrow> card {j. j < length ls \<and> scaled ! unat tok < scaled ! j} < sm_top_k params"
    using b R lR len tok by auto
  ultimately show ?thesis using False tok \<open>fst (ranked ! r) < length logits\<close> by simp
qed

definition demo_sample_env :: "unit sample_env" where
  "demo_sample_env = \<lparr> sa_exp = (\<lambda>_. 1), sa_sort = (\<lambda>xs. rev (sort_key snd xs)), sa_pick = (\<lambda>ws r. if ws = [] then None else Some (0, r)) \<rparr>"

lemma demo_sort_law: "sort_law (sa_sort demo_sample_env)"
proof -
  have "sorted_wrt (\<lambda>a b. snd b \<le> snd a) (rev (sort_key snd xs))" for xs :: "(nat \<times> f32) list"
    using sorted_sort_key [of snd xs] by (simp add: sorted_wrt_rev sorted_map)
  then show ?thesis by (simp add: sort_law_def demo_sample_env_def)
qed

definition demo_params :: SamplerParams where
  "demo_params = SamplerParams_default\<lparr> sm_top_k := 1 \<rparr>"

lemma sample_within_limits_witness:
  "sample demo_sample_env demo_params [1, 3, 2] [] () = Ok (1, ()) \<and>
    card {j. j < 3 \<and> [1, 3, 2 :: f32] ! 1 < [1, 3, 2] ! j} < 1"
proof -
  have warm: "\<not> (1 :: f32) < GREEDY_EPS" by (simp add: GREEDY_EPS_def)
  have id: "fdiv 1 1 = 1" "fdiv 3 1 = 3" "fdiv 2 1 = 2" by code_simp+
  have rank: "rank_logits demo_sample_env demo_params [1, 3, 2] = [(1, 3)]" by code_simp
  have pick: "sa_pick demo_sample_env ws () = (if ws = [] then None else Some (0, ()))" for ws
    by (simp add: demo_sample_env_def)
  have par: "sm_temperature demo_params = 1" "sm_top_p demo_params = 1" "sm_repetition_penalty demo_params = 1" "sm_top_k demo_params = 1"
    by (simp_all add: demo_params_def SamplerParams_default_def)
  have pen: "apply_repetition_penalty [1, 3, 2] [] 1 n = [1, 3, 2]" for n by (simp add: apply_repetition_penalty_def)
  have run: "sample demo_sample_env demo_params [1, 3, 2] [] () = Ok (1, ())"
    using warm by (simp add: sample_def par pen id rank pick softmax_def Let_def)
  from sample_within_limits [OF demo_sort_law _ _ run refl refl refl refl] warm run show ?thesis
    by (simp add: par pen id)
qed

end
