(* ===== verification/Spec2Isabelle.thy ===== *)
theory Spec2Isabelle
  imports Cgn_PrefixIndex Cgn_Sched_Limits Cgn_Cluster_Props Cgn_Selector_Props Cgn_Prompt
    Cgn_Transport Cgn_Auth_Props Cgn_RateLimit Cgn_Chat Cgn_Pipeline Cgn_Supervisor Cgn_EngineHttp Cgn_Sampling
begin

text \<open>
  \<^bold>\<open>Verification of the Cognitora inference platform.\<close>

  \<^bold>\<open>The program.\<close> Cognitora (\<open>src/rust\<close>) serves language models on a cluster. The router
  (\<open>cgn-router\<close>) authenticates an OpenAI request, admits it to a queue, hashes its prompt into a chain of
  chunk digests, picks the node with the best score and forwards the tokens of its agent. Each node runs
  an agent (\<open>cgn-agent\<close>), which starts an engine process, reads its event stream and publishes its state
  and the prefixes it has cached to etcd, and a cache daemon (\<open>cgn-kvcached\<close>), which keeps KV blocks in RAM
  and on SSD and exchanges them with its peers. The platform has an engine of its own (\<open>cgn-infer\<close>): a
  continuous-batching scheduler over a quantised Llama, on one node or as a pipeline of layer slices. The
  operator (\<open>cgn-operator\<close>) consumes the hints of the router's autoscaler.

  \<^bold>\<open>Conventions.\<close> A Rust struct is a record, an enum a datatype, a method a function from the state to its
  result and the new state. \<open>Result\<close> is a sum with the error on the left; code that can also panic returns
  an \<open>outcome\<close> (\<open>Cgn_Outcome\<close>). Integers whose width matters are words, others are naturals. A \<open>f32\<close> is the
  rational value it has, and each operation rounds to binary32 (\<open>Cgn_F32\<close>); infinities and NaN do not
  occur in the model. Text is a list of bytes, and white space is ASCII white space. A concurrent map is a
  finite map and a critical section one step; where the order of iteration shows, the listing is an argument. Code
  from outside the repository (BLAKE3, SHA-256, JWT, JSON, candle, etcd, file and network calls) is a
  parameter, often a field of an environment record; what the code relies on is a named predicate that a
  theorem assumes and a witness satisfies with a concrete instance.

  \<^bold>\<open>Theories and what they show.\<close>

  \<^item> \<open>Cgn_Prelude\<close>, \<open>Cgn_Str\<close>, \<open>Cgn_Text\<close>, \<open>Cgn_F32\<close>, \<open>Cgn_Outcome\<close>: the parts of the Rust language and
    library in use. \<open>Cgn_Error\<close>: \<open>cgn-core/src/error.rs\<close>.

  \<^item> \<open>Cgn_Hash\<close>, \<open>Cgn_PrefixIndex\<close> (\<open>cgn-core/src/hash.rs\<close>, \<open>prefix.rs\<close>): digests identify prefixes; the index
    refines a map of claims (locale \<open>claim_store\<close>); the overlap walk is exact; garbage collection is
    invisible. \<open>Cgn_Prompt\<close> (\<open>routing/prompt.rs\<close>): flattening of messages.

  \<^item> \<open>Cgn_KvPool\<close>, \<open>Cgn_Scheduler\<close>, \<open>Cgn_Sched_Inv\<close>, \<open>Cgn_Sched_Props\<close>, \<open>Cgn_Sched_Limits\<close>
    (\<open>cgn-infer/src/kv\<close>, \<open>scheduler\<close>): block accounting (locale \<open>block_pool\<close>), the prefix cache, and the
    engine loop. Every turn keeps the scheduler invariant, no request is lost, stop strings never leak,
    budgets hold, making room ends; a prompt larger than the pool blocks the queue. Whether a client channel is
    closed is fixed within one step.

  \<^item> \<open>Cgn_Sampling\<close> (\<open>cgn-infer/src/sampling\<close>): the sampler stays within top-k and the nucleus and is an arg-max
    when greedy.

  \<^item> \<open>Cgn_Llama\<close>, \<open>Cgn_Llama_Props\<close>, \<open>Cgn_Runtime\<close>, \<open>Cgn_Pipeline\<close> (\<open>cgn-infer/src/model/llama.rs\<close>,
    \<open>runtime\<close>, \<open>pipeline\<close>): the forward pass over a record of tensor operations, the runtimes behind
    \<open>BatchModel\<close> (locales \<open>batch_runtime\<close>, \<open>stepping_runtime\<close>) and the distributed pipeline. A batched decode
    is a set of solo decodes, a pipeline computes what one node computes, and an accepted pipeline covers every
    layer once. The laws on tensors are equalities between rows; on hardware whose kernels round differently
    for different batch sizes they hold up to that rounding only.

  \<^item> \<open>Cgn_Tiers\<close>, \<open>Cgn_Tiers_Props\<close>, \<open>Cgn_Transport\<close> (\<open>cgn-kv\<close>, \<open>cgn-kvcached\<close>): RAM and SSD tiers, index,
    eviction, frames, stream handler and gRPC handlers. The record \<open>kv_io\<close> tells for each file and index
    operation whether it fails. The store is one map (locale \<open>block_cache\<close>) under all these failures,
    transfers are faithful, and eviction reaches its watermark; two digests with the same first eight
    bytes share a file.

  \<^item> \<open>Cgn_Cluster\<close>, \<open>Cgn_Cluster_Props\<close> (\<open>cgn-router/src/cluster\<close>, \<open>cgn-agent/src/health.rs\<close> and
    \<open>kv_cache_state.rs\<close>): registry, watchers, heartbeat and claims. The registry follows the history of etcd, an
    engine restart purges its claims, published claims are mirrored.

  \<^item> \<open>Cgn_Selector\<close>, \<open>Cgn_Selector_Props\<close> (\<open>routing/score.rs\<close>, \<open>selector.rs\<close>): the picker returns a best
    eligible node; session affinity is stable.

  \<^item> \<open>Cgn_Admission\<close> (\<open>admission.rs\<close>): a step relation over pools; slots are conserved, tenants are served in
    turn; a slot handed to a dropped request is lost.

  \<^item> \<open>Cgn_Auth\<close>, \<open>Cgn_Auth_Props\<close>, \<open>Cgn_Usage\<close>, \<open>Cgn_RateLimit\<close> (\<open>cgn-auth\<close>, \<open>cgn-ctl/src/key.rs\<close>, \<open>usage.rs\<close>,
    \<open>gateway/authz.rs\<close>, \<open>cgn-ratelimit\<close>): who is let in, what the key file means, how far a budget is exceeded.

  \<^item> \<open>Cgn_Policies\<close>, \<open>Cgn_Dispatch\<close>, \<open>Cgn_Gateway\<close>, \<open>Cgn_Chat\<close> (\<open>deadline.rs\<close>, \<open>carbon\<close>, \<open>cascade.rs\<close>,
    \<open>disagg.rs\<close>, \<open>federation.rs\<close>, the autoscaler of router and operator, \<open>gateway\<close>): the path of a request
    from authorization to its bill. A handled request restores every counter and is charged exactly the
    usage of the answer it gave; retries use distinct nodes; a streamed answer equals the buffered one.

  \<^item> \<open>Cgn_Spawn\<close>, \<open>Cgn_Supervisor\<close>, \<open>Cgn_EngineHttp\<close> (\<open>cgn-agent/src/engine\<close>, \<open>supervisor.rs\<close>): command lines
    of the engines, the process group and the event stream. Prefill and decode nodes agree on a
    connector; a failed restart is final; how the stream is cut into chunks does not matter.

  \<^item> This theory: what spans components, namely tenant isolation and exact overlap through hashing, index
    and selection, and the drain of a node through operator, etcd, heartbeat and registry.

  \<^bold>\<open>Loops and bounds.\<close> Loops are structural recursion or functions with a measure, so they return on every
  input. Three waiting loops of \<open>Cgn_Supervisor\<close> depend on the clock and carry fuel: 62 looks for the LMCache
  server (one per second, given up after 60 seconds) and \<open>timeout div 100 + 2\<close> looks for draining and readiness
  (each at least 100 ms apart); \<open>wait_lmcache_server_ends\<close>, \<open>drain_ends\<close> and \<open>wait_ready_ends\<close> show that this
  is enough. The dispatch loop takes its bound from the code (\<open>MAX_DISPATCH_ATTEMPTS\<close>, three). Endless
  loops (engine loop, watchers, supervisor, operator) are modelled by one turn, and theorems quantify over
  sequences of turns.

  \<^bold>\<open>Not modelled.\<close> Start-up code, sockets, TLS, QUIC and gRPC glue, generated protobuf code, metrics, tracing
  and log lines; JSON bodies are records, except where the text itself matters. The embeddings endpoint,
  the gRPC services of router and agent, the HTTP server of the engine and its tokenizer, RocksDB, Redis and
  gossip transports, GPU and power sensors, the Kubernetes controllers, the other commands of \<open>cgn-ctl\<close>, the
  Python connector and the scripts are I/O around the modelled parts or third-party code.
\<close>

section \<open>Hashing, prefix index and routing together\<close>

definition common_chunks :: "u32 list \<Rightarrow> u32 list \<Rightarrow> nat" where
  "common_chunks xs ys =
     length (takeWhile (\<lambda>(a, b). a = b) (zip (chunks TOKENS_PER_CHUNK xs) (chunks TOKENS_PER_CHUNK ys)))"

lemma take_common:
  fixes as bs :: "'a list"
  defines "c \<equiv> length (takeWhile (\<lambda>(a, b). a = b) (zip as bs))"
  shows "c \<le> length as" "c \<le> length bs" "take c as = take c bs"
    "c < length as \<Longrightarrow> c < length bs \<Longrightarrow> as ! c \<noteq> bs ! c"
proof -
  have len: "c \<le> length (zip as bs)" unfolding c_def by (rule length_takeWhile_le)
  then show ab: "c \<le> length as" "c \<le> length bs" by simp_all
  have "\<forall>i < c. (\<lambda>(a, b). a = b) (zip as bs ! i)"
    unfolding c_def using nth_mem set_takeWhileD takeWhile_nth by (metis (no_types, lifting))
  with ab show "take c as = take c bs" by (intro nth_equalityI) auto
  assume "c < length as" "c < length bs"
  then show "as ! c \<noteq> bs ! c"
    using nth_length_takeWhile [of "\<lambda>(a, b). a = b" "zip as bs"] by (simp add: c_def)
qed

lemma seq_digest_mem:
  assumes good: "good_hash_on H (set (seq_msgs H s xs) \<union> set (seq_msgs H t ys))"
    and salt: "count_list (str_bytes s) 0 = count_list (str_bytes t) 0"
    and j: "j < length (hash_seq_chunks H t ys)"
  shows "hash_seq_chunks H t ys ! j \<in> set (hash_seq_chunks H s xs) \<longleftrightarrow>
    s = t \<and> j < length (chunks TOKENS_PER_CHUNK xs) \<and>
    take (Suc j) (chunks TOKENS_PER_CHUNK xs) = take (Suc j) (chunks TOKENS_PER_CHUNK ys)"
proof -
  have n: "0 < TOKENS_PER_CHUNK" by (simp add: TOKENS_PER_CHUNK_def)
  have len: "length (hash_seq_chunks H s xs) = length (chunks TOKENS_PER_CHUNK xs)"
    by (simp add: hash_seq_chunks_loop)
  have "hash_seq_chunks H t ys ! j \<in> set (hash_seq_chunks H s xs) \<longleftrightarrow>
      (\<exists>i < length (hash_seq_chunks H s xs). hash_seq_chunks H s xs ! i = hash_seq_chunks H t ys ! j)"
    by (simp add: in_set_conv_nth)
  also have "\<dots> \<longleftrightarrow> j < length (hash_seq_chunks H s xs) \<and> s = t \<and>
      take (Suc j * TOKENS_PER_CHUNK) xs = take (Suc j * TOKENS_PER_CHUNK) ys"
    using seq_digest_iff [OF good salt _ j] by blast
  finally show ?thesis by (auto simp: len take_chunks_inject [OF n])
qed

text \<open>C22: The router's estimate of reusable prefill is exact. After a request was dispatched to
  a node that had no live claims, the overlap it reports for a later request under the same
  salt is the number of leading chunks the two prompts share, while the claims live.\<close>

theorem dispatched_prefix_is_overlap:
  assumes "good_hash_on H (set (seq_msgs H s xs) \<union> set (seq_msgs H s ys))"
    and "index_wf idx" and "\<forall>d. \<not> live now idx d n" and "now - t < pi_ttl idx"
  shows "longest_prefix_overlap now (insert_many t (hash_seq_chunks H s xs) n idx) (hash_seq_chunks H s ys) n =
    (if common_chunks xs ys = 0 then None else Some (common_chunks xs ys))"
proof -
  let ?idx = "insert_many t (hash_seq_chunks H s xs) n idx" and ?ds = "hash_seq_chunks H s ys"
  let ?as = "chunks TOKENS_PER_CHUNK xs" and ?bs = "chunks TOKENS_PER_CHUNK ys" and ?c = "common_chunks xs ys"
  note c = take_common [where as = ?as and bs = ?bs, folded common_chunks_def]
  have live: "live now ?idx d n \<longleftrightarrow> d \<in> set (hash_seq_chunks H s xs)" for d
    using assms(2-4) by (simp add: live_insert_many)
  have len: "length ?ds = length ?bs" by (simp add: hash_seq_chunks_loop)
  have iff: "live now ?idx (?ds ! j) n \<longleftrightarrow> j < length ?as \<and> take (Suc j) ?as = take (Suc j) ?bs"
    if "j < length ?ds" for j
    using seq_digest_mem [OF assms(1) refl that] by (simp add: live)
  have "takeWhile (\<lambda>d. live now ?idx d n) ?ds = take ?c ?ds"
  proof (rule takeWhile_eq_take_P_nth)
    fix j assume j: "j < ?c" "j < length ?ds"
    from j(1) c(3) have "take (Suc j) (take ?c ?as) = take (Suc j) (take ?c ?bs)" by simp
    with j(1) have "take (Suc j) ?as = take (Suc j) ?bs" by (simp add: min_absorb1)
    with j c(1) iff show "live now ?idx (?ds ! j) n" by simp
  next
    assume "?c < length ?ds"
    then show "\<not> live now ?idx (?ds ! ?c) n"
      using iff [of ?c] c(4) len by (auto simp: take_Suc_conv_app_nth)
  qed
  moreover have "?c \<le> length ?ds" using c(2) len by simp
  ultimately show ?thesis
    using lpo_spec [OF index_wf_insert_many [OF assms(2)], of now t "hash_seq_chunks H s xs" n ?ds n]
    by (simp add: Let_def)
qed

theorem dispatched_prefix_is_overlap_witness:
  "longest_prefix_overlap 5 (insert_many 3 (hash_seq_chunks toy_hash ''m'' (replicate 33 7)) ''n1'' (prefix_new 60))
     (hash_seq_chunks toy_hash ''m'' (replicate 32 7 @ [8])) ''n1'' = Some 1"
proof -
  let ?xs = "replicate 33 7 :: u32 list" and ?ys = "replicate 32 7 @ [8] :: u32 list"
  have good: "good_hash_on toy_hash (set (seq_msgs toy_hash ''m'' ?xs) \<union> set (seq_msgs toy_hash ''m'' ?ys))"
    unfolding good_hash_on_def inj_on_def by code_simp
  have "common_chunks ?xs ?ys = 1" by code_simp
  with dispatched_prefix_is_overlap [OF good index_wf_new [of 60], of 5 "''n1''" 3] show ?thesis
    by (simp add: prefix_new_def live_new [unfolded prefix_new_def])
qed

lemma count_nul_free: "nul_free s \<Longrightarrow> count_list (str_bytes s) 0 = 0"
  by (simp add: nul_free_bytes)

lemma prefix_salt_nuls:
  "nul_free m \<Longrightarrow> nul_free t \<Longrightarrow> t \<noteq> [] \<Longrightarrow> count_list (str_bytes (prefix_salt True m t)) 0 = 1"
  by (simp add: prefix_salt_def str_bytes_def [of "_ # _"] count_nul_free flip: str_bytes_def)

lemma prefix_salt_inject:
  assumes "prefix_salt True m t = prefix_salt True m' t'" "nul_free m" "nul_free m'" "t \<noteq> []" "t' \<noteq> []"
  shows "m = m' \<and> t = t'"
proof -
  have "m @ CHR 0x00 # t = m' @ CHR 0x00 # t'" using assms by (simp add: prefix_salt_def)
  moreover have "count_list m (CHR 0x00) = count_list m' (CHR 0x00)"
    using assms(2,3) by (simp add: nul_free_def count_list_0_iff)
  ultimately show ?thesis by (rule append_sep_inject)
qed

text \<open>C21: Tenants never see each other's cached prefixes. With tenant isolation on, if every claim
  in the index stems from a prompt of some other tenant or model, then no node gets any overlap
  for a prompt of this tenant, whatever its tokens: names without NUL bytes and a hash without
  collisions on the messages involved are all that is needed.\<close>

theorem tenants_share_no_prefix:
  assumes "index_wf idx" and "nul_free m" and "nul_free t" and "t \<noteq> []"
    and "\<forall>d n. claim idx (d, n) \<noteq> None \<longrightarrow>
          (\<exists>(m', t', xs) \<in> set hist. d \<in> set (hash_seq_chunks H (prefix_salt True m' t') xs))"
    and "\<forall>(m', t', xs) \<in> set hist. (m', t') \<noteq> (m, t) \<and> nul_free m' \<and> nul_free t' \<and> t' \<noteq> [] \<and>
          good_hash_on H (set (seq_msgs H (prefix_salt True m' t') xs) \<union> set (seq_msgs H (prefix_salt True m t) ys))"
  shows "longest_prefix_overlap now idx (hash_seq_chunks H (prefix_salt True m t) ys) n = None"
proof -
  let ?ds = "hash_seq_chunks H (prefix_salt True m t) ys"
  have "\<not> live now idx d n" if "d \<in> set ?ds" for d
  proof
    assume "live now idx d n"
    then have "claim idx (d, n) \<noteq> None" by (auto simp: live_def split: option.splits)
    with assms(5) obtain m' t' xs where h: "(m', t', xs) \<in> set hist"
      and d: "d \<in> set (hash_seq_chunks H (prefix_salt True m' t') xs)" by blast
    from assms(6) h have o: "(m', t') \<noteq> (m, t)" "nul_free m'" "nul_free t'" "t' \<noteq> []"
      and good: "good_hash_on H (set (seq_msgs H (prefix_salt True m' t') xs) \<union> set (seq_msgs H (prefix_salt True m t) ys))"
      by auto
    from that obtain j where j: "j < length ?ds" "?ds ! j = d" by (auto simp: in_set_conv_nth)
    have "prefix_salt True m' t' = prefix_salt True m t"
      using seq_digest_mem [OF good _ j(1)] d j(2) prefix_salt_nuls [OF o(2-4)] prefix_salt_nuls [OF assms(2-4)]
      by simp
    with o assms(2,4) show False by (auto dest: prefix_salt_inject)
  qed
  then have "takeWhile (\<lambda>d. live now idx d n) ?ds = []"
    by (cases ?ds) auto
  then show ?thesis by (simp add: lpo_spec [OF assms(1)])
qed

definition head_hash :: "bytes \<Rightarrow> bytes" where
  "head_hash bs = take 32 (bs @ replicate 32 1)"

theorem tenants_share_no_prefix_witness:
  "longest_prefix_overlap 5
     (insert_many 3 (hash_seq_chunks head_hash (prefix_salt True ''m'' ''a'') [7]) ''n1'' (prefix_new 60))
     (hash_seq_chunks head_hash (prefix_salt True ''m'' ''b'') [7]) ''n1'' = None"
proof -
  let ?ds = "hash_seq_chunks head_hash (prefix_salt True ''m'' ''a'') [7]"
  let ?idx = "insert_many 3 ?ds ''n1'' (prefix_new 60)" and ?hist = "[(''m'', ''a'', [7])]"
  have "index_wf ?idx" by (simp add: index_wf_insert_many index_wf_new)
  moreover have "\<forall>d n. claim ?idx (d, n) \<noteq> None \<longrightarrow>
      (\<exists>(m', t', xs) \<in> set ?hist. d \<in> set (hash_seq_chunks head_hash (prefix_salt True m' t') xs))"
    using pidx.ins_all_view [OF index_wf_new [of 60], of 3 ?ds "''n1''"]
    by (auto simp: insert_many_ins_all split: if_splits)
  moreover have "good_hash_on head_hash (set (seq_msgs head_hash (prefix_salt True ''m'' ''a'') [7]) \<union>
      set (seq_msgs head_hash (prefix_salt True ''m'' ''b'') [7]))"
    unfolding good_hash_on_def inj_on_def by code_simp
  ultimately show ?thesis
    using tenants_share_no_prefix [where idx = ?idx and hist = ?hist and m = "''m''" and t = "''b''" and ys = "[7]"]
    by (simp add: nul_free_def)
qed

section \<open>Autoscaler, operator and router together\<close>

text \<open>A tick of the operator leaves a cordon key alone while the hint for its node says drain.\<close>

lemma operator_tick_keeps_cordon:
  "etcd (CORDON @ nid) = Some v \<Longrightarrow> \<forall>h. (AUTOSCALER @ nid, Some h) \<in> set kvs \<longrightarrow> hi_drain h \<Longrightarrow>
   operator_tick from_str to_string stamp kvs etcd = (etcd', evs) \<Longrightarrow>
     etcd' (CORDON @ nid) = Some v \<and> CordonPut (Some (CORDON @ nid)) \<notin> set evs"
proof (induction kvs arbitrary: etcd etcd' evs)
  case (Cons kv kvs)
  obtain key x where kv: "kv = (key, x)" by (cases kv)
  have later: "\<forall>h. (AUTOSCALER @ nid, Some h) \<in> set kvs \<longrightarrow> hi_drain h" using Cons.prems(2) by simp
  show ?case
  proof (cases "\<exists>m h. strip_prefix AUTOSCALER key = Some m \<and> x = Some h")
    case True
    then obtain m h where mh: "key = AUTOSCALER @ m" "x = Some h" by (auto simp: strip_prefix_Some)
    obtain etcd1 e1 where one: "apply_hint from_str to_string stamp m h etcd = (etcd1, e1)" by (rule prod.exhaust)
    obtain etcd2 e2 where rest: "operator_tick from_str to_string stamp kvs etcd1 = (etcd2, e2)" by (rule prod.exhaust)
    have "m = nid \<Longrightarrow> hi_drain h" using Cons.prems(2) by (auto simp: kv mh)
    then have "etcd1 (CORDON @ nid) = Some v \<and> CordonPut (Some (CORDON @ nid)) \<notin> set e1"
      using one Cons.prems(1) by (auto simp: apply_hint_def Let_def split: if_splits option.splits)
    moreover from this Cons.IH [where etcd = etcd1, OF _ later rest] have "etcd2 (CORDON @ nid) = Some v \<and> CordonPut (Some (CORDON @ nid)) \<notin> set e2"
      by simp
    ultimately show ?thesis
      using Cons.prems(3) one rest mh by (auto simp: kv strip_prefix_Some)
  next
    case False
    then have "operator_tick from_str to_string stamp kvs etcd = (etcd', evs)"
      using Cons.prems(3) by (auto simp: kv split: option.splits)
    with Cons.IH [where etcd = etcd, OF Cons.prems(1) later] show ?thesis by simp
  qed
qed simp

text \<open>C37: Draining an idle node does not last. For a node the router knows and has not cordoned, the
  operator turns the drain hint of the autoscaler into a cordon key and the router's watch cordons
  exactly that entry: no request for any role or model is routed to it. The next heartbeat of the
  agent stores a fresh entry without the flag and the node is a candidate again for what it serves,
  while the cordon key is still in etcd; and as long as the hint stands no later tick of the operator
  writes the key again, so nothing cordons the node a second time.\<close>

theorem drain_undone_by_heartbeat:
  assumes "hi_drain hint" and "etcd (CORDON @ ag_node_id ag) = None"
    and "apply_hint from_str to_string stamp (ag_node_id ag) hint etcd = (etcd1, evs)"
    and "registry_wf (cl_nodes c)" and "cl_nodes c (ag_node_id ag) = Some n" and "\<not> ne_cordoned n"
    and "enumerates order (cl_nodes c)"
    and "c1 = handle_events (map (Pair t1) evs) c"
    and "c2 = handle_event t2 (NodePut (Some (node_record t2 ag True gpu stats epoch))) c1"
    and "\<not> ag_draining ag" and "ag_models ag = (m, loras) # ms"
    and "role = Unspecified \<or> role_i32 role = role_to_int (ag_role ag) \<or> ag_role ag = CfgBoth"
    and "\<forall>h. (AUTOSCALER @ ag_node_id ag, Some h) \<in> set kvs \<longrightarrow> hi_drain h"
    and "operator_tick from_str to_string stamp' kvs etcd1 = (etcd2, evs2)"
  shows "cl_nodes c1 = (cl_nodes c)(ag_node_id ag \<mapsto> n\<lparr> ne_cordoned := True \<rparr>) \<and>
    (\<forall>role' m'. ag_node_id ag \<notin> ne_node_id ` set (nodes_for order role' m' (cl_nodes c1))) \<and>
    node_record t2 ag True gpu stats epoch \<in> set (nodes_for order role (Some m) (cl_nodes c2)) \<and>
    etcd1 (CORDON @ ag_node_id ag) \<noteq> None \<and>
    etcd2 (CORDON @ ag_node_id ag) = etcd1 (CORDON @ ag_node_id ag) \<and>
    CordonPut (Some (CORDON @ ag_node_id ag)) \<notin> set evs2"
proof -
  let ?nid = "ag_node_id ag"
  have e: "evs = [CordonPut (Some (CORDON @ ?nid))]" "etcd1 (CORDON @ ?nid) \<noteq> None"
    using assms(1-3) by (auto simp: apply_hint_def Let_def)
  have c1: "cl_nodes c1 = (cl_nodes c)(?nid \<mapsto> n\<lparr> ne_cordoned := True \<rparr>)"
    using assms(5,6) by (simp add: assms(8) e(1) set_cordon_def)
  have "dom (cl_nodes c2) = dom (cl_nodes c)"
    using assms(5) by (auto simp: assms(9) c1 upsert_def node_record_def split: option.splits if_splits)
  then have order: "enumerates order (cl_nodes c2)" using assms(7) by (simp add: enumerates_def)
  have "c2 = handle_events [(t1, CordonPut (Some (CORDON @ ?nid))),
      (t2, NodePut (Some (node_record t2 ag True gpu stats epoch)))] c"
    by (simp add: assms(8,9) e(1))
  note again = heartbeat_uncordons [OF order this assms(10-12)]
  have "ne_node_id x \<noteq> ?nid" if "x \<in> set (nodes_for order role' m' (cl_nodes c1))" for x role' m'
  proof
    assume "ne_node_id x = ?nid"
    have "enumerates order (cl_nodes c1)" using assms(5,7) by (auto simp: enumerates_def c1)
    with that have x: "x \<in> ran (cl_nodes c1)" "\<not> ne_cordoned x" by (auto simp: set_nodes_for routable_def)
    moreover have "registry_wf (cl_nodes c1)"
      using assms(4) registry_wf_upd(3) [of "cl_nodes c" ?nid True] assms(5,6) by (simp add: c1 set_cordon_def)
    ultimately have "cl_nodes c1 ?nid = Some x" using \<open>ne_node_id x = ?nid\<close> by (auto simp: ran_def registry_wf_def)
    with x(2) c1 show False by auto
  qed
  then have away: "\<forall>role' m'. ?nid \<notin> ne_node_id ` set (nodes_for order role' m' (cl_nodes c1))" by (metis imageE)
  from e(2) obtain v where v: "etcd1 (CORDON @ ?nid) = Some v" by auto
  from operator_tick_keeps_cordon [OF v assms(13,14)] v show ?thesis using c1 away again by simp
qed

definition idle_hint :: Hint where
  "idle_hint = \<lparr>hi_drain = True, hi_reason = ''idle''\<rparr>"

definition live_cluster :: Cluster where
  "live_cluster = demo_cluster\<lparr> cl_nodes := [''n1'' \<mapsto> demo_entry 0] \<rparr>"

theorem drain_undone_by_heartbeat_witness:
  "\<exists>etcd1 evs. apply_hint (\<lambda>_. None) (\<lambda>_. ''cordon'') ''t'' ''n1'' idle_hint Map.empty = (etcd1, evs) \<and>
     demo_entry 0 \<in> set (nodes_for [''n1''] RoleDecode (Some ''m'') (cl_nodes live_cluster)) \<and>
     nodes_for [''n1''] RoleDecode (Some ''m'') (cl_nodes (handle_events (map (Pair 4) evs) live_cluster)) = [] \<and>
     demo_entry 0 \<in> set (nodes_for [''n1''] RoleDecode (Some ''m'')
       (cl_nodes (handle_event 5 (NodePut (Some (demo_entry 0))) (handle_events (map (Pair 4) evs) live_cluster)))) \<and>
     CordonPut (Some (CORDON @ ''n1'')) \<notin> set (snd (operator_tick (\<lambda>_. None) (\<lambda>_. ''cordon'') ''u''
       [(AUTOSCALER @ ''n1'', Some idle_hint)] etcd1))"
proof -
  let ?ah = "apply_hint (\<lambda>_. None) (\<lambda>_. ''cordon'')" and ?kvs = "[(AUTOSCALER @ ''n1'', Some idle_hint)]"
  obtain etcd1 evs where a: "?ah ''t'' (ag_node_id demo_agent) idle_hint Map.empty = (etcd1, evs)" by (rule prod.exhaust)
  obtain etcd2 evs2 where tick: "operator_tick (\<lambda>_. None) (\<lambda>_. ''cordon'') ''u'' ?kvs etcd1 = (etcd2, evs2)"
    by (rule prod.exhaust)
  let ?c1 = "handle_events (map (Pair 4) evs) live_cluster"
  have id: "ag_node_id demo_agent = ''n1''" by (simp add: demo_agent_def)
  have wf: "registry_wf (cl_nodes live_cluster)"
    by (simp add: registry_wf_def live_cluster_def demo_entry_def node_record_def id)
  have reg: "cl_nodes live_cluster (ag_node_id demo_agent) = Some (demo_entry 0)"
    "\<not> ne_cordoned (demo_entry 0)" "enumerates [''n1''] (cl_nodes live_cluster)"
    by (simp_all add: live_cluster_def id demo_entry_def node_record_def enumerates_def)
  have g: "\<not> ag_draining demo_agent" "ag_models demo_agent = (''m'', []) # []"
    "RoleDecode = Unspecified \<or> role_i32 RoleDecode = role_to_int (ag_role demo_agent) \<or> ag_role demo_agent = CfgBoth"
    "\<forall>h. (AUTOSCALER @ ag_node_id demo_agent, Some h) \<in> set ?kvs \<longrightarrow> hi_drain h"
    by (simp_all add: demo_agent_def idle_hint_def)
  have d: "hi_drain idle_hint" by (simp add: idle_hint_def)
  note r = drain_undone_by_heartbeat [OF d _ a wf reg refl refl g tick, where ?t1.0 = 4 and ?t2.0 = 5 and gpu = demo_gpu
      and stats = no_stats and epoch = 0, folded demo_entry_def]
  have "demo_entry 0 \<in> set (nodes_for [''n1''] RoleDecode (Some ''m'') (cl_nodes live_cluster))"
    by (simp add: nodes_for_def snapshot_def live_cluster_def List.map_filter_simps routable_def demo_entry_def
        node_record_def demo_agent_def role_enum_def role_try_from_def serves_def)
  moreover have "nodes_for [''n1''] RoleDecode (Some ''m'') (cl_nodes ?c1) = []"
    using r by (simp add: id nodes_for_def snapshot_def List.map_filter_simps routable_def)
  ultimately show ?thesis
    using r a tick by (auto simp: id simp del: handle_events.simps handle_event.simps operator_tick.simps)
qed

end
